(* ===== verification/Prelude.thy ===== *)
theory Prelude
  imports Main "HOL-Library.Word" "HOL-Library.Char_ord" "HOL-Library.List_Lexorder"
    "HOL-Library.Sublist"
begin

section \<open>Shared vocabulary of the sandbox model\<close>

text \<open>
  Machine integers at the widths the C++ code declares, the faults a C++ call can end in,
  the fragment of \<^verbatim>\<open>std::string\<close> the code uses (\<^verbatim>\<open>find\<close>, \<^verbatim>\<open>rfind\<close>, \<^verbatim>\<open>substr\<close>,
  \<^verbatim>\<open>starts_with\<close>, \<^verbatim>\<open>to_string\<close>, \<^verbatim>\<open>stoull\<close>, \<^verbatim>\<open>stoi\<close>, stream extraction of an unsigned
  integer), and the list lemmas the components share. Strings are HOL strings: a
  \<^verbatim>\<open>std::string\<close> is a sequence of bytes and so is a HOL \<open>char list\<close>.
\<close>

named_theorems str_simps \<open>facts about the std::string operations\<close>
named_theorems codec_simps \<open>facts about byte encodings\<close>
named_theorems inv_intros \<open>preservation of component invariants\<close>

type_synonym u8 = "8 word"
type_synonym u16 = "16 word"
type_synonym u32 = "32 word"
type_synonym u64 = "64 word"
type_synonym i32 = "32 word"
type_synonym i64 = "64 word"

text \<open>
  The ways a C++ call can fail to return: an exception of the standard library, an exhausted
  stack, an access outside an object, a mutex or thread used against its contract, or
  \<^verbatim>\<open>std::terminate\<close> (a joinable thread object that is destroyed).
\<close>

datatype fault =
    Bad_alloc | Length_error | Invalid_argument | Out_of_range | System_error
  | Stack_overflow | Out_of_bounds | Mutex_misuse | Terminate

type_synonym 'a res = "fault + 'a"

fun res_bind :: "'a res \<Rightarrow> ('a \<Rightarrow> 'b res) \<Rightarrow> 'b res" where
  "res_bind (Inl e) f = Inl e"
| "res_bind (Inr x) f = f x"

subsection \<open>std::string\<close>

definition starts_with :: "string \<Rightarrow> string \<Rightarrow> bool" where
  "starts_with s p = prefix p s"

text \<open>\<open>str_find pat s\<close> is \<^verbatim>\<open>s.find(pat)\<close>; \<open>None\<close> stands for \<^verbatim>\<open>npos\<close>.\<close>

fun str_find :: "string \<Rightarrow> string \<Rightarrow> nat option" where
  "str_find pat [] = (if pat = [] then Some 0 else None)"
| "str_find pat (c # cs) =
     (if prefix pat (c # cs) then Some 0 else map_option Suc (str_find pat cs))"

definition str_find_from :: "string \<Rightarrow> string \<Rightarrow> nat \<Rightarrow> nat option" where
  "str_find_from pat s pos =
     (if pos \<le> length s then map_option (\<lambda>i. pos + i) (str_find pat (drop pos s)) else None)"

text \<open>\<^verbatim>\<open>s.rfind(c)\<close> for a single character.\<close>

fun str_rfind :: "char \<Rightarrow> string \<Rightarrow> nat option" where
  "str_rfind c [] = None"
| "str_rfind c (d # ds) =
     (case str_rfind c ds of Some i \<Rightarrow> Some (Suc i) | None \<Rightarrow> if d = c then Some 0 else None)"

text \<open>
  \<^verbatim>\<open>s.substr(pos, n)\<close> throws when \<open>pos\<close> is beyond the end and clips \<open>n\<close>; a count of
  \<^verbatim>\<open>npos\<close> is \<open>None\<close>.
\<close>

definition substr :: "string \<Rightarrow> nat \<Rightarrow> nat option \<Rightarrow> string res" where
  "substr s pos n =
     (if length s < pos then Inl Out_of_range
      else Inr (case n of None \<Rightarrow> drop pos s | Some k \<Rightarrow> take k (drop pos s)))"

text \<open>\<^verbatim>\<open>s.substr(0, n)\<close> never throws.\<close>

definition substr0 :: "string \<Rightarrow> nat option \<Rightarrow> string" where
  "substr0 s n = (case n of None \<Rightarrow> s | Some k \<Rightarrow> take k s)"

subsection \<open>Decimal numbers\<close>

definition digit_char :: "nat \<Rightarrow> char" where
  "digit_char d = char_of (48 + d)"

definition is_digit :: "char \<Rightarrow> bool" where
  "is_digit c = (48 \<le> (of_char c :: nat) \<and> (of_char c :: nat) \<le> 57)"

definition digit_val :: "char \<Rightarrow> nat" where
  "digit_val c = of_char c - 48"

text \<open>\<^verbatim>\<open>std::to_string\<close> of an unsigned and of a signed value.\<close>

fun dec_of_nat :: "nat \<Rightarrow> string" where
  "dec_of_nat n =
     (if n < 10 then [digit_char n] else dec_of_nat (n div 10) @ [digit_char (n mod 10)])"

definition dec_of_int :: "int \<Rightarrow> string" where
  "dec_of_int i = (if i < 0 then CHR ''-'' # dec_of_nat (nat (- i)) else dec_of_nat (nat i))"

definition dec_value :: "string \<Rightarrow> nat" where
  "dec_value ds = foldl (\<lambda>v c. 10 * v + digit_val c) 0 ds"

definition isspace :: "char \<Rightarrow> bool" where
  "isspace c = (of_char c \<in> {9, 10, 11, 12, 13, 32 :: nat})"

text \<open>The sign and the digits \<^verbatim>\<open>strtoull\<close> and \<^verbatim>\<open>strtol\<close> find after leading white space.\<close>

definition scan_number :: "string \<Rightarrow> bool \<times> string" where
  "scan_number s =
     (let t = dropWhile isspace s in
      case t of
        [] \<Rightarrow> (False, [])
      | c # cs \<Rightarrow>
          if c = CHR ''-'' then (True, takeWhile is_digit cs)
          else if c = CHR ''+'' then (False, takeWhile is_digit cs)
          else (False, takeWhile is_digit t))"

definition stoull :: "string \<Rightarrow> u64 res" where
  "stoull s =
     (case scan_number s of (neg, ds) \<Rightarrow>
        if ds = [] then Inl Invalid_argument
        else if 2 ^ 64 \<le> dec_value ds then Inl Out_of_range
        else Inr (if neg then - of_nat (dec_value ds) else of_nat (dec_value ds)))"

definition stoi :: "string \<Rightarrow> int res" where
  "stoi s =
     (case scan_number s of (neg, ds) \<Rightarrow>
        let v = (if neg then - int (dec_value ds) else int (dec_value ds)) in
        if ds = [] then Inl Invalid_argument
        else if v < - (2 ^ 31) \<or> 2 ^ 31 \<le> v then Inl Out_of_range
        else Inr v)"

text \<open>
  \<^verbatim>\<open>iss >> x\<close> for an unsigned 64-bit \<open>x\<close>: an exhausted stream leaves \<open>x\<close> as it was, a
  malformed number stores 0, an overflow stores the maximum.
\<close>

definition extract_u64 :: "u64 \<Rightarrow> string \<Rightarrow> u64" where
  "extract_u64 old s =
     (if dropWhile isspace s = [] then old
      else case scan_number s of (neg, ds) \<Rightarrow>
        if ds = [] then 0
        else if 2 ^ 64 \<le> dec_value ds then - 1
        else (if neg then - of_nat (dec_value ds) else of_nat (dec_value ds)))"

subsection \<open>The last entries of a list\<close>

definition last_n :: "nat \<Rightarrow> 'a list \<Rightarrow> 'a list" where
  "last_n n xs = drop (length xs - n) xs"

section \<open>Lemmas\<close>

lemma res_bind_eq_Inr [simp]: "res_bind r f = Inr y \<longleftrightarrow> (\<exists>x. r = Inr x \<and> f x = Inr y)"
  by (cases r) auto

subsection \<open>Substring search\<close>

lemma str_find_Some_iff:
  "str_find pat s = Some i \<longleftrightarrow>
     i \<le> length s \<and> prefix pat (drop i s) \<and> (\<forall>j<i. \<not> prefix pat (drop j s))"
proof (induction s arbitrary: i)
  case Nil
  then show ?case by auto
next
  case (Cons c cs)
  show ?case
  proof (cases i)
    case 0
    then show ?thesis by auto
  next
    case (Suc k)
    with Cons show ?thesis by (auto simp: All_less_Suc2)
  qed
qed

lemma str_find_None_iff:
  "str_find pat s = None \<longleftrightarrow> (\<forall>i\<le>length s. \<not> prefix pat (drop i s))"
proof (induction s)
  case Nil
  then show ?case by auto
next
  case (Cons c cs)
  have "(\<forall>i\<le>Suc (length cs). \<not> prefix pat (drop i (c # cs))) \<longleftrightarrow>
      \<not> prefix pat (c # cs) \<and> (\<forall>i\<le>length cs. \<not> prefix pat (drop i cs))"
    by (simp flip: less_Suc_eq_le) (simp add: All_less_Suc2)
  with Cons show ?case by auto
qed

lemma str_find_0_iff [str_simps]: "str_find pat s = Some 0 \<longleftrightarrow> prefix pat s"
  by (simp add: str_find_Some_iff)

lemma str_find_char_append [str_simps]: "c \<notin> set t \<Longrightarrow> str_find [c] (t @ c # r) = Some (length t)"
  by (induction t) auto

lemma str_find_sublist: "str_find pat s \<noteq> None \<longleftrightarrow> sublist pat s"
proof
  assume "str_find pat s \<noteq> None"
  then obtain i where "prefix pat (drop i s)" by (auto simp: str_find_Some_iff)
  then show "sublist pat s"
    using prefix_imp_sublist sublist_drop sublist_order.order_trans by blast
next
  assume "sublist pat s"
  then obtain xs ys where "s = xs @ pat @ ys" by (auto simp: sublist_def)
  then have "prefix pat (drop (length xs) s)" and "length xs \<le> length s" by auto
  then show "str_find pat s \<noteq> None" unfolding str_find_None_iff by blast
qed

subsection \<open>Decimal numbers\<close>

declare dec_of_nat.simps [simp del]

lemma of_char_digit [str_simps]: "d < 10 \<Longrightarrow> (of_char (digit_char d) :: nat) = 48 + d"
  by (simp add: digit_char_def)

lemma is_digit_digit_char [str_simps]: "d < 10 \<Longrightarrow> is_digit (digit_char d)"
  by (simp add: is_digit_def of_char_digit)

lemma digit_val_digit_char [str_simps]: "d < 10 \<Longrightarrow> digit_val (digit_char d) = d"
  by (simp add: digit_val_def of_char_digit)

lemma dec_of_nat_digits: "\<forall>c \<in> set (dec_of_nat n). is_digit c"
proof (induction n rule: dec_of_nat.induct)
  case (1 n)
  then show ?case by (subst dec_of_nat.simps) (auto simp: str_simps)
qed

lemma dec_of_nat_nonempty [simp]: "dec_of_nat n \<noteq> []"
  by (subst dec_of_nat.simps) simp

lemma dec_value_snoc: "dec_value (ds @ [c]) = 10 * dec_value ds + digit_val c"
  by (simp add: dec_value_def)

lemma dec_value_dec_of_nat [str_simps]: "dec_value (dec_of_nat n) = n"
proof (induction n rule: dec_of_nat.induct)
  case (1 n)
  show ?case
  proof (cases "n < 10")
    case True
    then show ?thesis
      by (subst dec_of_nat.simps) (simp add: dec_value_def str_simps)
  next
    case False
    with "1" have "dec_value (dec_of_nat (n div 10)) = n div 10" by simp
    with False show ?thesis
      by (subst dec_of_nat.simps) (simp add: dec_value_snoc str_simps)
  qed
qed

lemma takeWhile_digits_append:
  assumes "\<forall>c \<in> set ds. is_digit c" and "rest = [] \<or> \<not> is_digit (hd rest)"
  shows "takeWhile is_digit (ds @ rest) = ds"
  using assms by (induction ds) (auto simp: takeWhile_eq_Nil_iff)

lemma digit_not_space: "is_digit c \<Longrightarrow> \<not> isspace c"
  by (auto simp: is_digit_def isspace_def)

lemma digit_not_sign: "is_digit c \<Longrightarrow> c \<noteq> CHR ''-'' \<and> c \<noteq> CHR ''+''"
  by (auto simp: is_digit_def)

lemma scan_number_dec:
  assumes "rest = [] \<or> \<not> is_digit (hd rest)" and "\<forall>c \<in> set ws. isspace c"
  shows "scan_number (ws @ dec_of_nat n @ rest) = (False, dec_of_nat n)"
proof -
  obtain c cs where cs: "dec_of_nat n = c # cs"
    by (cases "dec_of_nat n") auto
  with dec_of_nat_digits [of n] have c: "is_digit c" by auto
  have "dropWhile isspace (ws @ dec_of_nat n @ rest) = dec_of_nat n @ rest"
    using assms(2) c cs digit_not_space by (induction ws) auto
  moreover have "takeWhile is_digit (dec_of_nat n @ rest) = dec_of_nat n"
    using dec_of_nat_digits assms(1) by (rule takeWhile_digits_append)
  ultimately show ?thesis
    using cs digit_not_sign [OF c] by (simp add: scan_number_def)
qed

text \<open>Printing a number and reading it back, whatever white space precedes it.\<close>

lemma stoull_dec:
  assumes "rest = [] \<or> \<not> is_digit (hd rest)" and "\<forall>c \<in> set ws. isspace c" and "n < 2 ^ 64"
  shows "stoull (ws @ dec_of_nat n @ rest) = Inr (of_nat n)"
  using assms by (simp add: stoull_def scan_number_dec str_simps)

corollary stoull_dec_u64 [str_simps]: "stoull (dec_of_nat (unat (w :: u64))) = Inr w"
  using stoull_dec [of "[]" "[]" "unat w"] using unsigned_less [of w] by simp

subsection \<open>Suffixes\<close>

lemma length_last_n [simp]: "length (last_n n xs) = min n (length xs)"
  by (simp add: last_n_def)

lemma last_n_all [simp]: "length xs \<le> n \<Longrightarrow> last_n n xs = xs"
  by (simp add: last_n_def)

lemma last_n_suffix: "suffix (last_n n xs) xs"
  by (simp add: last_n_def suffix_drop)

lemma last_n_append:
  "last_n n (xs @ ys) = (if n \<le> length ys then last_n n ys else last_n (n - length ys) xs @ ys)"
  by (auto simp: last_n_def)

lemma last_n_last_n_append [simp]: "last_n n (last_n n xs @ ys) = last_n n (xs @ ys)"
proof (cases "n \<le> length xs")
  case True
  then show ?thesis by (auto simp: last_n_append) (auto simp: last_n_def add.commute)
next
  case False
  then show ?thesis by simp
qed

text \<open>\<^verbatim>\<open>push_back\<close>, then \<^verbatim>\<open>erase(begin())\<close> when the size passed the limit.\<close>

lemma erase_front_last_n:
  assumes "length xs \<le> n"
  shows "(if n < length (xs @ [e]) then tl (xs @ [e]) else xs @ [e]) = last_n n (xs @ [e])"
proof (cases "length xs = n")
  case True
  then have "length (xs @ [e]) - n = 1" by simp
  then have "last_n n (xs @ [e]) = drop (Suc 0) (xs @ [e])"
    unfolding last_n_def by simp
  then show ?thesis using True by (simp add: drop_Suc del: drop_append)
next
  case False
  with assms show ?thesis by simp
qed

lemma last_n_rev_take: "last_n n xs = rev (take n (rev xs))"
  by (simp add: last_n_def take_rev)

lemma last_n_nths: "map ((!) xs) [length xs - n ..< length xs] = last_n n xs"
proof -
  have "map ((!) xs) [length xs - n ..< length xs] = drop (length xs - n) (map ((!) xs) [0 ..< length xs])"
    by (simp add: drop_map)
  then show ?thesis by (simp add: last_n_def map_nth)
qed

end
