(* ===== verification/Bytes.thy ===== *)
theory Bytes
  imports Prelude
begin

section \<open>Bytes and encodings\<close>

text \<open>
  The object representation the code copies with \<^verbatim>\<open>memcpy\<close>: little-endian unsigned
  integers (the byte order of the x86-64 and AArch64 hosts the sandbox is built for, and the
  one the Rust server writes explicitly), and \<^verbatim>\<open>std::string\<close> as bytes.
  Two locales state what an encoding promises its clients: \<open>slice_codec\<close> for decoders that
  consume the front of a slice (the server side) and \<open>cursor_codec\<close> for decoders that read at
  a position of a buffer (the C++ side).
\<close>

fun le_bytes :: "nat \<Rightarrow> nat \<Rightarrow> u8 list" where
  "le_bytes 0 n = []"
| "le_bytes (Suc k) n = of_nat (n mod 256) # le_bytes k (n div 256)"

fun of_le :: "u8 list \<Rightarrow> nat" where
  "of_le [] = 0"
| "of_le (b # bs) = unat b + 256 * of_le bs"

definition u32_bytes :: "u32 \<Rightarrow> u8 list" where
  "u32_bytes w = le_bytes 4 (unat w)"

definition u64_bytes :: "u64 \<Rightarrow> u8 list" where
  "u64_bytes w = le_bytes 8 (unat w)"

text \<open>\<^verbatim>\<open>memcpy(&x, buf + pos, 4)\<close> and \<^verbatim>\<open>memcpy(&x, buf + pos, 8)\<close>.\<close>

definition u32_at :: "u8 list \<Rightarrow> nat \<Rightarrow> u32" where
  "u32_at buf pos = of_nat (of_le (take 4 (drop pos buf)))"

definition u64_at :: "u8 list \<Rightarrow> nat \<Rightarrow> u64" where
  "u64_at buf pos = of_nat (of_le (take 8 (drop pos buf)))"

text \<open>\<^verbatim>\<open>memcpy(buf + pos, src, len)\<close>.\<close>

definition memcpy_at :: "'a list \<Rightarrow> nat \<Rightarrow> 'a list \<Rightarrow> 'a list" where
  "memcpy_at buf pos src = take pos buf @ src @ drop (pos + length src) buf"

definition byte_of_char :: "char \<Rightarrow> u8" where
  "byte_of_char c = of_nat (of_char c)"

definition char_of_byte :: "u8 \<Rightarrow> char" where
  "char_of_byte b = char_of (unat b)"

definition bytes_of_string :: "string \<Rightarrow> u8 list" where
  "bytes_of_string s = map byte_of_char s"

definition string_of_bytes :: "u8 list \<Rightarrow> string" where
  "string_of_bytes bs = map char_of_byte bs"

text \<open>\<^verbatim>\<open>assign(buf.begin() + pos, buf.begin() + pos + n)\<close>.\<close>

definition slice :: "'a list \<Rightarrow> nat \<Rightarrow> nat \<Rightarrow> 'a list" where
  "slice buf pos n = take n (drop pos buf)"

text \<open>\<^verbatim>\<open>memcpy\<close> into a buffer of known size; writing past its end is a fault.\<close>

definition memcpy_chk :: "u8 list \<Rightarrow> nat \<Rightarrow> u8 list \<Rightarrow> u8 list res" where
  "memcpy_chk buf pos src =
     (if pos + length src \<le> length buf then Inr (memcpy_at buf pos src) else Inl Out_of_bounds)"

text \<open>
  Reading \<open>n\<close> items one after the other; \<open>'s\<close> is what is left to read (a slice, or a
  position in a buffer) and the first failure ends the loop.
\<close>

fun read_many :: "('s \<Rightarrow> 'e + ('a \<times> 's)) \<Rightarrow> nat \<Rightarrow> 's \<Rightarrow> 'e + ('a list \<times> 's)" where
  "read_many d 0 s = Inr ([], s)"
| "read_many d (Suc n) s =
     (case d s of Inl e \<Rightarrow> Inl e
      | Inr (x, s') \<Rightarrow>
          (case read_many d n s' of Inl e \<Rightarrow> Inl e | Inr (xs, s'') \<Rightarrow> Inr (x # xs, s'')))"

text \<open>
  How a C++ function with an optional result stops: it returns \<^verbatim>\<open>std::nullopt\<close>, or it does
  not return at all.
\<close>

datatype stop = Nullopt | Fault fault

text \<open>Checked reads: an access outside the buffer is a fault, whatever the caller tested before.\<close>

definition fetch_byte :: "u8 list \<Rightarrow> nat \<Rightarrow> stop + (u8 \<times> nat)" where
  "fetch_byte buf pos =
     (if pos < length buf then Inr (buf ! pos, pos + 1) else Inl (Fault Out_of_bounds))"

definition fetch_u32 :: "u8 list \<Rightarrow> nat \<Rightarrow> stop + (u32 \<times> nat)" where
  "fetch_u32 buf pos =
     (if pos + 4 \<le> length buf then Inr (u32_at buf pos, pos + 4) else Inl (Fault Out_of_bounds))"

definition fetch_u64 :: "u8 list \<Rightarrow> nat \<Rightarrow> stop + (u64 \<times> nat)" where
  "fetch_u64 buf pos =
     (if pos + 8 \<le> length buf then Inr (u64_at buf pos, pos + 8) else Inl (Fault Out_of_bounds))"

definition fetch_bytes :: "u8 list \<Rightarrow> nat \<Rightarrow> nat \<Rightarrow> stop + (u8 list \<times> nat)" where
  "fetch_bytes buf n pos =
     (if pos + n \<le> length buf then Inr (slice buf pos n, pos + n) else Inl (Fault Out_of_bounds))"

section \<open>Lemmas\<close>

lemma length_le_bytes [simp, codec_simps]: "length (le_bytes k n) = k"
  by (induction k arbitrary: n) auto

lemma le_bytes_4:
  "le_bytes 4 n = [of_nat (n mod 256), of_nat (n div 256 mod 256), of_nat (n div 256 div 256 mod 256),
     of_nat (n div 256 div 256 div 256 mod 256)]"
proof -
  have "(4::nat) = Suc (Suc (Suc (Suc 0)))" by simp
  then show ?thesis by (simp only: le_bytes.simps)
qed

lemma unat_of_nat_byte: "n < 256 \<Longrightarrow> unat (of_nat n :: u8) = n"
  by (simp add: unat_of_nat)

lemma of_le_le_bytes [codec_simps]: "of_le (le_bytes k n) = n mod 256 ^ k"
proof (induction k arbitrary: n)
  case 0
  then show ?case by simp
next
  case (Suc k)
  have "of_le (le_bytes (Suc k) n) = n mod 256 + 256 * (n div 256 mod 256 ^ k)"
    using Suc by (simp add: unat_of_nat)
  then show ?case by (simp add: mod_mult2_eq)
qed

lemma of_le_bound: "of_le bs < 256 ^ length bs"
proof (induction bs)
  case Nil
  then show ?case by simp
next
  case (Cons b bs)
  have "unat b < 256" using unsigned_less [of b] by simp
  with Cons show ?case by simp
qed

lemma le_bytes_of_le: "le_bytes (length bs) (of_le bs) = bs"
proof (induction bs)
  case Nil
  then show ?case by simp
next
  case (Cons b bs)
  have "unat b < 256" using unsigned_less [of b] by simp
  with Cons show ?case by simp
qed

lemma length_u32_bytes [simp, codec_simps]: "length (u32_bytes w) = 4"
  by (simp add: u32_bytes_def)

lemma length_u64_bytes [simp, codec_simps]: "length (u64_bytes w) = 8"
  by (simp add: u64_bytes_def)

lemma u32_of_le [codec_simps]: "(of_nat (of_le (u32_bytes w)) :: u32) = w"
proof -
  have "unat w < 256 ^ 4" using unsigned_less [of w] by simp
  then show ?thesis by (simp add: u32_bytes_def of_le_le_bytes)
qed

lemma u64_of_le [codec_simps]: "(of_nat (of_le (u64_bytes w)) :: u64) = w"
proof -
  have "unat w < 256 ^ 8" using unsigned_less [of w] by simp
  then show ?thesis by (simp add: u64_bytes_def of_le_le_bytes)
qed

lemma u32_at_enc [codec_simps]: "drop pos buf = u32_bytes w @ rest \<Longrightarrow> u32_at buf pos = w"
  by (simp add: u32_at_def u32_of_le)

lemma u64_at_enc [codec_simps]: "drop pos buf = u64_bytes w @ rest \<Longrightarrow> u64_at buf pos = w"
  by (simp add: u64_at_def u64_of_le)

lemma char_of_byte_of_char [simp]: "char_of_byte (byte_of_char c) = c"
proof -
  have "(of_char c :: nat) < 256" by (rule nat_of_char_less_256)
  then show ?thesis by (simp add: char_of_byte_def byte_of_char_def unat_of_nat)
qed

lemma byte_of_char_of_byte [simp]: "byte_of_char (char_of_byte b) = b"
proof -
  have "unat b < 256" using unsigned_less [of b] by simp
  then show ?thesis by (simp add: char_of_byte_def byte_of_char_def)
qed

lemma string_of_bytes_of_string [simp, codec_simps]: "string_of_bytes (bytes_of_string s) = s"
  by (simp add: string_of_bytes_def bytes_of_string_def comp_def)

lemma bytes_of_string_of_bytes [simp, codec_simps]: "bytes_of_string (string_of_bytes bs) = bs"
  by (simp add: string_of_bytes_def bytes_of_string_def comp_def)

lemma length_bytes_of_string [simp, codec_simps]: "length (bytes_of_string s) = length s"
  by (simp add: bytes_of_string_def)

lemma length_string_of_bytes [simp, codec_simps]: "length (string_of_bytes bs) = length bs"
  by (simp add: string_of_bytes_def)

lemma slice_enc [codec_simps]: "drop pos buf = xs @ rest \<Longrightarrow> slice buf pos (length xs) = xs"
  by (simp add: slice_def)

lemma length_slice: "pos + n \<le> length buf \<Longrightarrow> length (slice buf pos n) = n"
  by (simp add: slice_def)

lemma length_memcpy_at [simp, codec_simps]:
  "pos + length src \<le> length buf \<Longrightarrow> length (memcpy_at buf pos src) = length buf"
  by (simp add: memcpy_at_def)

lemma memcpy_at_append [codec_simps]:
  "pos = length pre \<Longrightarrow> length src = length mid \<Longrightarrow>
   memcpy_at (pre @ mid @ post) pos src = pre @ src @ post"
  by (simp add: memcpy_at_def)

lemma drop_after: "drop pos buf = xs @ rest \<Longrightarrow> drop (pos + length xs) buf = rest"
  by (metis add.commute append_eq_conv_conj drop_drop)

lemma drop_bound: "drop pos buf = xs @ rest \<Longrightarrow> xs \<noteq> [] \<Longrightarrow> pos + length xs \<le> length buf"
  by (metis (no_types, lifting) append_is_Nil_conv drop_eq_Nil le_add_diff_inverse length_append
      length_drop linorder_le_cases nat_add_left_cancel_le trans_le_add1)

subsection \<open>What a codec promises\<close>

text \<open>
  \<open>view\<close> is what the reader makes of a value: the identity for plain integers, the C++
  \<^verbatim>\<open>Response\<close> for a value the Rust server encoded.
\<close>

locale slice_codec =
  fixes enc :: "'a \<Rightarrow> 'b list"
    and dec :: "'b list \<Rightarrow> 'e + ('c \<times> 'b list)"
    and view :: "'a \<Rightarrow> 'c"
    and ok :: "'a \<Rightarrow> bool"
  assumes dec_enc: "ok x \<Longrightarrow> dec (enc x @ rest) = Inr (view x, rest)"
begin

text \<open>An encoding that decodes is uniquely decodable.\<close>

lemma enc_unique:
  assumes "ok x" "ok y" "enc x @ r = enc y @ s"
  shows "view x = view y \<and> r = s"
proof -
  have "dec (enc x @ r) = Inr (view y, s)"
    unfolding assms(3) by (rule dec_enc [OF assms(2)])
  then show ?thesis by (simp add: dec_enc [OF assms(1)])
qed

lemma read_many_slice:
  "(\<And>x. x \<in> set xs \<Longrightarrow> ok x) \<Longrightarrow>
   read_many dec (length xs) (concat (map enc xs) @ rest) = Inr (map view xs, rest)"
  by (induction xs) (auto simp: dec_enc)

end

locale cursor_codec =
  fixes enc :: "'a \<Rightarrow> 'b list"
    and rd :: "'b list \<Rightarrow> nat \<Rightarrow> 'e + ('c \<times> nat)"
    and view :: "'a \<Rightarrow> 'c"
    and ok :: "'a \<Rightarrow> bool"
  assumes rd_enc:
    "ok x \<Longrightarrow> drop pos buf = enc x @ rest \<Longrightarrow> rd buf pos = Inr (view x, pos + length (enc x))"
begin

lemma read_many_cursor:
  "(\<And>x. x \<in> set xs \<Longrightarrow> ok x) \<Longrightarrow> drop pos buf = concat (map enc xs) @ rest \<Longrightarrow>
   read_many (rd buf) (length xs) pos = Inr (map view xs, pos + length (concat (map enc xs)))"
proof (induction xs arbitrary: pos)
  case Nil
  then show ?case by simp
next
  case (Cons x xs)
  then have d: "drop pos buf = enc x @ concat (map enc xs) @ rest" by simp
  have "rd buf pos = Inr (view x, pos + length (enc x))"
    using Cons.prems(1) d by (intro rd_enc) auto
  moreover have "read_many (rd buf) (length xs) (pos + length (enc x)) =
      Inr (map view xs, pos + length (enc x) + length (concat (map enc xs)))"
    using Cons.prems(1) drop_after [OF d] by (intro Cons.IH) auto
  ultimately show ?case by simp
qed

end

text \<open>A cursor codec read from position 0 of what is left is a slice codec.\<close>

sublocale cursor_codec \<subseteq> sl: slice_codec enc
  "\<lambda>bs. map_sum id (\<lambda>(x, p). (x, drop p bs)) (rd bs 0)" view ok
  by unfold_locales (simp add: rd_enc)

text \<open>The fixed-width integers, as every parser of the code reads them.\<close>

lemma u32_bytes_nonempty [simp]: "u32_bytes w \<noteq> []"
  by (metis length_u32_bytes list.size(3) zero_neq_numeral)

lemma u64_bytes_nonempty [simp]: "u64_bytes w \<noteq> []"
  by (metis length_u64_bytes list.size(3) zero_neq_numeral)

interpretation c32: cursor_codec u32_bytes fetch_u32 id "\<lambda>_. True"
  by unfold_locales
    (use drop_bound u32_at_enc in \<open>fastforce simp: fetch_u32_def\<close>)

interpretation c64: cursor_codec u64_bytes fetch_u64 id "\<lambda>_. True"
  by unfold_locales
    (use drop_bound u64_at_enc in \<open>fastforce simp: fetch_u64_def\<close>)

text \<open>Sequencing of checked reads never leaves the buffer.\<close>

lemmas fetch_defs = fetch_byte_def fetch_u32_def fetch_u64_def fetch_bytes_def

lemma fetch_bytes_enc:
  "drop pos buf = bs @ rest \<Longrightarrow> bs \<noteq> [] \<or> pos \<le> length buf \<Longrightarrow>
   fetch_bytes buf (length bs) pos = Inr (bs, pos + length bs)"
  using drop_bound [of pos buf bs rest]
  by (cases "bs = []") (auto simp: fetch_bytes_def slice_enc slice_def)

lemma read_many_length: "read_many d n s = Inr (xs, s') \<Longrightarrow> length xs = n"
  by (induction n arbitrary: s xs) (auto split: sum.splits prod.splits)

lemma read_many_error:
  "read_many d n s = Inl e \<Longrightarrow> \<exists>s'. d s' = Inl e"
  by (induction n arbitrary: s) (auto split: sum.splits prod.splits)

end
