(* ===== verification/Redis_Proto.thy ===== *)
theory Redis_Proto
  imports Bytes
begin

section \<open>The server's side of the wire protocol\<close>

text \<open>
  The peer of the C++ client: \<^verbatim>\<open>redisdb/src/proto/mod.rs\<close>. \<open>sresponse\<close> is the Rust enum
  \<^verbatim>\<open>Response\<close>, \<open>encode\<close> its serialiser and \<open>read_request\<close> the request parser. A Rust
  \<^verbatim>\<open>String\<close> is the string of its UTF-8 bytes; an \<^verbatim>\<open>f64\<close> is its 64-bit pattern, which is
  all the protocol moves. A stream is the list of bytes still to be read from it.
\<close>

datatype sresponse =
    SNil
  | SErr i32 string
  | SStr string
  | SInt i64
  | SDbl u64
  | SArr "sresponse list"

definition SER_NIL :: u8 where "SER_NIL = 0"
definition SER_ERR :: u8 where "SER_ERR = 1"
definition SER_STR :: u8 where "SER_STR = 2"
definition SER_INT :: u8 where "SER_INT = 3"
definition SER_DBL :: u8 where "SER_DBL = 4"
definition SER_ARR :: u8 where "SER_ARR = 5"

definition MAX_MSG_SIZE :: nat where "MAX_MSG_SIZE = 4 * 1024 * 1024"
definition MAX_ARGS :: nat where "MAX_ARGS = 1024"

fun encode :: "sresponse \<Rightarrow> u8 list" where
  "encode SNil = [SER_NIL]"
| "encode (SErr code msg) =
     SER_ERR # u32_bytes code @ u32_bytes (of_nat (length msg)) @ bytes_of_string msg"
| "encode (SStr s) = SER_STR # u32_bytes (of_nat (length s)) @ bytes_of_string s"
| "encode (SInt v) = SER_INT # u64_bytes v"
| "encode (SDbl v) = SER_DBL # u64_bytes v"
| "encode (SArr elems) =
     SER_ARR # u32_bytes (of_nat (length elems)) @ concat (map encode elems)"

text \<open>\<^verbatim>\<open>write_response\<close>: the payload behind its length.\<close>

definition write_response :: "u8 list \<Rightarrow> u8 list" where
  "write_response payload = u32_bytes (of_nat (length payload)) @ payload"

datatype proto_error = Io | TooLarge u32 | TooManyArgs u32 | Malformed string

text \<open>\<^verbatim>\<open>String::from_utf8\<close> accepts exactly the well-formed UTF-8 byte sequences.\<close>

definition utf8_cont :: "u8 \<Rightarrow> bool" where
  "utf8_cont b = (128 \<le> unat b \<and> unat b \<le> 191)"

fun utf8_valid :: "u8 list \<Rightarrow> bool" where
  "utf8_valid [] = True"
| "utf8_valid (b # bs) =
     (let n = unat b in
      if n < 128 then utf8_valid bs
      else if 194 \<le> n \<and> n \<le> 223 then
        (case bs of b1 # r \<Rightarrow> utf8_cont b1 \<and> utf8_valid r | _ \<Rightarrow> False)
      else if 224 \<le> n \<and> n \<le> 239 then
        (case bs of
           b1 # b2 # r \<Rightarrow>
             utf8_cont b1 \<and> utf8_cont b2 \<and> (n = 224 \<longrightarrow> 160 \<le> unat b1) \<and>
             (n = 237 \<longrightarrow> unat b1 \<le> 159) \<and> utf8_valid r
         | _ \<Rightarrow> False)
      else if 240 \<le> n \<and> n \<le> 244 then
        (case bs of
           b1 # b2 # b3 # r \<Rightarrow>
             utf8_cont b1 \<and> utf8_cont b2 \<and> utf8_cont b3 \<and> (n = 240 \<longrightarrow> 144 \<le> unat b1) \<and>
             (n = 244 \<longrightarrow> unat b1 \<le> 143) \<and> utf8_valid r
         | _ \<Rightarrow> False)
      else False)"

text \<open>One turn of the argument loop of \<^verbatim>\<open>read_request\<close>.\<close>

definition read_arg :: "u8 list \<Rightarrow> proto_error + (string \<times> u8 list)" where
  "read_arg buf =
     (if length buf < 4 then Inl (Malformed ''truncated arg header'')
      else let sz = unat (u32_at buf 0); buf1 = drop 4 buf in
        if length buf1 < sz then Inl (Malformed ''truncated arg body'')
        else if \<not> utf8_valid (take sz buf1) then Inl (Malformed ''invalid utf-8'')
        else Inr (string_of_bytes (take sz buf1), drop sz buf1))"

definition read_request :: "u8 list \<Rightarrow> proto_error + (string list \<times> u8 list)" where
  "read_request stream =
     (if length stream < 4 then Inl Io
      else let msg_len = u32_at stream 0; rest = drop 4 stream in
        if MAX_MSG_SIZE < unat msg_len then Inl (TooLarge msg_len)
        else if length rest < unat msg_len then Inl Io
        else let buf = take (unat msg_len) rest; stream' = drop (unat msg_len) rest in
          if length buf < 4 then Inl (Malformed ''header too short'')
          else let n = u32_at buf 0 in
            if MAX_ARGS < unat n then Inl (TooManyArgs n)
            else (case read_many read_arg (unat n) (drop 4 buf) of
                    Inl e \<Rightarrow> Inl e
                  | Inr (args, _) \<Rightarrow> Inr (args, stream')))"

text \<open>The request layout both sides agree on: the argument count, then each argument behind its length.\<close>

definition arg_bytes :: "string \<Rightarrow> u8 list" where
  "arg_bytes a = u32_bytes (of_nat (length a)) @ bytes_of_string a"

definition request_payload :: "string list \<Rightarrow> u8 list" where
  "request_payload args = u32_bytes (of_nat (length args)) @ concat (map arg_bytes args)"

definition arg_ok :: "string \<Rightarrow> bool" where
  "arg_ok a = (length a < 2 ^ 32 \<and> utf8_valid (bytes_of_string a))"

section \<open>Lemmas\<close>

lemma unat_of_nat_u32: "n < 2 ^ 32 \<Longrightarrow> unat (of_nat n :: u32) = n"
  by (simp add: unat_of_nat)

lemma u32_at_0 [codec_simps]: "u32_at (u32_bytes w @ rest) 0 = w"
  by (rule u32_at_enc) simp

lemma utf8_valid_ascii: "(\<forall>b \<in> set bs. unat b < 128) \<Longrightarrow> utf8_valid bs"
  by (induction bs) auto

lemma encode_nonempty [simp]: "encode r \<noteq> []"
  by (cases r) auto

text \<open>The server reads back an argument the client laid out.\<close>

interpretation arg: slice_codec arg_bytes read_arg id arg_ok
  by unfold_locales (simp add: arg_bytes_def read_arg_def arg_ok_def Let_def unat_of_nat codec_simps)

lemma read_request_frame:
  assumes "\<forall>a \<in> set args. arg_ok a" and "length args \<le> MAX_ARGS"
    and "length (request_payload args) \<le> MAX_MSG_SIZE"
  shows "read_request (write_response (request_payload args) @ rest) = Inr (args, rest)"
proof -
  have len: "unat (of_nat (length (request_payload args)) :: u32) = length (request_payload args)"
    using assms(3) by (intro unat_of_nat_u32) (simp add: MAX_MSG_SIZE_def)
  have n: "unat (of_nat (length args) :: u32) = length args"
    using assms(2) by (intro unat_of_nat_u32) (simp add: MAX_ARGS_def)
  have args: "read_many read_arg (length args) (concat (map arg_bytes args)) = Inr (args, [])"
    using arg.read_many_slice [of args "[]"] assms(1) by simp
  have pl: "drop 4 (request_payload args) = concat (map arg_bytes args)"
    "u32_at (request_payload args) 0 = of_nat (length args)" "4 \<le> length (request_payload args)"
    by (simp_all add: request_payload_def codec_simps)
  show ?thesis
    using assms(2,3) len n args pl
    by (simp add: read_request_def write_response_def Let_def codec_simps)
qed

end
