(* ===== verification/Redis_Client.thy ===== *)
theory Redis_Client
  imports Redis_Proto
begin

section \<open>The Redis client\<close>

text \<open>
  \<^verbatim>\<open>sandbox/src/redis_client.cpp\<close>. The kernel's socket calls are parameters, the record
  \<open>net\<close> over a world \<open>'w\<close>: \<^verbatim>\<open>socket\<close>, \<^verbatim>\<open>connect\<close>, \<^verbatim>\<open>close\<close>, \<^verbatim>\<open>send\<close> and \<^verbatim>\<open>recv\<close> with the
  results the code tests. \<open>stream_socket\<close> is what the manual pages promise of \<^verbatim>\<open>send\<close> and
  \<^verbatim>\<open>recv\<close> on a connected stream socket: a positive result says how many bytes moved, never
  more than asked for. \<open>host\<close> gives the limits of the C++ run time the parser can meet: the
  number of stack frames left for its recursion, and which allocations succeed.
\<close>

record 'w net =
  sys_socket :: "'w \<Rightarrow> int \<times> 'w"
  sys_connect :: "int \<Rightarrow> string \<Rightarrow> u16 \<Rightarrow> 'w \<Rightarrow> int \<times> 'w"
  sys_close :: "int \<Rightarrow> 'w \<Rightarrow> 'w"
  sys_send :: "int \<Rightarrow> u8 list \<Rightarrow> 'w \<Rightarrow> int \<times> 'w"
  sys_recv :: "int \<Rightarrow> nat \<Rightarrow> 'w \<Rightarrow> int \<times> u8 list \<times> 'w"

record host =
  stack_frames :: nat
  alloc_ok :: "nat \<Rightarrow> bool"
  response_size :: nat

subsection \<open>Response values\<close>

datatype response_tag = TNil | TError | TStr | TInt | TDbl | TArr

datatype response =
  Response (tag: response_tag) (err_code: i32) (err_msg: string) (str: string)
    (integer: i64) (dbl: u64) (arr: "response list")

definition is_nil :: "response \<Rightarrow> bool" where "is_nil r = (tag r = TNil)"
definition is_error :: "response \<Rightarrow> bool" where "is_error r = (tag r = TError)"

text \<open>The member initialisers of \<^verbatim>\<open>struct Response\<close>.\<close>

definition blank_response :: "response_tag \<Rightarrow> response" where
  "blank_response t = Response t 0 [] [] 0 0 []"

text \<open>\<^verbatim>\<open>static_cast<ResponseTag>\<close> and the \<^verbatim>\<open>switch\<close>: a byte beyond 5 matches no case.\<close>

definition tag_of_byte :: "u8 \<Rightarrow> response_tag option" where
  "tag_of_byte b =
     (if b = 0 then Some TNil else if b = 1 then Some TError else if b = 2 then Some TStr
      else if b = 3 then Some TInt else if b = 4 then Some TDbl else if b = 5 then Some TArr
      else None)"

subsection \<open>Connection\<close>

record redis_client = fd :: int

definition new_client :: redis_client where
  "new_client = \<lparr>fd = -1\<rparr>"

definition client_close :: "'w net \<Rightarrow> redis_client \<Rightarrow> 'w \<Rightarrow> redis_client \<times> 'w" where
  "client_close n c w =
     (if 0 \<le> fd c then (c\<lparr>fd := -1\<rparr>, sys_close n (fd c) w) else (c, w))"

definition is_connected :: "redis_client \<Rightarrow> bool" where
  "is_connected c = (0 \<le> fd c)"

definition connect ::
  "'w net \<Rightarrow> string \<Rightarrow> u16 \<Rightarrow> redis_client \<Rightarrow> 'w \<Rightarrow> bool \<times> redis_client \<times> 'w" where
  "connect n host port c w =
     (case sys_socket n w of (s, w1) \<Rightarrow>
        let c1 = c\<lparr>fd := s\<rparr> in
        if s < 0 then (False, c1, w1)
        else (case sys_connect n s host port w1 of (rc, w2) \<Rightarrow>
          if rc < 0 then (case client_close n c1 w2 of (c2, w3) \<Rightarrow> (False, c2, w3))
          else (True, c1, w2)))"

text \<open>The loops around \<^verbatim>\<open>::send\<close> and \<^verbatim>\<open>::recv\<close>.\<close>

function write_all :: "'w net \<Rightarrow> int \<Rightarrow> u8 list \<Rightarrow> nat \<Rightarrow> 'w \<Rightarrow> bool \<times> 'w" where
  "write_all n s data sent w =
     (if sent < length data then
        (case sys_send n s (drop sent data) w of (k, w') \<Rightarrow>
           if k \<le> 0 then (False, w') else write_all n s data (sent + nat k) w')
      else (True, w))"
  by pat_completeness auto
termination
  by (relation "measure (\<lambda>(n, s, data, sent, w). length data - sent)") auto

function read_exact :: "'w net \<Rightarrow> int \<Rightarrow> nat \<Rightarrow> u8 list \<Rightarrow> nat \<Rightarrow> 'w \<Rightarrow> u8 list option \<times> 'w" where
  "read_exact n s len buf got w =
     (if got < len then
        (case sys_recv n s (len - got) w of (k, bs, w') \<Rightarrow>
           if k \<le> 0 then (None, w') else read_exact n s len (buf @ bs) (got + nat k) w')
      else (Some buf, w))"
  by pat_completeness auto
termination
  by (relation "measure (\<lambda>(n, s, len, buf, got, w). len - got)") auto

subsection \<open>Requests\<close>

text \<open>\<^verbatim>\<open>payload_size\<close> is a \<^verbatim>\<open>uint32_t\<close>: the additions wrap.\<close>

definition payload_size :: "string list \<Rightarrow> u32" where
  "payload_size args = foldl (\<lambda>sz a. sz + of_nat (4 + length a)) 4 args"

fun write_args :: "string list \<Rightarrow> nat \<Rightarrow> u8 list \<Rightarrow> u8 list res" where
  "write_args [] offset msg = Inr msg"
| "write_args (a # as) offset msg =
     res_bind (memcpy_chk msg offset (u32_bytes (of_nat (length a)))) (\<lambda>msg.
     res_bind (memcpy_chk msg (offset + 4) (bytes_of_string a)) (\<lambda>msg.
     write_args as (offset + 4 + length a) msg))"

definition encode_request :: "string list \<Rightarrow> u8 list res" where
  "encode_request args =
     (let msg_len = payload_size args; msg = replicate (unat (4 + msg_len)) 0 in
      res_bind (memcpy_chk msg 0 (u32_bytes msg_len)) (\<lambda>msg.
      res_bind (memcpy_chk msg 4 (u32_bytes (of_nat (length args)))) (\<lambda>msg.
      write_args args 8 msg)))"

subsection \<open>Responses\<close>

text \<open>
  The free function \<^verbatim>\<open>read_value_from\<close>. Each call takes a stack frame; \<^verbatim>\<open>pos\<close> is the
  reference parameter, returned with the value. Every access to the buffer is a checked read,
  so that the bounds tests of the code are what keeps it from faulting.
\<close>

fun read_value_from ::
  "host \<Rightarrow> nat \<Rightarrow> u8 list \<Rightarrow> nat \<Rightarrow> stop + (response \<times> nat)" where
  "read_value_from h 0 buf pos = Inl (Fault Stack_overflow)"
| "read_value_from h (Suc d) buf pos =
     (if length buf \<le> pos then Inl Nullopt
      else case fetch_byte buf pos of Inl e \<Rightarrow> Inl e | Inr (b, pos) \<Rightarrow>
       (case tag_of_byte b of
          None \<Rightarrow> Inl Nullopt
        | Some TNil \<Rightarrow> Inr (blank_response TNil, pos)
        | Some TError \<Rightarrow>
            if length buf < pos + 8 then Inl Nullopt
            else (case fetch_u32 buf pos of Inl e \<Rightarrow> Inl e | Inr (code, pos) \<Rightarrow>
              (case fetch_u32 buf pos of Inl e \<Rightarrow> Inl e | Inr (msg_len, pos) \<Rightarrow>
                if length buf < pos + unat msg_len then Inl Nullopt
                else (case fetch_bytes buf (unat msg_len) pos of Inl e \<Rightarrow> Inl e | Inr (m, pos) \<Rightarrow>
                  Inr (Response TError code (string_of_bytes m) [] 0 0 [], pos))))
        | Some TStr \<Rightarrow>
            if length buf < pos + 4 then Inl Nullopt
            else (case fetch_u32 buf pos of Inl e \<Rightarrow> Inl e | Inr (slen, pos) \<Rightarrow>
              if length buf < pos + unat slen then Inl Nullopt
              else (case fetch_bytes buf (unat slen) pos of Inl e \<Rightarrow> Inl e | Inr (s, pos) \<Rightarrow>
                Inr (Response TStr 0 [] (string_of_bytes s) 0 0 [], pos)))
        | Some TInt \<Rightarrow>
            if length buf < pos + 8 then Inl Nullopt
            else (case fetch_u64 buf pos of Inl e \<Rightarrow> Inl e | Inr (v, pos) \<Rightarrow>
              Inr (Response TInt 0 [] [] v 0 [], pos))
        | Some TDbl \<Rightarrow>
            if length buf < pos + 8 then Inl Nullopt
            else (case fetch_u64 buf pos of Inl e \<Rightarrow> Inl e | Inr (v, pos) \<Rightarrow>
              Inr (Response TDbl 0 [] [] 0 v [], pos))
        | Some TArr \<Rightarrow>
            if length buf < pos + 4 then Inl Nullopt
            else (case fetch_u32 buf pos of Inl e \<Rightarrow> Inl e | Inr (count, pos) \<Rightarrow>
              if \<not> alloc_ok h (unat count * response_size h) then Inl (Fault Bad_alloc)
              else (case read_many (read_value_from h d buf) (unat count) pos of
                      Inl e \<Rightarrow> Inl e
                    | Inr (es, pos) \<Rightarrow> Inr (Response TArr 0 [] [] 0 0 es, pos)))))"

definition read_framed ::
  "host \<Rightarrow> nat option \<Rightarrow> 'w net \<Rightarrow> redis_client \<Rightarrow> 'w \<Rightarrow> (stop + response) \<times> 'w" where
  "read_framed h limit n c w =
     (case read_exact n (fd c) 4 [] 0 w of
        (None, w1) \<Rightarrow> (Inl Nullopt, w1)
      | (Some hdr, w1) \<Rightarrow>
          let len = unat (u32_at hdr 0) in
          if (case limit of None \<Rightarrow> False | Some m \<Rightarrow> m < len) then (Inl Nullopt, w1)
          else if \<not> alloc_ok h len then (Inl (Fault Bad_alloc), w1)
          else (case read_exact n (fd c) len [] 0 w1 of
             (None, w2) \<Rightarrow> (Inl Nullopt, w2)
           | (Some buf, w2) \<Rightarrow> (map_sum id fst (read_value_from h (stack_frames h) buf 0), w2)))"

text \<open>\<^verbatim>\<open>read_response\<close> refuses frames over 64 MiB; \<^verbatim>\<open>read_value\<close> has no limit.\<close>

definition read_response :: "host \<Rightarrow> 'w net \<Rightarrow> redis_client \<Rightarrow> 'w \<Rightarrow> (stop + response) \<times> 'w" where
  "read_response h n c w = read_framed h (Some (64 * 1024 * 1024)) n c w"

definition read_value :: "host \<Rightarrow> 'w net \<Rightarrow> redis_client \<Rightarrow> 'w \<Rightarrow> (stop + response) \<times> 'w" where
  "read_value h n c w = read_framed h None n c w"

definition send ::
  "host \<Rightarrow> 'w net \<Rightarrow> redis_client \<Rightarrow> string list \<Rightarrow> 'w \<Rightarrow> (stop + response) \<times> 'w" where
  "send h n c args w =
     (case encode_request args of
        Inl f \<Rightarrow> (Inl (Fault f), w)
      | Inr msg \<Rightarrow>
          (case write_all n (fd c) msg 0 w of
             (False, w1) \<Rightarrow> (Inl Nullopt, w1)
           | (True, w1) \<Rightarrow> read_response h n c w1))"

subsection \<open>Commands\<close>

text \<open>
  The argument vectors of the convenience wrappers; each wrapper is \<open>send\<close> of its vector.
  \<open>fmt\<close> is \<^verbatim>\<open>std::format\<close> of a double with the specification of \<^verbatim>\<open>metric_record\<close>.
\<close>

definition cmd_set :: "string \<Rightarrow> string \<Rightarrow> string list" where
  "cmd_set key val = [''set'', key, val]"
definition cmd_get :: "string \<Rightarrow> string list" where
  "cmd_get key = [''get'', key]"
definition cmd_del :: "string \<Rightarrow> string list" where
  "cmd_del key = [''del'', key]"
definition cmd_lpush :: "string \<Rightarrow> string \<Rightarrow> string list" where
  "cmd_lpush key val = [''lpush'', key, val]"
definition cmd_rpop :: "string \<Rightarrow> string list" where
  "cmd_rpop key = [''rpop'', key]"
definition cmd_lrange :: "string \<Rightarrow> i64 \<Rightarrow> i64 \<Rightarrow> string list" where
  "cmd_lrange key start stop = [''lrange'', key, dec_of_int (sint start), dec_of_int (sint stop)]"
definition cmd_llen :: "string \<Rightarrow> string list" where
  "cmd_llen key = [''llen'', key]"
definition cmd_job_next :: "string list" where
  "cmd_job_next = [''job next'']"
definition cmd_job_status :: "string \<Rightarrow> string list" where
  "cmd_job_status i = [''job status'', i]"
definition cmd_job_result :: "string \<Rightarrow> int \<Rightarrow> int \<Rightarrow> string list" where
  "cmd_job_result i exit_code duration_ms =
     [''job result'', i, dec_of_int exit_code, dec_of_int duration_ms]"
definition cmd_job_log :: "string \<Rightarrow> string \<Rightarrow> string list" where
  "cmd_job_log i line = [''job log'', i, line]"
definition cmd_sandbox_register :: "string \<Rightarrow> string \<Rightarrow> string \<Rightarrow> string list" where
  "cmd_sandbox_register i type addr = [''sandbox register'', i, type, addr]"
definition cmd_sandbox_claim :: "string \<Rightarrow> string \<Rightarrow> string list" where
  "cmd_sandbox_claim i job_id = [''sandbox claim'', i, job_id]"
definition cmd_sandbox_release :: "string \<Rightarrow> string list" where
  "cmd_sandbox_release i = [''sandbox release'', i]"
definition cmd_metric_record :: "('d \<Rightarrow> string) \<Rightarrow> string \<Rightarrow> 'd \<Rightarrow> string list" where
  "cmd_metric_record fmt name value = [''metric record'', name, fmt value]"
definition cmd_metric_summary :: "string list" where
  "cmd_metric_summary = [''metric summary'']"

subsection \<open>Specification vocabulary\<close>

text \<open>
  What the kernel promises of a connected stream socket \<open>s\<close>: \<open>out\<close> observes the bytes handed
  to the peer so far and \<open>inp\<close> the bytes of the peer still to be read. \<open>recv_live\<close> adds that
  \<^verbatim>\<open>recv\<close> does not fail while there are bytes to come.
\<close>

definition stream_out :: "'w net \<Rightarrow> int \<Rightarrow> ('w \<Rightarrow> u8 list) \<Rightarrow> bool" where
  "stream_out n s out =
     (\<forall>d w k w'. sys_send n s d w = (k, w') \<longrightarrow>
        k \<le> int (length d) \<and> out w' = out w @ take (nat k) d)"

definition stream_in :: "'w net \<Rightarrow> int \<Rightarrow> ('w \<Rightarrow> u8 list) \<Rightarrow> bool" where
  "stream_in n s inp =
     (\<forall>len w k bs w'. sys_recv n s len w = (k, bs, w') \<longrightarrow>
        k \<le> int len \<and> (0 < k \<longrightarrow> length bs = nat k \<and> inp w = bs @ inp w'))"

definition recv_live :: "'w net \<Rightarrow> int \<Rightarrow> ('w \<Rightarrow> u8 list) \<Rightarrow> bool" where
  "recv_live n s inp =
     (\<forall>len w. 0 < len \<longrightarrow> inp w \<noteq> [] \<longrightarrow> 0 < fst (sys_recv n s len w))"

text \<open>The C++ value a server value arrives as, and the values a host can take in.\<close>

fun client_view :: "sresponse \<Rightarrow> response" where
  "client_view SNil = blank_response TNil"
| "client_view (SErr code msg) = Response TError code msg [] 0 0 []"
| "client_view (SStr s) = Response TStr 0 [] s 0 0 []"
| "client_view (SInt v) = Response TInt 0 [] [] v 0 []"
| "client_view (SDbl v) = Response TDbl 0 [] [] 0 v []"
| "client_view (SArr es) = Response TArr 0 [] [] 0 0 (map client_view es)"

fun fits :: "host \<Rightarrow> nat \<Rightarrow> sresponse \<Rightarrow> bool" where
  "fits h 0 r = False"
| "fits h (Suc d) (SErr code msg) = (length msg < 2 ^ 32)"
| "fits h (Suc d) (SStr s) = (length s < 2 ^ 32)"
| "fits h (Suc d) (SArr es) =
     (length es < 2 ^ 32 \<and> alloc_ok h (length es * response_size h) \<and> (\<forall>e \<in> set es. fits h d e))"
| "fits h (Suc d) _ = True"

section \<open>Lemmas\<close>

declare write_all.simps [simp del] read_exact.simps [simp del]

subsection \<open>The socket loops\<close>

lemma write_all_sends:
  "stream_out n s out \<Longrightarrow>
   \<exists>k. out (snd (write_all n s data sent w)) = out w @ take k (drop sent data) \<and>
       (fst (write_all n s data sent w) \<longrightarrow> length data - sent \<le> k)"
proof (induction n s data sent w rule: write_all.induct)
  case (1 n s data sent w)
  obtain k w' where kw: "sys_send n s (drop sent data) w = (k, w')" by fastforce
  with "1.prems" have k: "nat k \<le> length data - sent"
    and out': "out w' = out w @ take (nat k) (drop sent data)"
    unfolding stream_out_def by (force, blast)
  show ?case
  proof (cases "sent < length data \<and> 0 < k")
    case True
    with "1.IH" kw "1.prems" obtain j where
      "out (snd (write_all n s data (sent + nat k) w')) = out w' @ take j (drop (sent + nat k) data)"
      "fst (write_all n s data (sent + nat k) w') \<longrightarrow> length data - (sent + nat k) \<le> j"
      by auto
    moreover have "take (nat k + j) (drop sent data) =
        take (nat k) (drop sent data) @ take j (drop (sent + nat k) data)"
      using take_add [of "nat k" j "drop sent data"] by (simp add: add.commute)
    ultimately show ?thesis
      using True kw out'
      by (intro exI [of _ "nat k + j"]) (auto simp: write_all.simps [of n s data sent])
  next
    case False
    then show ?thesis
      using kw out' by (auto simp: write_all.simps [of n s data sent] not_less)
  qed
qed

lemma read_exact_takes:
  "stream_in n s inp \<Longrightarrow> recv_live n s inp \<Longrightarrow> got \<le> len \<Longrightarrow> len - got \<le> length (inp w) \<Longrightarrow>
   \<exists>w'. read_exact n s len buf got w = (Some (buf @ take (len - got) (inp w)), w') \<and>
        inp w' = drop (len - got) (inp w)"
proof (induction n s len buf got w rule: read_exact.induct)
  case (1 n s len buf got w)
  show ?case
  proof (cases "got < len")
    case False
    with "1.prems" show ?thesis by (subst read_exact.simps) simp
  next
    case True
    obtain k bs w' where kw: "sys_recv n s (len - got) w = (k, bs, w')"
      by (metis prod_cases3)
    from True "1.prems"(4) have "inp w \<noteq> []" by auto
    with True "1.prems"(2) have "0 < fst (sys_recv n s (len - got) w)"
      unfolding recv_live_def by simp
    with kw have kpos: "0 < k" by simp
    from kw "1.prems"(1) have "k \<le> int (len - got) \<and> (0 < k \<longrightarrow> length bs = nat k \<and> inp w = bs @ inp w')"
      unfolding stream_in_def by blast
    with kpos have k: "nat k \<le> len - got" "length bs = nat k" "inp w = bs @ inp w'"
      by auto
    have "\<exists>w''. read_exact n s len (buf @ bs) (got + nat k) w' =
        (Some ((buf @ bs) @ take (len - (got + nat k)) (inp w')), w'') \<and>
        inp w'' = drop (len - (got + nat k)) (inp w')"
      using "1.IH" [OF True kw [symmetric] refl] kpos k "1.prems" by auto
    moreover have "take (len - got) (inp w) = bs @ take (len - (got + nat k)) (inp w')"
      "drop (len - got) (inp w) = drop (len - (got + nat k)) (inp w')"
      using k by simp_all
    ultimately show ?thesis
      using True kpos kw by (simp add: read_exact.simps [of n s len buf got])
  qed
qed

subsection \<open>Requests\<close>

lemma unat_payload_size:
  "4 + sum_list (map (\<lambda>a. 4 + length a) args) < 2 ^ 32 \<Longrightarrow>
   unat (payload_size args) = 4 + sum_list (map (\<lambda>a. 4 + length a) args)"
proof -
  have "foldl (\<lambda>sz a. sz + of_nat (4 + length a)) (of_nat k :: u32) args =
      of_nat (k + sum_list (map (\<lambda>a. 4 + length a) args))" for k
    by (induction args arbitrary: k) (simp_all add: add.assoc flip: of_nat_add)
  from this [of 4] have "payload_size args = of_nat (4 + sum_list (map (\<lambda>a. 4 + length a) args))"
    by (simp add: payload_size_def)
  then show "4 + sum_list (map (\<lambda>a. 4 + length a) args) < 2 ^ 32 \<Longrightarrow> ?thesis"
    by (simp add: unat_of_nat_u32 del: of_nat_add)
qed

lemma length_arg_bytes [simp]: "length (arg_bytes a) = 4 + length a"
  by (simp add: arg_bytes_def)

lemma length_request_payload:
  "length (request_payload args) = 4 + sum_list (map (\<lambda>a. 4 + length a) args)"
  by (simp add: request_payload_def length_concat comp_def)

lemma write_args_layout:
  "write_args args (length pre) (pre @ replicate (length (concat (map arg_bytes args))) 0) =
     Inr (pre @ concat (map arg_bytes args))"
proof (induction args arbitrary: pre)
  case Nil
  then show ?case by simp
next
  case (Cons a as)
  let ?k = "length (concat (map arg_bytes as))"
  have z: "replicate (length (concat (map arg_bytes (a # as)))) (0::u8) =
      replicate 4 0 @ replicate (length a) 0 @ replicate ?k 0"
    by (simp add: replicate_add [symmetric] add.assoc)
  have 1: "memcpy_chk (pre @ replicate (length (concat (map arg_bytes (a # as)))) 0) (length pre)
        (u32_bytes (of_nat (length a))) =
      Inr (pre @ u32_bytes (of_nat (length a)) @ replicate (length a) 0 @ replicate ?k 0)"
    unfolding z by (simp add: memcpy_chk_def codec_simps)
  have 2: "memcpy_chk (pre @ u32_bytes (of_nat (length a)) @ replicate (length a) 0 @ replicate ?k 0)
        (length pre + 4) (bytes_of_string a) = Inr ((pre @ arg_bytes a) @ replicate ?k 0)"
    using memcpy_at_append [of "length pre + 4" "pre @ u32_bytes (of_nat (length a))"
        "bytes_of_string a" "replicate (length a) 0" "replicate ?k 0"]
    by (simp add: memcpy_chk_def arg_bytes_def)
  have 3: "length pre + 4 + length a = length (pre @ arg_bytes a)" by simp
  show ?case
    using Cons.IH [of "pre @ arg_bytes a"] by (simp only: write_args.simps 1 2 3 res_bind.simps) simp
qed

text \<open>The buffer the client fills is the frame the protocol prescribes.\<close>

lemma encode_request_layout:
  assumes "length (request_payload args) + 4 < 2 ^ 32"
  shows "encode_request args = Inr (write_response (request_payload args))"
proof -
  let ?body = "concat (map arg_bytes args)"
  have ps: "unat (payload_size args) = length (request_payload args)"
    using assms by (simp add: length_request_payload unat_payload_size)
  then have ps': "payload_size args = of_nat (length (request_payload args))"
    by (simp flip: ps)
  have "unat (4 + payload_size args) = 4 + length (request_payload args)"
    using assms ps by (simp add: unat_word_ariths)
  then have z: "replicate (unat (4 + payload_size args)) (0::u8) =
      replicate 4 0 @ replicate 4 0 @ replicate (length ?body) 0"
    by (simp add: request_payload_def replicate_add [symmetric])
  have 1: "memcpy_chk (replicate (unat (4 + payload_size args)) 0) 0 (u32_bytes (payload_size args)) =
      Inr (u32_bytes (payload_size args) @ replicate 4 0 @ replicate (length ?body) 0)"
    unfolding z by (simp add: memcpy_chk_def memcpy_at_def)
  have 2: "memcpy_chk (u32_bytes (payload_size args) @ replicate 4 0 @ replicate (length ?body) 0) 4
        (u32_bytes (of_nat (length args))) =
      Inr ((u32_bytes (payload_size args) @ u32_bytes (of_nat (length args))) @
           replicate (length ?body) 0)"
    by (simp add: memcpy_chk_def codec_simps)
  have "write_args args 8 ((u32_bytes (payload_size args) @ u32_bytes (of_nat (length args))) @
      replicate (length ?body) 0) =
    Inr ((u32_bytes (payload_size args) @ u32_bytes (of_nat (length args))) @ ?body)"
    using write_args_layout [of args "u32_bytes (payload_size args) @ u32_bytes (of_nat (length args))"]
    by simp
  then have "encode_request args =
      Inr ((u32_bytes (payload_size args) @ u32_bytes (of_nat (length args))) @ ?body)"
    by (simp only: encode_request_def Let_def 1 2 res_bind.simps)
  then show ?thesis
    by (simp only: ps' write_response_def request_payload_def append_assoc)
qed

subsection \<open>The response parser\<close>

lemma read_many_error_inv:
  assumes "read_many d n s = Inl e" and "I s" and "\<And>s x s'. I s \<Longrightarrow> d s = Inr (x, s') \<Longrightarrow> I s'"
  shows "\<exists>s'. I s' \<and> d s' = Inl e"
  using assms(1,2)
  by (induction n arbitrary: s) (auto split: sum.splits prod.splits dest: assms(3))

lemma read_many_cursor_mono:
  assumes "read_many d n p = Inr (xs, p')" and "\<And>p x p'. d p = Inr (x, p') \<Longrightarrow> p < p' \<and> p' \<le> L"
    and "p \<le> L"
  shows "p \<le> p' \<and> p' \<le> (L::nat)"
  using assms(1,3)
proof (induction n arbitrary: p xs)
  case 0
  then show ?case by simp
next
  case (Suc n)
  then obtain x p1 xs1 where "d p = Inr (x, p1)" "read_many d n p1 = Inr (xs1, p')"
    by (auto split: sum.splits prod.splits)
  with Suc.IH assms(2) [of p x p1] show ?case by fastforce
qed

text \<open>Every value takes at least one byte and ends inside the buffer.\<close>

lemma read_value_from_advances:
  "read_value_from h d buf pos = Inr (r, pos') \<Longrightarrow> pos < pos' \<and> pos' \<le> length buf"
proof (induction d arbitrary: pos r pos')
  case 0
  then show ?case by simp
next
  case (Suc d)
  have "read_many (read_value_from h d buf) k p = Inr (xs, p') \<Longrightarrow> p \<le> length buf \<Longrightarrow>
      p \<le> p' \<and> p' \<le> length buf" for k p xs p'
    by (rule read_many_cursor_mono) (auto dest: Suc.IH)
  with Suc.prems show ?case
    by (fastforce simp: fetch_defs split: if_splits option.splits response_tag.splits sum.splits)
qed

text \<open>The tests before each access keep the parser inside the buffer, on every input.\<close>

lemma read_value_from_in_bounds:
  "read_value_from h d buf pos \<noteq> Inl (Fault Out_of_bounds)"
proof (induction d arbitrary: pos)
  case 0
  then show ?case by simp
next
  case (Suc d)
  have "read_many (read_value_from h d buf) k p \<noteq> Inl (Fault Out_of_bounds)" for k p
    using read_many_error Suc.IH by metis
  then show ?case
    by (auto simp: fetch_defs split: if_splits option.splits response_tag.splits sum.splits)
qed

text \<open>A frame for each byte left, and one more, is always enough stack.\<close>

lemma read_value_from_stack:
  "length buf < pos + d \<Longrightarrow> 0 < d \<Longrightarrow> read_value_from h d buf pos \<noteq> Inl (Fault Stack_overflow)"
proof (induction d arbitrary: pos)
  case 0
  then show ?case by simp
next
  case (Suc d)
  have "read_many (read_value_from h d buf) k p \<noteq> Inl (Fault Stack_overflow)" if "pos < p" "pos < length buf" for k p
  proof
    assume "read_many (read_value_from h d buf) k p = Inl (Fault Stack_overflow)"
    from read_many_error_inv [OF this, of "\<lambda>p. pos < p"] that
    obtain p' where "pos < p'" "read_value_from h d buf p' = Inl (Fault Stack_overflow)"
      using read_value_from_advances by (metis less_trans)
    with Suc that show False by auto
  qed
  then show ?case
    by (auto simp: fetch_defs split: if_splits option.splits response_tag.splits sum.splits)
qed

lemma fetch_byte_enc: "drop pos buf = b # rest \<Longrightarrow> fetch_byte buf pos = Inr (b, pos + 1)"
  by (metis Suc_eq_plus1 drop_eq_Nil fetch_byte_def leI list.discI nth_via_drop)

text \<open>The only ways to stop.\<close>

lemma read_value_from_stops:
  "read_value_from h d buf pos = Inl e \<Longrightarrow>
   e = Nullopt \<or> e = Fault Stack_overflow \<or> (e = Fault Bad_alloc \<and> (\<exists>k. \<not> alloc_ok h k))"
proof (induction d arbitrary: pos)
  case 0
  then show ?case by simp
next
  case (Suc d)
  have "read_many (read_value_from h d buf) k p = Inl e \<Longrightarrow> ?case" for k p
    using read_many_error Suc.IH by metis
  with Suc.prems show ?case
    by (auto simp: fetch_defs split: if_splits option.splits response_tag.splits sum.splits)
qed

lemma u32_bytes_one: "u32_bytes 1 = [1, 0, 0, 0]"
  by (simp add: u32_bytes_def le_bytes_4)

text \<open>One-element arrays nested deeper than the stack.\<close>

lemma nested_overflow:
  assumes "alloc_ok h (response_size h)"
  shows "drop pos buf = concat (replicate d [5, 1, 0, 0, 0]) \<Longrightarrow>
         read_value_from h d buf pos = Inl (Fault Stack_overflow)"
proof (induction d arbitrary: pos)
  case 0
  then show ?case by simp
next
  case (Suc d)
  then have dr: "drop pos buf = 5 # u32_bytes 1 @ concat (replicate d [5, 1, 0, 0, 0])"
    by (simp add: u32_bytes_one)
  then have pos: "pos < length buf" and fb: "fetch_byte buf pos = Inr (5, Suc pos)"
    and dr1: "drop (Suc pos) buf = u32_bytes 1 @ concat (replicate d [5, 1, 0, 0, 0])"
    using fetch_byte_enc [OF dr] by (auto simp: drop_Suc tl_drop [symmetric] not_le [symmetric])
  have "read_value_from h d buf (Suc pos + 4) = Inl (Fault Stack_overflow)"
    using drop_after [OF dr1] by (intro Suc.IH) simp
  then have "read_many (read_value_from h d buf) 1 (Suc pos + 4) = Inl (Fault Stack_overflow)"
    by simp
  then show ?case
    using pos fb u32_at_enc [OF dr1] drop_bound [OF dr1] assms
    by (simp add: fetch_u32_def tag_of_byte_def)
qed

text \<open>What the server encodes, the client reads back, at every nesting depth.\<close>

lemma tag_of_byte_simps [simp]:
  "tag_of_byte SER_NIL = Some TNil" "tag_of_byte SER_ERR = Some TError"
  "tag_of_byte SER_STR = Some TStr" "tag_of_byte SER_INT = Some TInt"
  "tag_of_byte SER_DBL = Some TDbl" "tag_of_byte SER_ARR = Some TArr"
  by (simp_all add: tag_of_byte_def SER_NIL_def SER_ERR_def SER_STR_def SER_INT_def SER_DBL_def SER_ARR_def)

lemma prefixed_string:
  assumes "drop pos buf = u32_bytes (of_nat (length s)) @ bytes_of_string s @ rest"
    and "length s < 2 ^ 32"
  shows "pos + 4 + length s \<le> length buf" "u32_at buf pos = of_nat (length s)"
    "unat (of_nat (length s) :: u32) = length s" "slice buf (pos + 4) (length s) = bytes_of_string s"
proof -
  show "u32_at buf pos = of_nat (length s)" using assms(1) by (rule u32_at_enc)
  show "unat (of_nat (length s) :: u32) = length s" using assms(2) by (rule unat_of_nat_u32)
  show "slice buf (pos + 4) (length s) = bytes_of_string s"
    using slice_enc [OF drop_after [OF assms(1)]] by simp
  have "drop pos buf = (u32_bytes (of_nat (length s)) @ bytes_of_string s) @ rest"
    using assms(1) by simp
  from drop_bound [OF this] show "pos + 4 + length s \<le> length buf" by simp
qed

lemma encode_tag:
  assumes "drop pos buf = b # bs @ rest"
  shows "pos < length buf" "fetch_byte buf pos = Inr (b, pos + 1)" "drop (pos + 1) buf = bs @ rest"
  using assms fetch_byte_enc [OF assms]
  by (auto simp: drop_Suc tl_drop [symmetric] not_le [symmetric])

lemma read_scalar:
  assumes "drop pos buf = encode x @ rest" "fits h (Suc d) x"
    and "\<And>es. x \<noteq> SArr es"
  shows "read_value_from h (Suc d) buf pos = Inr (client_view x, pos + length (encode x))"
proof (cases x)
  case SNil
  with assms(1) show ?thesis using encode_tag [of pos buf SER_NIL "[]" rest] by simp
next
  case (SErr code msg)
  with assms(1) have d1: "drop pos buf =
      SER_ERR # (u32_bytes code @ u32_bytes (of_nat (length msg)) @ bytes_of_string msg) @ rest"
    by simp
  then have d2: "drop (pos + 1) buf =
      u32_bytes code @ u32_bytes (of_nat (length msg)) @ bytes_of_string msg @ rest"
    using encode_tag(3) by fastforce
  from SErr assms(2) drop_after [OF d2] have d3: "drop (pos + 1 + 4) buf =
      u32_bytes (of_nat (length msg)) @ bytes_of_string msg @ rest" "length msg < 2 ^ 32"
    by simp_all
  from SErr encode_tag [OF d1] u32_at_enc [OF d2] prefixed_string [OF d3] show ?thesis
    by (simp add: fetch_defs)
next
  case (SStr s)
  with assms(1) have d1: "drop pos buf =
      SER_STR # (u32_bytes (of_nat (length s)) @ bytes_of_string s) @ rest" by simp
  then have d2: "drop (pos + 1) buf = u32_bytes (of_nat (length s)) @ bytes_of_string s @ rest"
    "length s < 2 ^ 32" using encode_tag(3) SStr assms(2) by fastforce+
  from SStr encode_tag [OF d1] prefixed_string [OF d2] show ?thesis by (simp add: fetch_defs)
next
  case (SInt v)
  with assms(1) have d1: "drop pos buf = SER_INT # u64_bytes v @ rest" by simp
  note d2 = encode_tag(3) [OF d1]
  from SInt encode_tag [OF d1] drop_bound [OF d2] u64_at_enc [OF d2] show ?thesis
    by (simp add: fetch_u64_def)
next
  case (SDbl v)
  with assms(1) have d1: "drop pos buf = SER_DBL # u64_bytes v @ rest" by simp
  note d2 = encode_tag(3) [OF d1]
  from SDbl encode_tag [OF d1] drop_bound [OF d2] u64_at_enc [OF d2] show ?thesis
    by (simp add: fetch_u64_def)
qed (use assms(3) in simp)

lemma read_array:
  assumes "cursor_codec encode (read_value_from h d) client_view (fits h d)"
    and "drop pos buf = encode (SArr es) @ rest" "fits h (Suc d) (SArr es)"
  shows "read_value_from h (Suc d) buf pos = Inr (client_view (SArr es), pos + length (encode (SArr es)))"
proof -
  from assms(2) have d1: "drop pos buf =
      SER_ARR # (u32_bytes (of_nat (length es)) @ concat (map encode es)) @ rest" by simp
  then have d2: "drop (pos + 1) buf =
      u32_bytes (of_nat (length es)) @ concat (map encode es) @ rest"
    using encode_tag(3) by fastforce
  have "read_many (read_value_from h d buf) (length es) (pos + 1 + 4) =
      Inr (map client_view es, pos + 1 + 4 + length (concat (map encode es)))"
    using cursor_codec.read_many_cursor [OF assms(1)] drop_after [OF d2] assms(3) by simp
  moreover have "unat (of_nat (length es) :: u32) = length es"
    using assms(3) by (intro unat_of_nat_u32) simp
  ultimately show ?thesis
    using encode_tag [OF d1] assms(3) u32_at_enc [OF d2] drop_bound [OF d2]
    by (simp add: fetch_defs add.commute add.left_commute)
qed

lemma cursor_codec_response:
  "cursor_codec encode (read_value_from h d) client_view (fits h d)"
proof (induction d)
  case 0
  then show ?case by unfold_locales simp
next
  case (Suc d)
  show ?case
    using read_scalar read_array [OF Suc.IH] by unfold_locales metis
qed

interpretation rv: cursor_codec encode "read_value_from h d" client_view "fits h d" for h d
  by (rule cursor_codec_response)

lemma read_response_frame:
  assumes "stream_in n (fd c) inp" "recv_live n (fd c) inp"
    and "inp w = write_response (encode r) @ rest"
    and "fits h (stack_frames h) r" "alloc_ok h (length (encode r))"
    and "length (encode r) \<le> 64 * 1024 * 1024"
  shows "\<exists>w'. read_response h n c w = (Inr (client_view r), w') \<and> inp w' = rest"
proof -
  let ?len = "length (encode r)"
  obtain w1 where w1: "read_exact n (fd c) 4 [] 0 w = (Some (u32_bytes (of_nat ?len)), w1)"
      "inp w1 = encode r @ rest"
    using read_exact_takes [OF assms(1,2), of 0 4 w "[]"] assms(3)
    by (auto simp: write_response_def)
  obtain w2 where w2: "read_exact n (fd c) ?len [] 0 w1 = (Some (encode r), w2)" "inp w2 = rest"
    using read_exact_takes [OF assms(1,2), of 0 ?len w1 "[]"] w1(2) by auto
  have len: "unat (of_nat ?len :: u32) = ?len"
    using assms(6) by (intro unat_of_nat_u32) simp
  have "read_value_from h (stack_frames h) (encode r) 0 = Inr (client_view r, ?len)"
    using rv.rd_enc [OF assms(4), of 0 "encode r" "[]"] by simp
  then show ?thesis
    using w1 w2 len assms(5,6) u32_at_0 [of "of_nat ?len" "[]"]
    by (simp add: read_response_def read_framed_def)
qed

text \<open>A kernel that moves at most three bytes out and two bytes in per call.\<close>

definition trickle_net :: "(u8 list \<times> u8 list) net" where
  "trickle_net =
     \<lparr>sys_socket = (\<lambda>w. (3, w)), sys_connect = (\<lambda>_ _ _ w. (0, w)), sys_close = (\<lambda>_ w. w),
      sys_send = (\<lambda>_ d (ob, ib). (int (min 3 (length d)), (ob @ take 3 d, ib))),
      sys_recv = (\<lambda>_ len (ob, ib). (int (min (min 2 len) (length ib)), take (min 2 len) ib,
                    (ob, drop (min 2 len) ib)))\<rparr>"

definition small_host :: host where
  "small_host = \<lparr>stack_frames = 3, alloc_ok = (\<lambda>k. k \<le> 1000000), response_size = 112\<rparr>"

lemma trickle_stream_out: "stream_out trickle_net s fst"
  by (auto simp: stream_out_def trickle_net_def min_def)

lemma trickle_stream_in: "stream_in trickle_net s snd"
  by (auto simp: stream_in_def trickle_net_def min_def)

lemma trickle_recv_live: "recv_live trickle_net s snd"
  by (auto simp: recv_live_def trickle_net_def)

lemma trickle_write_all: "write_all trickle_net s data k (ob, ib) = (True, (ob @ drop k data, ib))"
proof (induction "length data - k" arbitrary: k ob rule: less_induct)
  case less
  show ?case
  proof (cases "k < length data")
    case True
    let ?j = "min 3 (length data - k)"
    have "write_all trickle_net s data (k + ?j) (ob @ take 3 (drop k data), ib) =
        (True, ((ob @ take 3 (drop k data)) @ drop (k + ?j) data, ib))"
      using True by (intro less) auto
    moreover have "take 3 (drop k data) @ drop (k + ?j) data = drop k data"
      by (metis append_take_drop_id drop_drop add.commute length_drop min.commute take_take
          drop_all linear min.absorb1 min_def take_all)
    ultimately show ?thesis
      using True by (subst write_all.simps) (simp add: trickle_net_def)
  next
    case False
    then show ?thesis by (subst write_all.simps) simp
  qed
qed

section \<open>Properties\<close>

text \<open>
  C5. A call over a stream socket, whatever the chunks the kernel moves: if the request was
  written, the bytes the server received are one well-formed request that it parses to exactly
  the arguments of the call, and when the server answers \<open>r\<close> the caller gets \<open>r\<close>, with the
  bytes behind the answer left on the socket for the next call.
\<close>

theorem send_end_to_end:
  assumes "stream_out n (fd c) out" "stream_in n (fd c) inp" "recv_live n (fd c) inp"
    and "\<forall>a \<in> set args. arg_ok a" "length args \<le> MAX_ARGS"
    and "length (request_payload args) \<le> MAX_MSG_SIZE"
    and "write_all n (fd c) (write_response (request_payload args)) 0 w = (True, w1)"
    and "inp w1 = write_response (encode r) @ rest"
    and "fits h (stack_frames h) r" "alloc_ok h (length (encode r))"
    and "length (encode r) \<le> 64 * 1024 * 1024"
  shows "(\<exists>req. out w1 = out w @ req \<and> read_request req = Inr (args, [])) \<and>
         (\<exists>w2. send h n c args w = (Inr (client_view r), w2) \<and> inp w2 = rest)"
proof
  let ?req = "write_response (request_payload args)"
  have "out w1 = out w @ ?req"
    using write_all_sends [OF assms(1), of ?req 0 w] assms(7) by auto
  moreover have "read_request ?req = Inr (args, [])"
    using read_request_frame [OF assms(4-6), of "[]"] by simp
  ultimately show "\<exists>req. out w1 = out w @ req \<and> read_request req = Inr (args, [])" by blast
  have "encode_request args = Inr ?req"
    using assms(6) by (intro encode_request_layout) (simp add: MAX_MSG_SIZE_def)
  then show "\<exists>w2. send h n c args w = (Inr (client_view r), w2) \<and> inp w2 = rest"
    using read_response_frame [OF assms(2,3,8-11)] assms(7) by (simp add: send_def)
qed

theorem send_end_to_end_witness:
  "\<exists>w2. send small_host trickle_net \<lparr>fd = 3\<rparr> cmd_job_next
      ([], write_response (encode (SArr [SStr ''j1'', SNil])) @ [9]) =
    (Inr (client_view (SArr [SStr ''j1'', SNil])), w2) \<and> snd w2 = [9]"
proof -
  have ok: "\<forall>a \<in> set cmd_job_next. arg_ok a"
    by (auto simp: cmd_job_next_def arg_ok_def bytes_of_string_def byte_of_char_def intro!: utf8_valid_ascii)
  have fit: "fits small_host (stack_frames small_host) (SArr [SStr ''j1'', SNil])"
    by (simp add: small_host_def numeral_3_eq_3)
  show ?thesis
    using fit send_end_to_end [OF trickle_stream_out trickle_stream_in trickle_recv_live ok _ _ trickle_write_all,
        where c = "\<lparr>fd = 3\<rparr>" and h = small_host and r = "SArr [SStr ''j1'', SNil]" and rest = "[9]"]
    by (simp add: cmd_job_next_def MAX_ARGS_def MAX_MSG_SIZE_def length_request_payload
        small_host_def [THEN arg_cong, of alloc_ok])
qed

text \<open>
  Any value the server can encode (strings and arrays below $2^{32}$, nesting within the
  stack, allocations that succeed) is read back by the C++ parser from any place of a buffer,
  and the cursor ends right behind its encoding.
\<close>

theorem response_roundtrip:
  assumes "fits h d r"
  shows "read_value_from h d (pre @ encode r @ post) (length pre) =
           Inr (client_view r, length pre + length (encode r))"
  by (rule rv.rd_enc [OF assms]) simp

theorem response_roundtrip_witness:
  "read_value_from small_host 3 ([7] @ encode (SArr [SErr 4 ''bad'', SInt (-1)]) @ [8]) (length [7 :: u8]) =
     Inr (client_view (SArr [SErr 4 ''bad'', SInt (-1)]),
          length [7 :: u8] + length (encode (SArr [SErr 4 ''bad'', SInt (-1)])))"
  by (rule response_roundtrip) (simp add: small_host_def numeral_3_eq_3)

text \<open>
  C14. Memory safety of the parser: on no input, at no position and with no amount of stack
  does \<^verbatim>\<open>read_value_from\<close> read outside its buffer.
\<close>

theorem parser_never_out_of_bounds:
  "read_value_from h d buf pos \<noteq> Inl (Fault Out_of_bounds)"
  by (rule read_value_from_in_bounds)

text \<open>
  C40. The parser is total on hosts that can serve it: with one frame per byte of the message
  and an allocator that serves its reservations it returns, either \<^verbatim>\<open>nullopt\<close> or a value
  that took at least one byte and ended inside the buffer.
\<close>

theorem parser_total:
  assumes "length buf < d" and "\<forall>k. alloc_ok h k"
  shows "read_value_from h d buf 0 = Inl Nullopt \<or>
         (\<exists>r p. read_value_from h d buf 0 = Inr (r, p) \<and> 0 < p \<and> p \<le> length buf)"
proof (cases "read_value_from h d buf 0")
  case (Inl e)
  then show ?thesis
    using read_value_from_stops [of h d buf 0 e] read_value_from_stack [of buf 0 d h] assms by auto
next
  case (Inr rp)
  then show ?thesis using read_value_from_advances [of h d buf 0] by (cases rp) auto
qed

theorem parser_total_witness:
  "read_value_from \<lparr>stack_frames = 6, alloc_ok = (\<lambda>_. True), response_size = 112\<rparr> 6
       [5, 255, 255, 255, 255] 0 = Inl Nullopt \<or>
   (\<exists>r p. read_value_from \<lparr>stack_frames = 6, alloc_ok = (\<lambda>_. True), response_size = 112\<rparr> 6
       [5, 255, 255, 255, 255] 0 = Inr (r, p) \<and> 0 < p \<and> p \<le> length [5, 255, 255, 255, 255 :: u8])"
  by (rule parser_total) simp_all

text \<open>
  The count of an array is trusted before its elements are seen: the five bytes of an
  empty-looking array with count $2^{32}-1$ make \<^verbatim>\<open>arr.reserve(count)\<close> throw on every host that
  cannot allocate that many \<^verbatim>\<open>Response\<close> objects.
\<close>

theorem hostile_count_throws:
  assumes "\<not> alloc_ok h ((2 ^ 32 - 1) * response_size h)" and "0 < d"
  shows "read_value_from h d [5, 255, 255, 255, 255] 0 = Inl (Fault Bad_alloc)"
proof -
  obtain d' where d: "d = Suc d'" using assms(2) by (cases d) auto
  have "u32_at [5, 255, 255, 255, 255] 1 = 4294967295"
    by (simp add: u32_at_def)
  then show ?thesis using assms(1) by (simp add: d fetch_defs tag_of_byte_def)
qed

theorem hostile_count_throws_witness:
  "read_value_from small_host 3 [5, 255, 255, 255, 255] 0 = Inl (Fault Bad_alloc)"
  by (rule hostile_count_throws) (simp_all add: small_host_def)

text \<open>
  Nesting is bounded by nothing but the stack: a message of \<open>5 d\<close> bytes, \<open>d\<close> arrays of one
  element inside each other, exhausts a stack of \<open>d\<close> frames. The 64 MiB limit on a frame allows
  over thirteen million of them.
\<close>

theorem deep_nesting_exhausts_stack:
  assumes "alloc_ok h (response_size h)"
  shows "read_value_from h d (concat (replicate d [5, 1, 0, 0, 0])) 0 = Inl (Fault Stack_overflow)"
  using nested_overflow [OF assms, of 0 "concat (replicate d [5, 1, 0, 0, 0])" d] by simp

theorem deep_nesting_exhausts_stack_witness:
  "read_value_from small_host 1000 (concat (replicate 1000 [5, 1, 0, 0, 0])) 0 =
     Inl (Fault Stack_overflow)"
  by (rule deep_nesting_exhausts_stack) (simp add: small_host_def)

text \<open>
  The size arithmetic of \<^verbatim>\<open>send\<close> is 32-bit: an argument of $2^{32}-8$ bytes makes the message
  size wrap to 4, and the copies into the message buffer run past its end.
\<close>

theorem request_size_wraps:
  assumes "length a = 2 ^ 32 - 8"
  shows "payload_size [a] = 0 \<and> encode_request [a] = Inl Out_of_bounds"
proof -
  have "(of_nat (length a) :: u32) = - 8" by (simp add: assms)
  then have ps: "payload_size [a] = 0" by (simp add: payload_size_def)
  have "memcpy_chk (replicate 4 0) 0 (u32_bytes 0) = Inr (u32_bytes 0)"
    by (simp add: memcpy_chk_def memcpy_at_def)
  then show ?thesis by (simp add: ps encode_request_def memcpy_chk_def)
qed

theorem request_size_wraps_witness:
  "payload_size [replicate (2 ^ 32 - 8) CHR ''x''] = 0 \<and>
   encode_request [replicate (2 ^ 32 - 8) CHR ''x''] = Inl Out_of_bounds"
  by (rule request_size_wraps) (rule length_replicate)

end
