(* ===== verification/Containers.thy ===== *)
theory Containers
  imports Prelude "HOL-Library.AList"
begin

section \<open>Containers and the contracts they offer\<close>

text \<open>
  \<^verbatim>\<open>std::unordered_map<std::string, V>\<close> is an association list with distinct keys: the
  list order stands for the unspecified iteration order, and every property of the
  development that depends on iteration holds for any such order. \<^verbatim>\<open>std::map\<close> is an
  association list with strictly increasing keys.

  Four contracts are stated as locales because several components offer them:
  \<open>registry\<close> (keyed insertion, removal and lookup), \<open>bounded_log\<close> (an append-only log that
  forgets its oldest entries), \<open>recent_view\<close> (the last entries of such a log) and \<open>fifo\<close> (a queue).
\<close>

type_synonym 'v umap = "(string \<times> 'v) list"

definition umap_inv :: "('k \<times> 'v) list \<Rightarrow> bool" where
  "umap_inv m = distinct (map fst m)"

fun omap_set :: "'k::linorder \<Rightarrow> 'v \<Rightarrow> ('k \<times> 'v) list \<Rightarrow> ('k \<times> 'v) list" where
  "omap_set k v [] = [(k, v)]"
| "omap_set k v ((k', v') # m) =
     (if k < k' then (k, v) # (k', v') # m
      else if k = k' then (k, v) # m
      else (k', v') # omap_set k v m)"

definition omap_inv :: "('k::linorder \<times> 'v) list \<Rightarrow> bool" where
  "omap_inv m = sorted_wrt (<) (map fst m)"

section \<open>Contracts\<close>

locale registry =
  fixes find :: "'s \<Rightarrow> 'k \<Rightarrow> 'v option"
    and ins :: "'k \<Rightarrow> 'v \<Rightarrow> 's \<Rightarrow> 's"
    and del :: "'k \<Rightarrow> 's \<Rightarrow> 's"
    and inv :: "'s \<Rightarrow> bool"
  assumes find_ins: "inv s \<Longrightarrow> find (ins k v s) k' = (if k' = k then Some v else find s k')"
    and find_del: "inv s \<Longrightarrow> find (del k s) k' = (if k' = k then None else find s k')"
    and inv_ins: "inv s \<Longrightarrow> inv (ins k v s)"
    and inv_del: "inv s \<Longrightarrow> inv (del k s)"
begin

lemma find_del_ins: "inv s \<Longrightarrow> find (del k (ins k v s)) = find (del k s)"
  by (rule ext) (simp add: find_ins find_del inv_ins)

lemma find_ins_commute:
  "inv s \<Longrightarrow> k \<noteq> k' \<Longrightarrow> find (ins k v (ins k' v' s)) = find (ins k' v' (ins k v s))"
  by (rule ext) (simp add: find_ins inv_ins)

text \<open>A batch of insertions: the last binding of a key wins, other keys are kept.\<close>

lemma find_fold_ins:
  "inv s \<Longrightarrow>
   find (fold (\<lambda>(k, v). ins k v) kvs s) k =
     (case map_of (rev kvs) k of Some v \<Rightarrow> Some v | None \<Rightarrow> find s k)"
proof (induction kvs arbitrary: s)
  case Nil
  then show ?case by simp
next
  case (Cons kv kvs)
  obtain k0 v0 where kv: "kv = (k0, v0)" by fastforce
  from Cons.prems have "inv (ins k0 v0 s)" by (rule inv_ins)
  from Cons.IH [OF this] Cons.prems show ?case
    by (auto simp: kv find_ins map_add_def split: option.splits)
qed

lemma inv_fold_ins: "inv s \<Longrightarrow> inv (fold (\<lambda>(k, v). ins k v) kvs s)"
  by (induction kvs arbitrary: s) (auto simp: inv_ins)

end

locale bounded_log =
  fixes push :: "'e \<Rightarrow> 's \<Rightarrow> 's"
    and contents :: "'s \<Rightarrow> 'e list"
    and cap :: "'s \<Rightarrow> nat"
    and inv :: "'s \<Rightarrow> bool"
  assumes contents_push: "inv s \<Longrightarrow> contents (push e s) = last_n (cap s) (contents s @ [e])"
    and cap_push: "inv s \<Longrightarrow> cap (push e s) = cap s"
    and inv_push: "inv s \<Longrightarrow> inv (push e s)"
begin

text \<open>After any run of pushes the log holds exactly the last \<open>cap\<close> entries ever pushed.\<close>

lemma fold_push:
  "inv s \<Longrightarrow> es \<noteq> [] \<Longrightarrow>
   contents (fold push es s) = last_n (cap s) (contents s @ es) \<and>
   cap (fold push es s) = cap s \<and> inv (fold push es s)"
proof (induction es arbitrary: s)
  case Nil
  then show ?case by simp
next
  case (Cons e es)
  show ?case
  proof (cases "es = []")
    case True
    with Cons.prems show ?thesis by (simp add: contents_push cap_push inv_push)
  next
    case False
    with Cons.IH [OF inv_push [OF Cons.prems(1)] False] Cons.prems show ?thesis
      by (simp add: contents_push cap_push)
  qed
qed

lemma push_bound: "inv s \<Longrightarrow> length (contents (push e s)) \<le> cap s"
  by (simp add: contents_push)

lemma push_keeps_newest: "inv s \<Longrightarrow> 0 < cap s \<Longrightarrow> last (contents (push e s)) = e"
  by (simp add: contents_push last_n_append)

lemma fold_push_suffix:
  "inv s \<Longrightarrow> es \<noteq> [] \<Longrightarrow> suffix (contents (fold push es s)) (contents s @ es)"
  using fold_push last_n_suffix by metis

end

locale recent_view =
  fixes contents :: "'s \<Rightarrow> 'e list"
    and recent :: "nat \<Rightarrow> 's \<Rightarrow> 'e list"
  assumes recent_eq: "recent n s = last_n n (contents s)"
begin

lemma recent_length: "length (recent n s) = min n (length (contents s))"
  by (simp add: recent_eq)

lemma recent_all: "length (contents s) \<le> n \<Longrightarrow> recent n s = contents s"
  by (simp add: recent_eq)

lemma recent_mono: "m \<le> n \<Longrightarrow> suffix (recent m s) (recent n s)"
  by (auto simp: recent_eq last_n_def suffix_def)
    (metis append_take_drop_id drop_drop le_add_diff_inverse2 diff_le_mono2)

end

text \<open>A first-in first-out queue; \<open>deq_many\<close> takes the next \<open>n\<close> elements.\<close>

fun deq_many :: "('s \<Rightarrow> 'a option \<times> 's) \<Rightarrow> nat \<Rightarrow> 's \<Rightarrow> 'a list \<times> 's" where
  "deq_many d 0 s = ([], s)"
| "deq_many d (Suc n) s =
     (case d s of (None, s') \<Rightarrow> ([], s') | (Some x, s') \<Rightarrow> (case deq_many d n s' of (xs, s'') \<Rightarrow> (x # xs, s'')))"

locale fifo =
  fixes enq :: "'a \<Rightarrow> 's \<Rightarrow> 's"
    and deq :: "'s \<Rightarrow> 'a option \<times> 's"
    and contents :: "'s \<Rightarrow> 'a list"
    and inv :: "'s \<Rightarrow> bool"
  assumes contents_enq: "inv s \<Longrightarrow> contents (enq x s) = contents s @ [x]"
    and inv_enq: "inv s \<Longrightarrow> inv (enq x s)"
    and fst_deq: "inv s \<Longrightarrow> fst (deq s) = (case contents s of [] \<Rightarrow> None | x # _ \<Rightarrow> Some x)"
    and contents_deq: "inv s \<Longrightarrow> contents (snd (deq s)) = tl (contents s)"
    and inv_deq: "inv s \<Longrightarrow> inv (snd (deq s))"
begin

lemma contents_fold_enq: "inv s \<Longrightarrow> contents (fold enq xs s) = contents s @ xs \<and> inv (fold enq xs s)"
  by (induction xs arbitrary: s) (auto simp: contents_enq inv_enq)

lemma deq_many_take:
  "inv s \<Longrightarrow> fst (deq_many deq n s) = take n (contents s) \<and>
     contents (snd (deq_many deq n s)) = drop n (contents s) \<and> inv (snd (deq_many deq n s))"
proof (induction n arbitrary: s)
  case (Suc n)
  obtain r s' where d: "deq s = (r, s')" by fastforce
  from Suc.prems d have s': "r = (case contents s of [] \<Rightarrow> None | x # _ \<Rightarrow> Some x)"
    "contents s' = tl (contents s)" "inv s'"
    using fst_deq contents_deq inv_deq by (metis fst_conv, metis snd_conv, metis snd_conv)
  with d Suc.IH [OF s'(3)] show ?case by (cases "contents s") (auto split: prod.splits)
qed simp

text \<open>What goes in comes out in the same order, behind what was there.\<close>

lemma fifo_order:
  assumes "inv s"
  shows "fst (deq_many deq (length (contents s) + length xs) (fold enq xs s)) = contents s @ xs"
  using contents_fold_enq [OF assms] deq_many_take by (metis length_append order_refl take_all)

end

section \<open>The standard containers meet the contracts\<close>

lemma umap_inv_update [inv_intros]: "umap_inv m \<Longrightarrow> umap_inv (AList.update k v m)"
  unfolding umap_inv_def by (rule distinct_update)

lemma umap_inv_delete [inv_intros]: "umap_inv m \<Longrightarrow> umap_inv (AList.delete k m)"
  unfolding umap_inv_def by (rule distinct_delete)

interpretation um: registry map_of AList.update AList.delete umap_inv
  by unfold_locales (auto simp: update_conv delete_conv intro: inv_intros)

lemma set_keys_omap_set: "fst ` set (omap_set k v m) = insert k (fst ` set m)"
  by (induction k v m rule: omap_set.induct) auto

lemma omap_inv_set [inv_intros]: "omap_inv m \<Longrightarrow> omap_inv (omap_set k v m)"
proof (induction k v m rule: omap_set.induct)
  case (1 k v)
  then show ?case by (simp add: omap_inv_def)
next
  case (2 k v k' v' m)
  have "omap_inv ((k', v') # omap_set k v m) \<longleftrightarrow>
      (\<forall>x \<in> insert k (fst ` set m). k' < x) \<and> omap_inv (omap_set k v m)"
    using set_keys_omap_set [of k v m] by (auto simp: omap_inv_def)
  with 2 show ?case by (auto simp: omap_inv_def)
qed

lemma map_of_omap_set: "omap_inv m \<Longrightarrow> map_of (omap_set k v m) = (map_of m)(k \<mapsto> v)"
proof (induction k v m rule: omap_set.induct)
  case (1 k v)
  then show ?case by simp
next
  case (2 k v k' v' m)
  then show ?case by (auto simp: omap_inv_def fun_eq_iff)
qed

lemma omap_inv_umap_inv: "omap_inv m \<Longrightarrow> umap_inv m"
  by (simp add: omap_inv_def umap_inv_def strict_sorted_iff)

lemma omap_inv_delete [inv_intros]: "omap_inv m \<Longrightarrow> omap_inv (AList.delete k m)"
  by (simp add: omap_inv_def delete_keys removeAll_filter_not_eq sorted_wrt_filter)

text \<open>An ordered map is determined by its bindings.\<close>

lemma omap_same_keys:
  assumes "omap_inv m" "omap_inv m'" "fst ` set m = fst ` set m'"
  shows "map fst m = map fst m'"
  using assms by (intro sorted_distinct_set_unique) (auto simp: omap_inv_def strict_sorted_iff)

lemma map_of_rev_distinct: "distinct (map fst kvs) \<Longrightarrow> map_of (rev kvs) = map_of kvs"
  by (subst map_of_inject_set) (auto simp: rev_map [symmetric])

lemma omap_rebuild: "omap_inv m \<Longrightarrow> map (\<lambda>k. (k, the (map_of m k))) (map fst m) = m"
  by (auto simp: omap_inv_def strict_sorted_iff intro!: map_idI)

lemma omap_eqI:
  assumes "omap_inv m" "omap_inv m'" "map_of m = map_of m'"
  shows "m = m'"
proof -
  have "map fst m = map fst m'"
    using assms by (intro omap_same_keys) (metis dom_map_of_conv_image_fst)+
  with assms show ?thesis by (metis omap_rebuild)
qed

interpretation om: registry map_of omap_set AList.delete omap_inv
  by unfold_locales (auto simp: map_of_omap_set delete_conv intro: inv_intros)

text \<open>Iterating over the values of a map with distinct keys.\<close>

lemma umap_values_update:
  "umap_inv m \<Longrightarrow>
   sum_list (map (f \<circ> snd) (AList.update k v m)) + (case map_of m k of None \<Rightarrow> 0 | Some w \<Rightarrow> f w) =
   sum_list (map (f \<circ> snd) m) + (f v :: nat)"
  by (induction m) (auto simp: umap_inv_def)

lemma map_of_in_keys: "k \<in> fst ` set m \<longleftrightarrow> map_of m k \<noteq> None"
  by (metis map_of_eq_None_iff)

end
