(* ===== verification/Security.thy ===== *)
theory Security
  imports Containers
begin

section \<open>Security profiles\<close>

text \<open>
  \<^verbatim>\<open>sandbox/src/security.cpp\<close> and \<^verbatim>\<open>security.hpp\<close>: the profile store, the command check, the
  audit log and the six built-in profiles. A \<^verbatim>\<open>std::unordered_set\<close> is the list of its elements
  in iteration order. What \<^verbatim>\<open>apply_profile\<close> does to the outside is a list of effects in program
  order: lines printed, shell commands run by \<^verbatim>\<open>system\<close>, and \<^verbatim>\<open>setrlimit\<close> calls, which act on
  the calling process. The Linux branch of the conditional compilation is modelled.
\<close>

record security_profile =
  name :: string
  description :: string
  allowed_syscalls :: "string list"
  blocked_syscalls :: "string list"
  dropped_capabilities :: "string list"
  kept_capabilities :: "string list"
  readonly_paths :: "string list"
  blocked_paths :: "string list"
  allowed_paths :: "string list"
  allow_network :: bool
  allow_localhost :: bool
  allowed_hosts :: "string list"
  allowed_ports :: "string list"
  max_memory_bytes :: u64
  max_cpu_percent :: u32
  max_processes :: u32
  max_open_files :: u32
  max_file_size_mb :: u32
  max_execution_seconds :: u32
  max_stdout_bytes :: u32
  max_stderr_bytes :: u32

text \<open>The member initialisers of \<^verbatim>\<open>struct SecurityProfile\<close>.\<close>

definition blank_profile :: security_profile where
  "blank_profile =
     \<lparr>name = [], description = [], allowed_syscalls = [], blocked_syscalls = [],
      dropped_capabilities = [], kept_capabilities = [], readonly_paths = [], blocked_paths = [],
      allowed_paths = [], allow_network = False, allow_localhost = False, allowed_hosts = [],
      allowed_ports = [], max_memory_bytes = 256 * 1024 * 1024, max_cpu_percent = 50,
      max_processes = 64, max_open_files = 1024, max_file_size_mb = 100,
      max_execution_seconds = 300, max_stdout_bytes = 1024 * 1024, max_stderr_bytes = 1024 * 1024\<rparr>"

subsection \<open>Built-in profiles\<close>

definition minimal :: security_profile where
  "minimal = blank_profile
    \<lparr>name := ''minimal'',
     description := ''Minimal syscalls - only essential operations'',
     allowed_syscalls := [
      ''read'', ''write'', ''open'', ''close'', ''stat'', ''fstat'', ''lstat'', ''poll'',
      ''lseek'', ''mmap'', ''mprotect'', ''munmap'', ''brk'', ''rt_sigaction'',
      ''rt_sigprocmask'', ''ioctl'', ''access'', ''pipe'', ''select'', ''sched_yield'',
      ''mremap'', ''msync'', ''dup'', ''dup2'', ''nanosleep'', ''getpid'', ''socket'',
      ''connect'', ''clone'', ''fork'', ''vfork'', ''execve'', ''exit'', ''wait4'',
      ''kill'', ''uname'', ''fcntl'', ''flock'', ''fsync'', ''fdatasync'', ''truncate'',
      ''ftruncate'', ''getdents'', ''getcwd'', ''chdir'', ''fchdir'', ''rename'',
      ''mkdir'', ''rmdir'', ''creat'', ''link'', ''unlink'', ''symlink'', ''readlink'',
      ''chmod'', ''fchmod'', ''chown'', ''fchown'', ''lchown'', ''umask'',
      ''gettimeofday'', ''getrlimit'', ''getrusage'', ''sysinfo'', ''times'', ''getuid'',
      ''getgid'', ''setuid'', ''setgid'', ''geteuid'', ''getegid'', ''setpgid'',
      ''getppid'', ''getpgrp'', ''setsid'', ''getgroups'', ''setgroups'', ''getpgid'',
      ''getsid'', ''capget'', ''capset'', ''rt_sigpending'', ''rt_sigtimedwait'',
      ''rt_sigsuspend'', ''sigaltstack'', ''utime'', ''mknod'', ''personality'',
      ''statfs'', ''fstatfs'', ''getpriority'', ''setpriority'', ''sched_setparam'',
      ''sched_getparam'', ''sched_setscheduler'', ''sched_getscheduler'',
      ''sched_get_priority_max'', ''sched_get_priority_min'', ''sched_rr_get_interval'',
      ''mlock'', ''munlock'', ''mlockall'', ''munlockall'', ''vhangup'', ''pivot_root'',
      ''arch_prctl'', ''setrlimit'', ''chroot'', ''sync'', ''settimeofday'',
      ''sethostname'', ''setdomainname'', ''gettid'', ''readahead'', ''setxattr'',
      ''lsetxattr'', ''fsetxattr'', ''getxattr'', ''lgetxattr'', ''fgetxattr'',
      ''listxattr'', ''llistxattr'', ''flistxattr'', ''removexattr'', ''lremovexattr'',
      ''fremovexattr'', ''tkill'', ''time'', ''futex'', ''sched_setaffinity'',
      ''sched_getaffinity'', ''set_tid_address'', ''restart_syscall'', ''fadvise64'',
      ''clock_settime'', ''clock_gettime'', ''clock_getres'', ''clock_nanosleep'',
      ''exit_group'', ''epoll_wait'', ''epoll_ctl'', ''tgkill'', ''utimes'', ''mbind'',
      ''set_mempolicy'', ''get_mempolicy'', ''openat'', ''mkdirat'', ''mknodat'',
      ''fchownat'', ''futimesat'', ''newfstatat'', ''unlinkat'', ''renameat'', ''linkat'',
      ''symlinkat'', ''readlinkat'', ''fchmodat'', ''faccessat'', ''pselect6'', ''ppoll'',
      ''unshare'', ''set_robust_list'', ''get_robust_list'', ''splice'', ''tee'',
      ''sync_file_range'', ''utimensat'', ''epoll_pwait'', ''signalfd'',
      ''timerfd_create'', ''eventfd'', ''fallocate'', ''timerfd_settime'',
      ''timerfd_gettime'', ''accept4'', ''signalfd4'', ''eventfd2'', ''epoll_create1'',
      ''dup3'', ''pipe2'', ''inotify_init1'', ''preadv'', ''pwritev'',
      ''rt_tgsigqueueinfo'', ''perf_event_open'', ''recvmmsg'', ''prlimit64'',
      ''name_to_handle_at'', ''open_by_handle_at'', ''clock_adjtime'', ''syncfs'',
      ''sendmmsg'', ''setns'', ''getcpu'', ''process_vm_readv'', ''process_vm_writev'',
      ''kcmp'', ''finit_module''],
     dropped_capabilities := [
      ''CAP_SYS_ADMIN'', ''CAP_SYS_MODULE'', ''CAP_SYS_RAWIO'', ''CAP_SYS_PTRACE'',
      ''CAP_SYS_TIME'', ''CAP_SYS_NICE'', ''CAP_NET_ADMIN'', ''CAP_NET_RAW'',
      ''CAP_NET_BIND_SERVICE'', ''CAP_IPC_LOCK'', ''CAP_IPC_OWNER'', ''CAP_SYS_CHROOT'',
      ''CAP_SYS_BOOT'', ''CAP_SYS_RESOURCE'', ''CAP_MKNOD'', ''CAP_LEASE'',
      ''CAP_AUDIT_WRITE'', ''CAP_AUDIT_CONTROL'', ''CAP_SETFCAP'', ''CAP_MAC_OVERRIDE'',
      ''CAP_MAC_ADMIN'', ''CAP_SYSLOG'', ''CAP_WAKE_ALARM'', ''CAP_BLOCK_SUSPEND'',
      ''CAP_AUDIT_READ''],
     max_memory_bytes := 128 * 1024 * 1024,
     max_cpu_percent := 25,
     max_processes := 16,
     max_open_files := 256,
     max_execution_seconds := 60,
     allow_network := False\<rparr>"

definition standard :: security_profile where
  "standard = blank_profile
    \<lparr>name := ''standard'',
     description := ''Standard security - balanced for most workloads'',
     allowed_syscalls := allowed_syscalls minimal,
     dropped_capabilities := [
      ''CAP_SYS_ADMIN'', ''CAP_SYS_MODULE'', ''CAP_SYS_RAWIO'', ''CAP_SYS_PTRACE'',
      ''CAP_SYS_TIME'', ''CAP_NET_ADMIN'', ''CAP_NET_RAW'', ''CAP_IPC_LOCK'',
      ''CAP_IPC_OWNER'', ''CAP_SYS_CHROOT'', ''CAP_SYS_BOOT'', ''CAP_MKNOD'',
      ''CAP_LEASE'', ''CAP_AUDIT_WRITE'', ''CAP_AUDIT_CONTROL'', ''CAP_SETFCAP'',
      ''CAP_MAC_OVERRIDE'', ''CAP_MAC_ADMIN'', ''CAP_SYSLOG'', ''CAP_WAKE_ALARM'',
      ''CAP_BLOCK_SUSPEND''],
     max_memory_bytes := 256 * 1024 * 1024,
     max_cpu_percent := 50,
     max_processes := 32,
     max_open_files := 512,
     max_execution_seconds := 120,
     allow_network := False\<rparr>"

definition relaxed :: security_profile where
  "relaxed = blank_profile
    \<lparr>name := ''relaxed'',
     description := ''Relaxed security - for trusted code'',
     dropped_capabilities := [
      ''CAP_SYS_ADMIN'', ''CAP_SYS_MODULE'', ''CAP_SYS_RAWIO'', ''CAP_SYS_PTRACE''],
     max_memory_bytes := 512 * 1024 * 1024,
     max_cpu_percent := 75,
     max_processes := 64,
     max_open_files := 1024,
     max_execution_seconds := 300,
     allow_network := True,
     allow_localhost := True\<rparr>"

definition network :: security_profile where
  "network = standard
    \<lparr>name := ''network'',
     description := ''Network enabled - for services'',
     allow_network := True,
     allowed_ports := [''80'', ''443'', ''8080'', ''8443'']\<rparr>"

definition filesystem :: security_profile where
  "filesystem = standard
    \<lparr>name := ''filesystem'',
     description := ''Filesystem access enabled'',
     allowed_paths := [''/tmp'', ''/var/tmp'', ''/data''],
     readonly_paths := [''/etc'', ''/usr'']\<rparr>"

definition untrusted :: security_profile where
  "untrusted = blank_profile
    \<lparr>name := ''untrusted'',
     description := ''Maximum restrictions - for untrusted code'',
     dropped_capabilities := [
      ''CAP_CHOWN'', ''CAP_DAC_OVERRIDE'', ''CAP_DAC_READ_SEARCH'', ''CAP_FOWNER'',
      ''CAP_FSETID'', ''CAP_KILL'', ''CAP_SETGID'', ''CAP_SETUID'', ''CAP_SETPCAP'',
      ''CAP_LINUX_IMMUTABLE'', ''CAP_NET_BIND_SERVICE'', ''CAP_NET_BROADCAST'',
      ''CAP_NET_ADMIN'', ''CAP_NET_RAW'', ''CAP_IPC_LOCK'', ''CAP_IPC_OWNER'',
      ''CAP_SYS_MODULE'', ''CAP_SYS_RAWIO'', ''CAP_SYS_CHROOT'', ''CAP_SYS_PTRACE'',
      ''CAP_SYS_PACCT'', ''CAP_SYS_ADMIN'', ''CAP_SYS_BOOT'', ''CAP_SYS_NICE'',
      ''CAP_SYS_RESOURCE'', ''CAP_SYS_TIME'', ''CAP_SYS_TTY_CONFIG'', ''CAP_MKNOD'',
      ''CAP_LEASE'', ''CAP_AUDIT_WRITE'', ''CAP_AUDIT_CONTROL'', ''CAP_SETFCAP'',
      ''CAP_MAC_OVERRIDE'', ''CAP_MAC_ADMIN'', ''CAP_SYSLOG'', ''CAP_WAKE_ALARM'',
      ''CAP_BLOCK_SUSPEND'', ''CAP_AUDIT_READ'', ''CAP_PERFMON'', ''CAP_BPF'',
      ''CAP_CHECKPOINT_RESTORE''],
     max_memory_bytes := 64 * 1024 * 1024,
     max_cpu_percent := 10,
     max_processes := 8,
     max_open_files := 64,
     max_execution_seconds := 30,
     allow_network := False\<rparr>"

subsection \<open>The manager\<close>

record audit_entry =
  ae_timestamp :: u64
  ae_pid :: i32
  ae_profile :: string
  ae_action :: string
  ae_details :: string
  ae_allowed :: bool

record security_manager =
  profiles :: "security_profile umap"
  audit_log :: "audit_entry list"

text \<open>\<^verbatim>\<open>profiles_[k] = p\<close>.\<close>

definition set_profile :: "string \<Rightarrow> security_profile \<Rightarrow> security_manager \<Rightarrow> security_manager" where
  "set_profile k p sm = sm\<lparr>profiles := AList.update k p (profiles sm)\<rparr>"

definition load_defaults :: "security_manager \<Rightarrow> security_manager" where
  "load_defaults sm =
     fold (\<lambda>(k, p). set_profile k p)
       [(''minimal'', minimal), (''standard'', standard), (''relaxed'', relaxed),
        (''network'', network), (''filesystem'', filesystem), (''untrusted'', untrusted)] sm"

definition new_security_manager :: security_manager where
  "new_security_manager = load_defaults \<lparr>profiles = [], audit_log = []\<rparr>"

definition get_profile :: "security_manager \<Rightarrow> string \<Rightarrow> security_profile option" where
  "get_profile sm k = map_of (profiles sm) k"

definition list_profiles :: "security_manager \<Rightarrow> string list" where
  "list_profiles sm = map fst (profiles sm)"

definition create_profile :: "security_profile \<Rightarrow> security_manager \<Rightarrow> bool \<times> security_manager" where
  "create_profile p sm = (True, set_profile (name p) p sm)"

definition erase_profile :: "string \<Rightarrow> security_manager \<Rightarrow> security_manager" where
  "erase_profile k sm = sm\<lparr>profiles := AList.delete k (profiles sm)\<rparr>"

definition delete_profile :: "string \<Rightarrow> security_manager \<Rightarrow> bool \<times> security_manager" where
  "delete_profile k sm = (get_profile sm k \<noteq> None, erase_profile k sm)"

subsection \<open>Applying a profile\<close>

datatype rlimit_resource = RLIMIT_AS | RLIMIT_NPROC | RLIMIT_NOFILE | RLIMIT_FSIZE

datatype effect = Print string | Shell string | Setrlimit rlimit_resource u64

definition apply_syscall_filter :: "i32 \<Rightarrow> security_profile \<Rightarrow> bool \<times> effect list" where
  "apply_syscall_filter pid p =
     (True, [Print (''[security] applying syscall filter to pid '' @ dec_of_int (sint pid) @ [CHR 10])])"

definition apply_capabilities :: "i32 \<Rightarrow> security_profile \<Rightarrow> bool \<times> effect list" where
  "apply_capabilities pid p =
     (True,
      map (\<lambda>c. Print (''[security] dropping capability: '' @ c @ [CHR 10])) (dropped_capabilities p) @
      map (\<lambda>c. Print (''[security] keeping capability: '' @ c @ [CHR 10])) (kept_capabilities p))"

definition apply_filesystem_restrictions :: "i32 \<Rightarrow> security_profile \<Rightarrow> bool \<times> effect list" where
  "apply_filesystem_restrictions pid p =
     (True, map (\<lambda>d. Shell (''mount -o bind,remount,ro '' @ d @ '' '' @ d)) (readonly_paths p))"

definition apply_network_restrictions :: "i32 \<Rightarrow> security_profile \<Rightarrow> bool \<times> effect list" where
  "apply_network_restrictions pid p =
     (True,
      if \<not> allow_network p
      then [Shell (''nsenter -t '' @ dec_of_int (sint pid) @ '' -n ip link set lo down'')]
      else [])"

text \<open>\<^verbatim>\<open>max_file_size_mb * 1024 * 1024\<close> is 32-bit arithmetic; the result is widened afterwards.\<close>

definition rlimit_effects :: "security_profile \<Rightarrow> effect list" where
  "rlimit_effects p =
     [Setrlimit RLIMIT_AS (max_memory_bytes p),
      Setrlimit RLIMIT_NPROC (ucast (max_processes p)),
      Setrlimit RLIMIT_NOFILE (ucast (max_open_files p)),
      Setrlimit RLIMIT_FSIZE (ucast (max_file_size_mb p * 1024 * 1024))]"

definition log_audit ::
  "u64 \<Rightarrow> i32 \<Rightarrow> string \<Rightarrow> string \<Rightarrow> string \<Rightarrow> bool \<Rightarrow> security_manager \<Rightarrow> security_manager" where
  "log_audit now pid profile action details ok sm =
     (let log = audit_log sm @ [\<lparr>ae_timestamp = now, ae_pid = pid, ae_profile = profile,
                  ae_action = action, ae_details = details, ae_allowed = ok\<rparr>] in
      sm\<lparr>audit_log := (if 10000 < length log then tl log else log)\<rparr>)"

definition apply_when ::
  "bool \<Rightarrow> (i32 \<Rightarrow> security_profile \<Rightarrow> bool \<times> effect list) \<Rightarrow> i32 \<Rightarrow> security_profile \<Rightarrow>
   bool \<times> effect list \<Rightarrow> bool \<times> effect list" where
  "apply_when guard f pid p acc =
     (if guard then (case f pid p of (ok, es) \<Rightarrow> (fst acc \<and> ok, snd acc @ es)) else acc)"

definition apply_profile ::
  "u64 \<Rightarrow> i32 \<Rightarrow> string \<Rightarrow> security_manager \<Rightarrow> bool \<times> effect list \<times> security_manager" where
  "apply_profile now pid profile_name sm =
     (case get_profile sm profile_name of
        None \<Rightarrow> (False, [Print (''[security] profile not found: '' @ profile_name @ [CHR 10])], sm)
      | Some p \<Rightarrow>
          let r1 = apply_when (allowed_syscalls p \<noteq> [] \<or> blocked_syscalls p \<noteq> [])
                     apply_syscall_filter pid p (True, []);
              r2 = apply_when (dropped_capabilities p \<noteq> [] \<or> kept_capabilities p \<noteq> [])
                     apply_capabilities pid p r1;
              r3 = apply_when (readonly_paths p \<noteq> [] \<or> blocked_paths p \<noteq> [])
                     apply_filesystem_restrictions pid p r2;
              r4 = apply_when (\<not> allow_network p) apply_network_restrictions pid p r3
          in (fst r4, snd r4 @ rlimit_effects p,
              log_audit now pid profile_name ''apply'' ''Profile applied'' (fst r4) sm))"

subsection \<open>Checking a command\<close>

record validation_result =
  allowed :: bool
  violations :: "string list"

fun any_prefix :: "string \<Rightarrow> string list \<Rightarrow> bool" where
  "any_prefix command [] = False"
| "any_prefix command (path # paths) =
     (if str_find path command = Some 0 then True else any_prefix command paths)"

fun check_blocked :: "string \<Rightarrow> string list \<Rightarrow> validation_result \<Rightarrow> validation_result" where
  "check_blocked command [] r = r"
| "check_blocked command (path # paths) r =
     check_blocked command paths
       (if str_find path command = Some 0
        then \<lparr>allowed = False, violations = violations r @ [''Command in blocked path: '' @ path]\<rparr>
        else r)"

definition validate_command :: "string \<Rightarrow> string \<Rightarrow> security_manager \<Rightarrow> validation_result" where
  "validate_command command profile_name sm =
     (case get_profile sm profile_name of
        None \<Rightarrow> \<lparr>allowed = False, violations = [''Profile not found: '' @ profile_name]\<rparr>
      | Some p \<Rightarrow>
          check_blocked command (blocked_paths p)
            (if allowed_paths p \<noteq> [] \<and> \<not> any_prefix command (allowed_paths p)
             then \<lparr>allowed = False, violations = [''Command not in allowed paths'']\<rparr>
             else \<lparr>allowed = True, violations = []\<rparr>))"

definition get_audit_log :: "nat \<Rightarrow> security_manager \<Rightarrow> audit_entry list" where
  "get_audit_log last_k sm =
     (let start = (if last_k < length (audit_log sm) then length (audit_log sm) - last_k else 0) in
      map ((!) (audit_log sm)) [start ..< length (audit_log sm)])"

text \<open>What the components rely on, and the order of strictness of two profiles.\<close>

definition sm_inv :: "security_manager \<Rightarrow> bool" where
  "sm_inv sm = (umap_inv (profiles sm) \<and> length (audit_log sm) \<le> 10000)"

definition push_audit :: "audit_entry \<Rightarrow> security_manager \<Rightarrow> security_manager" where
  "push_audit e sm = log_audit (ae_timestamp e) (ae_pid e) (ae_profile e) (ae_action e)
     (ae_details e) (ae_allowed e) sm"

definition at_least_as_strict :: "security_profile \<Rightarrow> security_profile \<Rightarrow> bool" where
  "at_least_as_strict p q =
     (max_memory_bytes p \<le> max_memory_bytes q \<and> max_cpu_percent p \<le> max_cpu_percent q \<and>
      max_processes p \<le> max_processes q \<and> max_open_files p \<le> max_open_files q \<and>
      max_execution_seconds p \<le> max_execution_seconds q \<and>
      set (dropped_capabilities q) \<subseteq> set (dropped_capabilities p))"

section \<open>Lemmas\<close>

interpretation pr: registry get_profile set_profile erase_profile "\<lambda>sm. umap_inv (profiles sm)"
  by unfold_locales
    (auto simp: get_profile_def set_profile_def erase_profile_def update_conv delete_conv
      intro: inv_intros)

lemma log_audit_last_n:
  "length (audit_log sm) \<le> 10000 \<Longrightarrow>
   audit_log (push_audit e sm) = last_n 10000 (audit_log sm @ [e])"
proof -
  have "audit_log (push_audit e sm) =
      (if 10000 < length (audit_log sm @ [e]) then tl (audit_log sm @ [e]) else audit_log sm @ [e])"
    by (cases e) (simp add: push_audit_def log_audit_def Let_def)
  then show "length (audit_log sm) \<le> 10000 \<Longrightarrow> ?thesis" by (simp only: erase_front_last_n)
qed

interpretation al: bounded_log push_audit audit_log "\<lambda>_. 10000" sm_inv
  by unfold_locales (auto simp: log_audit_last_n sm_inv_def, auto simp: push_audit_def log_audit_def Let_def)

interpretation av: recent_view audit_log get_audit_log
proof unfold_locales
  fix n and sm :: security_manager
  have "(if n < length (audit_log sm) then length (audit_log sm) - n else 0) = length (audit_log sm) - n"
    by simp
  then show "get_audit_log n sm = last_n n (audit_log sm)"
    by (simp add: get_audit_log_def last_n_nths)
qed

lemma any_prefix_iff: "any_prefix command paths \<longleftrightarrow> (\<exists>path \<in> set paths. prefix path command)"
  by (induction paths) (auto simp: str_simps)

lemma check_blocked_eq:
  "allowed (check_blocked command paths r) \<longleftrightarrow>
     allowed r \<and> (\<forall>path \<in> set paths. \<not> prefix path command)"
  "violations (check_blocked command paths r) =
     violations r @ map (\<lambda>path. ''Command in blocked path: '' @ path) (filter (\<lambda>path. prefix path command) paths)"
  by (induction paths arbitrary: r) (auto simp: str_simps)

lemma load_defaults_get:
  "umap_inv (profiles sm) \<Longrightarrow>
   get_profile (load_defaults sm) k =
     (case map_of [(''untrusted'', untrusted), (''filesystem'', filesystem), (''network'', network),
         (''relaxed'', relaxed), (''standard'', standard), (''minimal'', minimal)] k of
        Some p \<Rightarrow> Some p | None \<Rightarrow> get_profile sm k)"
  unfolding load_defaults_def by (subst pr.find_fold_ins) simp_all

lemma get_default:
  "get_profile new_security_manager k =
     map_of [(''untrusted'', untrusted), (''filesystem'', filesystem), (''network'', network),
         (''relaxed'', relaxed), (''standard'', standard), (''minimal'', minimal)] k"
  unfolding new_security_manager_def
  by (subst load_defaults_get) (simp_all add: umap_inv_def get_profile_def split: option.splits)

lemma audit_log_new: "audit_log new_security_manager = []"
  by (simp add: new_security_manager_def load_defaults_def set_profile_def)

lemma sm_inv_new [inv_intros]: "sm_inv new_security_manager"
  unfolding sm_inv_def new_security_manager_def load_defaults_def
  using pr.inv_fold_ins by (simp add: set_profile_def umap_inv_def)

lemma apply_always_ok:
  "fst (apply_when g apply_syscall_filter pid p acc) = fst acc"
  "fst (apply_when g apply_capabilities pid p acc) = fst acc"
  "fst (apply_when g apply_filesystem_restrictions pid p acc) = fst acc"
  "fst (apply_when g apply_network_restrictions pid p acc) = fst acc"
  by (simp_all add: apply_when_def apply_syscall_filter_def apply_capabilities_def
      apply_filesystem_restrictions_def apply_network_restrictions_def)

lemma sm_inv_ops [inv_intros]:
  assumes "sm_inv sm"
  shows "sm_inv (set_profile k p sm)" "sm_inv (snd (create_profile p sm))"
    "sm_inv (snd (delete_profile k sm))" "sm_inv (log_audit now pid prof act det ok sm)"
    "sm_inv (snd (snd (apply_profile now pid k sm)))"
proof -
  show la: "sm_inv (log_audit now pid prof act det ok sm)" for now pid prof act det ok
    using al.inv_push [OF assms, of "\<lparr>ae_timestamp = now, ae_pid = pid, ae_profile = prof,
                  ae_action = act, ae_details = det, ae_allowed = ok\<rparr>"]
    by (simp add: push_audit_def)
  show "sm_inv (set_profile k p sm)" "sm_inv (snd (create_profile p sm))"
    "sm_inv (snd (delete_profile k sm))"
    using assms by (auto simp: sm_inv_def set_profile_def create_profile_def delete_profile_def
        erase_profile_def intro: inv_intros)
  show "sm_inv (snd (snd (apply_profile now pid k sm)))"
    using la assms by (simp add: apply_profile_def Let_def split: option.splits)
qed

section \<open>Properties\<close>

text \<open>
  C13. The verdict of the command check: a command is allowed exactly when the profile exists,
  the command starts with one of its allowed paths (if it lists any) and with none of its
  blocked paths; and the list of violations is empty exactly when the command is allowed.
\<close>

theorem validate_command_iff:
  "(allowed (validate_command command k sm) \<longleftrightarrow>
     (\<exists>p. get_profile sm k = Some p \<and>
        (allowed_paths p = [] \<or> (\<exists>a \<in> set (allowed_paths p). prefix a command)) \<and>
        \<not> (\<exists>b \<in> set (blocked_paths p). prefix b command))) \<and>
   (violations (validate_command command k sm) = [] \<longleftrightarrow> allowed (validate_command command k sm))"
  by (cases "get_profile sm k")
    (auto simp: validate_command_def check_blocked_eq any_prefix_iff filter_empty_conv)

text \<open>
  Of the six built-in profiles only \<open>filesystem\<close> restricts commands: under the other five,
  the most restrictive ones included, the check lets every command through.
\<close>

theorem default_profiles_allow_every_command:
  assumes "k \<in> {''minimal'', ''standard'', ''relaxed'', ''network'', ''untrusted''}"
  shows "allowed (validate_command command k new_security_manager)"
proof -
  have "allowed_paths p = [] \<and> blocked_paths p = []"
    if "p \<in> {minimal, standard, relaxed, network, untrusted}" for p
    using that by (auto simp: minimal_def standard_def relaxed_def network_def untrusted_def blank_profile_def)
  then show ?thesis
    using assms by (auto simp: validate_command_def get_default)
qed

theorem default_profiles_allow_every_command_witness:
  "allowed (validate_command ''rm -rf /'' ''untrusted'' new_security_manager)"
  by (rule default_profiles_allow_every_command) simp

text \<open>
  The check under \<open>filesystem\<close> compares leading characters, not path components: a command
  that starts with the text of an allowed directory passes, also when it leaves the directory
  or names a sibling of it.
\<close>

theorem filesystem_profile_textual_prefix:
  "allowed (validate_command (''/tmp'' @ anything) ''filesystem'' new_security_manager)"
  by (simp add: validate_command_def get_default filesystem_def standard_def blank_profile_def str_simps)

text \<open>
  The built-in profiles tighten together: from \<open>relaxed\<close> over \<open>standard\<close> and \<open>minimal\<close> to
  \<open>untrusted\<close> each numeric limit is no larger and the dropped capabilities are a superset.
\<close>

theorem default_profiles_ordered:
  "sorted_wrt at_least_as_strict [untrusted, minimal, standard, relaxed]"
  by (simp add: at_least_as_strict_def minimal_def standard_def relaxed_def untrusted_def blank_profile_def)

text \<open>
  Applying a profile: for a known profile it always reports success, limits the calling
  process by the profile's numbers, and leaves exactly one entry for it at the end of the audit
  log, which keeps the last 10000; for an unknown one it fails and changes nothing.
\<close>

theorem apply_profile_outcome:
  assumes "sm_inv sm"
  shows "case apply_profile now pid k sm of (ok, effects, sm') \<Rightarrow>
     (case get_profile sm k of
        None \<Rightarrow> \<not> ok \<and> sm' = sm
      | Some p \<Rightarrow> ok \<and> suffix (rlimit_effects p) effects \<and> profiles sm' = profiles sm \<and>
          audit_log sm' = last_n 10000 (audit_log sm @
            [\<lparr>ae_timestamp = now, ae_pid = pid, ae_profile = k, ae_action = ''apply'',
              ae_details = ''Profile applied'', ae_allowed = True\<rparr>]))"
proof (cases "get_profile sm k")
  case None
  then show ?thesis by (simp add: apply_profile_def)
next
  case (Some p)
  let ?e = "\<lparr>ae_timestamp = now, ae_pid = pid, ae_profile = k, ae_action = ''apply'',
              ae_details = ''Profile applied'', ae_allowed = True\<rparr>"
  have "audit_log (log_audit now pid k ''apply'' ''Profile applied'' True sm) =
      last_n 10000 (audit_log sm @ [?e])"
    using al.contents_push [OF assms, of ?e] by (simp add: push_audit_def)
  moreover have "profiles (log_audit now pid k ''apply'' ''Profile applied'' True sm) = profiles sm"
    by (simp add: log_audit_def Let_def)
  ultimately show ?thesis
    using Some by (simp add: apply_profile_def Let_def apply_always_ok suffix_def)
qed

theorem apply_profile_outcome_witness:
  "case apply_profile 9 42 ''untrusted'' new_security_manager of (ok, effects, sm') \<Rightarrow>
     ok \<and> suffix (rlimit_effects untrusted) effects \<and> length (audit_log sm') = 1"
  using apply_profile_outcome [OF sm_inv_new, of 9 42 "''untrusted''"]
  by (auto simp: get_default audit_log_new split: prod.splits)

text \<open>
  The file size limit is computed in 32 bits: for a profile that allows 4096 MiB per file
  the limit that is set is 0 bytes.
\<close>

theorem file_size_limit_wraps:
  assumes "max_file_size_mb p = 4096"
  shows "Setrlimit RLIMIT_FSIZE 0 \<in> set (rlimit_effects p)"
  using assms by (simp add: rlimit_effects_def)

theorem file_size_limit_wraps_witness:
  "Setrlimit RLIMIT_FSIZE 0 \<in> set (rlimit_effects (minimal\<lparr>max_file_size_mb := 4096\<rparr>))"
  by (rule file_size_limit_wraps) simp

end
