(* ===== verification/Log_Aggregator.thy ===== *)
theory Log_Aggregator
  imports Containers
begin

section \<open>The log aggregator\<close>

text \<open>
  \<^verbatim>\<open>sandbox/src/log_aggregator.cpp\<close>: a bounded log of entries with search. The steady clock is
  the parameter \<open>now\<close> of each push. \<^verbatim>\<open>std::regex\<close> is a pair of parameters: \<open>re_compile\<close>
  (\<open>None\<close>: the constructor throws) and \<open>re_search\<close> (\<open>None\<close>: \<^verbatim>\<open>regex_search\<close> throws).
  The mutex serialises every operation, so an operation is one function of the state.
\<close>

record log_entry =
  timestamp_ms :: u64
  source :: string
  level :: string
  message :: string

record log_agg =
  entries :: "log_entry list"
  max_entries :: nat

definition new_log_agg :: log_agg where
  "new_log_agg = \<lparr>entries = [], max_entries = 10000\<rparr>"

text \<open>The loop \<^verbatim>\<open>while (entries_.size() > max_entries_) entries_.pop_front()\<close>.\<close>

fun pop_front_while :: "nat \<Rightarrow> 'e list \<Rightarrow> 'e list" where
  "pop_front_while m [] = []"
| "pop_front_while m (e # es) =
     (if m < length (e # es) then pop_front_while m es else e # es)"

definition push_entry :: "log_entry \<Rightarrow> log_agg \<Rightarrow> log_agg" where
  "push_entry e la =
     la\<lparr>entries := pop_front_while (max_entries la) (entries la @ [e])\<rparr>"

definition push :: "u64 \<Rightarrow> string \<Rightarrow> string \<Rightarrow> string \<Rightarrow> log_agg \<Rightarrow> log_agg" where
  "push now src lvl msg la =
     push_entry \<lparr>timestamp_ms = now, source = src, level = lvl, message = msg\<rparr> la"

text \<open>
  \<^verbatim>\<open>raw_line.substr(raw_line.find(' ') + 1)\<close>; when there is no space \<^verbatim>\<open>npos + 1\<close> wraps to 0
  and the whole line is kept.
\<close>

definition after_first_space :: "string \<Rightarrow> string" where
  "after_first_space s = (case str_find '' '' s of None \<Rightarrow> s | Some i \<Rightarrow> drop (i + 1) s)"

definition classify_line :: "string \<Rightarrow> string \<times> string" where
  "classify_line raw =
     (if starts_with raw ''[ERROR]'' \<or> starts_with raw ''ERROR:''
      then (''error'', after_first_space raw)
      else if starts_with raw ''[WARN]'' \<or> starts_with raw ''WARN:''
      then (''warn'', after_first_space raw)
      else if starts_with raw ''[DEBUG]'' \<or> starts_with raw ''DEBUG:''
      then (''debug'', after_first_space raw)
      else (''info'', raw))"

definition push_raw :: "u64 \<Rightarrow> string \<Rightarrow> string \<Rightarrow> log_agg \<Rightarrow> log_agg" where
  "push_raw now src raw la = (case classify_line raw of (lvl, msg) \<Rightarrow> push now src lvl msg la)"

text \<open>
  The reverse loops of the searches: newest first until \<open>limit\<close> hits are collected. A predicate
  that throws (\<open>None\<close>) ends the loop with what it has.
\<close>

fun scan_back :: "('e \<Rightarrow> bool option) \<Rightarrow> nat \<Rightarrow> 'e list \<Rightarrow> 'e list \<Rightarrow> 'e list" where
  "scan_back p limit [] results = results"
| "scan_back p limit (e # es) results =
     (if length results < limit then
        (case p e of
           None \<Rightarrow> results
         | Some hit \<Rightarrow> scan_back p limit es (if hit then results @ [e] else results))
      else results)"

definition search :: "string \<Rightarrow> nat \<Rightarrow> log_agg \<Rightarrow> log_entry list" where
  "search query limit la =
     rev (scan_back (\<lambda>e. Some (str_find query (message e) \<noteq> None)) limit (rev (entries la)) [])"

definition search_regex ::
  "(string \<Rightarrow> 're option) \<Rightarrow> ('re \<Rightarrow> string \<Rightarrow> bool option) \<Rightarrow> string \<Rightarrow> nat \<Rightarrow> log_agg \<Rightarrow>
   log_entry list" where
  "search_regex re_compile re_search pattern limit la =
     (case re_compile pattern of
        None \<Rightarrow> []
      | Some re \<Rightarrow> rev (scan_back (\<lambda>e. re_search re (message e)) limit (rev (entries la)) []))"

definition get_by_source :: "string \<Rightarrow> nat \<Rightarrow> log_agg \<Rightarrow> log_entry list" where
  "get_by_source src limit la =
     rev (scan_back (\<lambda>e. Some (source e = src)) limit (rev (entries la)) [])"

definition get_recent :: "nat \<Rightarrow> log_agg \<Rightarrow> log_entry list" where
  "get_recent count la =
     (let start = (if count < length (entries la) then length (entries la) - count else 0) in
      map ((!) (entries la)) [start ..< length (entries la)])"

definition set_max_entries :: "nat \<Rightarrow> log_agg \<Rightarrow> log_agg" where
  "set_max_entries m la = la\<lparr>max_entries := m\<rparr>"

definition count :: "log_agg \<Rightarrow> nat" where
  "count la = length (entries la)"

definition clear :: "log_agg \<Rightarrow> log_agg" where
  "clear la = la\<lparr>entries := []\<rparr>"

section \<open>Lemmas\<close>

lemma pop_front_while_last_n: "pop_front_while m es = last_n m es"
  by (induction es) (auto simp: last_n_def Suc_diff_le)

interpretation la: bounded_log push_entry entries max_entries "\<lambda>_. True"
  by unfold_locales (auto simp: push_entry_def pop_front_while_last_n)

lemma get_recent_last_n: "get_recent n la = last_n n (entries la)"
proof -
  have "(if n < length (entries la) then length (entries la) - n else 0) = length (entries la) - n"
    by simp
  then show ?thesis by (simp add: get_recent_def last_n_nths)
qed

interpretation rc: recent_view entries get_recent
  by unfold_locales (rule get_recent_last_n)

text \<open>A reverse scan whose predicate never throws keeps the newest hits, in log order.\<close>

lemma scan_back_total:
  "length results \<le> limit \<Longrightarrow>
   scan_back (\<lambda>e. Some (p e)) limit es results = results @ take (limit - length results) (filter p es)"
  by (induction es arbitrary: results) (auto simp: take_Cons' Suc_diff_le)

lemma rev_scan_back_total:
  "rev (scan_back (\<lambda>e. Some (p e)) limit (rev es) []) = last_n limit (filter p es)"
  by (simp add: scan_back_total last_n_rev_take rev_filter)

lemma scan_back_throws: "set (scan_back p limit es results) \<subseteq> set results \<union> {e \<in> set es. p e = Some True}"
  by (induction es arbitrary: results) (auto split: option.splits, fastforce+)

lemma scan_back_length: "length results \<le> limit \<Longrightarrow> length (scan_back p limit es results) \<le> limit"
  by (induction es arbitrary: results) (auto split: option.splits)

interpretation se: recent_view "\<lambda>la. filter (\<lambda>e. str_find q (message e) \<noteq> None) (entries la)"
  "\<lambda>n la. search q n la" for q
  by unfold_locales (simp add: search_def rev_scan_back_total)

interpretation so: recent_view "\<lambda>la. filter (\<lambda>e. source e = s) (entries la)"
  "\<lambda>n la. get_by_source s n la" for s
  by unfold_locales (simp add: get_by_source_def rev_scan_back_total)

lemma after_first_space_suffix: "suffix (after_first_space s) s"
  by (simp add: after_first_space_def suffix_drop split: option.splits)

section \<open>Properties\<close>

text \<open>
  C36. Searching a log after any run of pushes: the answer is exactly the newest \<open>limit\<close> entries
  among the last \<open>max_entries\<close> pushed whose message contains the query, in the order they were
  pushed.
\<close>

theorem search_after_pushes:
  assumes "es \<noteq> []"
  shows "search q limit (fold push_entry es la) =
    last_n limit (filter (\<lambda>e. sublist q (message e)) (last_n (max_entries la) (entries la @ es)))"
proof -
  have "entries (fold push_entry es la) = last_n (max_entries la) (entries la @ es)"
    using la.fold_push [OF TrueI assms, of la] by simp
  then show ?thesis by (simp add: se.recent_eq str_find_sublist del: not_None_eq)
qed

theorem search_after_pushes_witness:
  "search ''disk'' 1 (fold push_entry
      [\<lparr>timestamp_ms = 1, source = ''a'', level = ''info'', message = ''disk ok''\<rparr>,
       \<lparr>timestamp_ms = 2, source = ''b'', level = ''warn'', message = ''no disk''\<rparr>] new_log_agg) =
    [\<lparr>timestamp_ms = 2, source = ''b'', level = ''warn'', message = ''no disk''\<rparr>]"
  by (subst search_after_pushes) (simp_all add: new_log_agg_def last_n_def sublist_code)

text \<open>
  The aggregator never holds more than \<open>max_entries\<close> entries after a push, even when the
  limit was lowered below the current size in between, and a push under a positive limit is
  never lost.
\<close>

theorem push_bounded:
  "count (push now src lvl msg (set_max_entries m la)) \<le> m \<and>
   (0 < m \<longrightarrow> last (entries (push now src lvl msg (set_max_entries m la))) =
      \<lparr>timestamp_ms = now, source = src, level = lvl, message = msg\<rparr>)"
  using la.push_bound [OF TrueI, of _ "set_max_entries m la"]
    la.push_keeps_newest [OF TrueI, of "set_max_entries m la"]
  by (simp add: count_def push_def set_max_entries_def)

theorem push_bounded_witness:
  "count (push 5 ''s'' ''info'' ''m'' (set_max_entries 1 new_log_agg)) \<le> 1 \<and>
   last (entries (push 5 ''s'' ''info'' ''m'' (set_max_entries 1 new_log_agg))) =
      \<lparr>timestamp_ms = 5, source = ''s'', level = ''info'', message = ''m''\<rparr>"
  using push_bounded [of 5 "''s''" "''info''" "''m''" 1 new_log_agg] by simp

text \<open>
  A regular-expression search only ever returns entries of the log that the expression
  matches, at most \<open>limit\<close> of them, and nothing at all for a pattern that does not compile,
  also when the matcher throws half way.
\<close>

theorem search_regex_sound:
  "length (search_regex rc rs pat limit la) \<le> limit \<and>
   set (search_regex rc rs pat limit la) \<subseteq>
     {e \<in> set (entries la). \<exists>re. rc pat = Some re \<and> rs re (message e) = Some True}"
proof (cases "rc pat")
  case None
  then show ?thesis by (simp add: search_regex_def)
next
  case (Some re)
  have "set (scan_back (\<lambda>e. rs re (message e)) limit (rev (entries la)) []) \<subseteq>
      {e \<in> set (entries la). rs re (message e) = Some True}"
    using scan_back_throws [of "\<lambda>e. rs re (message e)" limit "rev (entries la)" "[]"] by auto
  moreover have "length (scan_back (\<lambda>e. rs re (message e)) limit (rev (entries la)) []) \<le> limit"
    by (rule scan_back_length) simp
  ultimately show ?thesis using Some by (auto simp: search_regex_def)
qed

text \<open>
  A line tagged as an error keeps only what follows its first space, wherever that space
  is: right after the tag this is the message, but text glued to the tag is lost with it.
\<close>

theorem push_raw_drops_glued_text:
  assumes "CHR '' '' \<notin> set t" and "0 < max_entries la"
  shows "last (entries (push_raw now src (''[ERROR]'' @ t @ '' '' @ rest) la)) =
     \<lparr>timestamp_ms = now, source = src, level = ''error'', message = rest\<rparr>"
proof -
  have "str_find '' '' ((''[ERROR]'' @ t) @ CHR '' '' # rest) = Some (length (''[ERROR]'' @ t))"
    using assms(1) by (intro str_find_char_append) auto
  then have "classify_line (''[ERROR]'' @ t @ '' '' @ rest) = (''error'', rest)"
    by (simp add: classify_line_def starts_with_def after_first_space_def)
  then show ?thesis
    using la.push_keeps_newest [OF TrueI assms(2)] by (simp add: push_raw_def push_def)
qed

theorem push_raw_drops_glued_text_witness:
  "last (entries (push_raw 7 ''job'' (''[ERROR]'' @ ''disk'' @ '' '' @ ''full'') new_log_agg)) =
     \<lparr>timestamp_ms = 7, source = ''job'', level = ''error'', message = ''full''\<rparr>"
  by (rule push_raw_drops_glued_text) (simp_all add: new_log_agg_def)

end
