(* ===== verification/Metrics.thy ===== *)
theory Metrics
  imports Containers
begin

section \<open>Metrics\<close>

text \<open>
  \<^verbatim>\<open>sandbox/src/metrics.cpp\<close> and its header: the exporter, its two text formats, and the HTTP
  endpoint. A sample value is an abstract double \<open>'d\<close>; \<open>show_g\<close> and \<open>show_fmt\<close> are the texts that
  \<^verbatim>\<open>operator<<\<close> and \<^verbatim>\<open>std::format\<close> give it. The results of the socket calls are arguments.
\<close>

datatype metric_type = Counter | Gauge | Histogram

record 'd metric =
  name :: string
  metric_type :: metric_type
  metric_value :: 'd
  labels :: "(string \<times> string) list"

type_synonym 'd exporter = "'d metric list"

definition counter :: "string \<Rightarrow> 'd \<Rightarrow> (string \<times> string) list \<Rightarrow> 'd exporter \<Rightarrow> 'd exporter" where
  "counter n v ls ms = ms @ [\<lparr>name = n, metric_type = Counter, metric_value = v, labels = ls\<rparr>]"

definition gauge :: "string \<Rightarrow> 'd \<Rightarrow> (string \<times> string) list \<Rightarrow> 'd exporter \<Rightarrow> 'd exporter" where
  "gauge n v ls ms = ms @ [\<lparr>name = n, metric_type = Gauge, metric_value = v, labels = ls\<rparr>]"

definition histogram :: "string \<Rightarrow> 'd \<Rightarrow> (string \<times> string) list \<Rightarrow> 'd exporter \<Rightarrow> 'd exporter" where
  "histogram n v ls ms = ms @ [\<lparr>name = n, metric_type = Histogram, metric_value = v, labels = ls\<rparr>]"

definition dquote :: string where "dquote = [CHR 0x22]"

definition newline :: string where "newline = [CHR 0x0A]"

text \<open>The loop over the labels; the flag is \<^verbatim>\<open>first\<close>.\<close>

fun label_items :: "bool \<Rightarrow> (string \<times> string) list \<Rightarrow> string" where
  "label_items first [] = []"
| "label_items first ((k, v) # ls) =
     (if first then [] else '','') @ k @ ''='' @ dquote @ v @ dquote @ label_items False ls"

definition render_labels :: "(string \<times> string) list \<Rightarrow> string" where
  "render_labels ls = (if ls = [] then [] else ''{'' @ label_items True ls @ ''}'')"

fun type_str :: "metric_type \<Rightarrow> string" where
  "type_str Counter = ''counter''"
| "type_str Gauge = ''gauge''"
| "type_str Histogram = ''histogram''"

definition add_to_group :: "(string \<times> 'd metric list) list \<Rightarrow> 'd metric \<Rightarrow> (string \<times> 'd metric list) list" where
  "add_to_group g m =
     omap_set (name m) ((case map_of g (name m) of None \<Rightarrow> [] | Some ms \<Rightarrow> ms) @ [m]) g"

definition grouped :: "'d exporter \<Rightarrow> (string \<times> 'd metric list) list" where
  "grouped ms = foldl add_to_group [] ms"

definition render_group :: "('d \<Rightarrow> string) \<Rightarrow> string \<times> 'd metric list \<Rightarrow> string" where
  "render_group show_g g =
     (case g of (n, ms) \<Rightarrow>
        (case ms of
           [] \<Rightarrow> []
         | m # _ \<Rightarrow> ''# HELP '' @ n @ '' redisops metric'' @ newline @
                    ''# TYPE '' @ n @ '' '' @ type_str (metric_type m) @ newline) @
        concat (map (\<lambda>m. name m @ render_labels (labels m) @ '' '' @ show_g (metric_value m) @ newline) ms) @
        newline)"

definition render_prometheus :: "('d \<Rightarrow> string) \<Rightarrow> 'd exporter \<Rightarrow> string" where
  "render_prometheus show_g ms = concat (map (render_group show_g) (grouped ms))"

fun json_items :: "('d \<Rightarrow> string) \<Rightarrow> bool \<Rightarrow> 'd exporter \<Rightarrow> string" where
  "json_items show_fmt first [] = []"
| "json_items show_fmt first (m # ms) =
     (if first then [] else '','') @
     ''{'' @ dquote @ ''name'' @ dquote @ '':'' @ dquote @ name m @ dquote @ '','' @
     dquote @ ''value'' @ dquote @ '':'' @ show_fmt (metric_value m) @ ''}'' @ json_items show_fmt False ms"

definition render_json :: "('d \<Rightarrow> string) \<Rightarrow> 'd exporter \<Rightarrow> string" where
  "render_json show_fmt ms = ''['' @ json_items show_fmt True ms @ '']''"

subsection \<open>The HTTP endpoint\<close>

record metrics_server =
  port :: u16
  server_fd :: int
  has_exporter :: bool
  running :: bool

definition new_metrics_server :: "u16 \<Rightarrow> metrics_server" where
  "new_metrics_server p = \<lparr>port = p, server_fd = - 1, has_exporter = False, running = False\<rparr>"

definition set_exporter :: "bool \<Rightarrow> metrics_server \<Rightarrow> metrics_server" where
  "set_exporter present s = s\<lparr>has_exporter := present\<rparr>"

text \<open>\<open>start\<close> and \<open>stop\<close> return the descriptors they close.\<close>

definition start :: "int \<Rightarrow> int \<Rightarrow> int \<Rightarrow> metrics_server \<Rightarrow> bool \<times> int list \<times> metrics_server" where
  "start sock bind_rc listen_rc s =
     (let s1 = s\<lparr>server_fd := sock\<rparr> in
      if sock < 0 then (False, [], s1)
      else if bind_rc < 0 then (False, [sock], s1\<lparr>server_fd := - 1\<rparr>)
      else if listen_rc < 0 then (False, [sock], s1\<lparr>server_fd := - 1\<rparr>)
      else (True, [], s1\<lparr>running := True\<rparr>))"

definition stop :: "metrics_server \<Rightarrow> int list \<times> metrics_server" where
  "stop s =
     (let s1 = s\<lparr>running := False\<rparr> in
      if 0 \<le> server_fd s then ([server_fd s], s1\<lparr>server_fd := - 1\<rparr>) else ([], s1))"

definition crlf :: string where "crlf = [CHR 0x0D, CHR 0x0A]"

definition build_response :: "string \<Rightarrow> int \<Rightarrow> string" where
  "build_response body code =
     ''HTTP/1.1 '' @ dec_of_int code @ '' '' @ (if code = 200 then ''OK'' else ''Not Found'') @ crlf @
     ''Content-Type: text/plain; version=0.0.4; charset=utf-8'' @ crlf @
     ''Content-Length: '' @ dec_of_nat (length body) @ crlf @
     ''Connection: close'' @ crlf @ crlf @ body"

text \<open>
  \<open>received\<close> are the bytes \<^verbatim>\<open>recv\<close> stored, at most 4095; the request string ends at the first
  null. The result is what is sent, or \<open>None\<close> when nothing was received.
\<close>

definition handle_client :: "('d \<Rightarrow> string) \<Rightarrow> 'd exporter \<Rightarrow> string \<Rightarrow> metrics_server \<Rightarrow> string option" where
  "handle_client show_g ms received s =
     (if received = [] then None
      else
        let request = takeWhile (\<lambda>c. c \<noteq> CHR 0x00) received in
        if str_find ''GET /metrics'' request \<noteq> None \<and> has_exporter s
        then Some (build_response (render_prometheus show_g ms) 200)
        else if str_find ''GET /health'' request \<noteq> None then Some (build_response (''ok'' @ newline) 200)
        else Some (build_response [] 404))"

subsection \<open>Specification vocabulary\<close>

text \<open>The text exposition of one metric name, from the samples in the order they were recorded.\<close>

definition exposition_block :: "('d \<Rightarrow> string) \<Rightarrow> 'd exporter \<Rightarrow> string \<Rightarrow> string" where
  "exposition_block show_g ms n =
     (let samples = filter (\<lambda>m. name m = n) ms in
      ''# HELP '' @ n @ '' redisops metric'' @ newline @
      ''# TYPE '' @ n @ '' '' @ type_str (metric_type (hd samples)) @ newline @
      concat (map (\<lambda>m. n @ render_labels (labels m) @ '' '' @ show_g (metric_value m) @ newline) samples) @ newline)"

section \<open>Lemmas\<close>

lemma grouped_snoc: "grouped (ms @ [m]) = add_to_group (grouped ms) m"
  by (simp add: grouped_def)

lemma grouped_facts:
  "omap_inv (grouped ms) \<and>
   map_of (grouped ms) n = (if n \<in> name ` set ms then Some (filter (\<lambda>m. name m = n) ms) else None)"
proof (induction ms arbitrary: n rule: rev_induct)
  case Nil
  then show ?case by (simp add: grouped_def omap_inv_def)
next
  case (snoc m ms)
  then have inv: "omap_inv (grouped ms)" by blast
  have none: "filter (\<lambda>x. name x = name m) ms = []" if "name m \<notin> name ` set ms"
    using that by (metis (mono_tags, lifting) filter_False image_eqI)
  from snoc show ?case
    by (auto simp: grouped_snoc add_to_group_def map_of_omap_set [OF inv] none intro!: omap_inv_set [OF inv])
qed

lemma grouped_keys: "map fst (grouped ms) = sorted_list_of_set (name ` set ms)"
proof -
  have "omap_inv (grouped ms)" using grouped_facts by blast
  then have "sorted (map fst (grouped ms))" "distinct (map fst (grouped ms))"
    by (simp_all add: omap_inv_def strict_sorted_iff)
  moreover have "set (map fst (grouped ms)) = name ` set ms"
    by (rule set_eqI) (simp add: map_of_in_keys grouped_facts)
  ultimately show ?thesis by (metis sorted_list_of_set.idem_if_sorted_distinct)
qed

lemma render_group_block:
  assumes "g \<in> set (grouped ms)"
  shows "render_group show_g g = exposition_block show_g ms (fst g)"
proof -
  have "map_of (grouped ms) (fst g) = Some (snd g)"
    using assms grouped_facts [of ms] by (intro map_of_is_SomeI) (auto simp: omap_inv_def strict_sorted_iff)
  then have g: "snd g = filter (\<lambda>m. name m = fst g) ms" "fst g \<in> name ` set ms"
    using grouped_facts [of ms "fst g"] by (auto split: if_splits)
  then have "snd g \<noteq> []" by (auto simp: filter_empty_conv)
  then obtain m rest where m: "snd g = m # rest" by (auto simp: neq_Nil_conv)
  have "map (\<lambda>m. name m @ render_labels (labels m) @ '' '' @ show_g (metric_value m) @ newline) (snd g) =
      map (\<lambda>m. fst g @ render_labels (labels m) @ '' '' @ show_g (metric_value m) @ newline) (snd g)"
    using g(1) by (intro map_cong refl) auto
  then show ?thesis
    unfolding render_group_def exposition_block_def Let_def g(1) [symmetric] case_prod_unfold
    by (simp only: m list.case list.sel append_assoc)
qed

text \<open>The endpoint's responses, and a length header that is the length of the body.\<close>

lemma handle_client_routes:
  assumes "received \<noteq> []" "CHR 0x00 \<notin> set received" "has_exporter s"
  shows "handle_client show_g ms received s =
    Some (if sublist ''GET /metrics'' received then build_response (render_prometheus show_g ms) 200
          else if sublist ''GET /health'' received then build_response (''ok'' @ newline) 200
          else build_response [] 404)"
proof -
  have "takeWhile (\<lambda>c. c \<noteq> CHR 0x00) received = received"
    using assms(2) by (auto simp: takeWhile_eq_all_conv)
  then show ?thesis
    unfolding handle_client_def Let_def str_find_sublist
    by (cases "sublist ''GET /metrics'' received"; cases "sublist ''GET /health'' received")
      (simp_all only: assms(1,3) simp_thms if_True if_False)
qed

section \<open>Properties\<close>

text \<open>
  C31. The Prometheus page is, for each metric name in increasing order, exactly one block: the
  two comment lines, the type being that of the first sample of the name, then every sample
  of that name ever recorded, in the order of recording. Samples are never combined, so two
  increments of a counter appear as two lines.
\<close>

theorem prometheus_blocks:
  "render_prometheus show_g ms =
     concat (map (exposition_block show_g ms) (sorted_list_of_set (name ` set ms)))"
proof -
  have "map (render_group show_g) (grouped ms) = map (exposition_block show_g ms) (map fst (grouped ms))"
    by (simp add: render_group_block)
  then show ?thesis unfolding render_prometheus_def grouped_keys by (rule arg_cong)
qed

end
