(* ===== verification/Netns.thy ===== *)
theory Netns
  imports Containers
begin

section \<open>Network namespaces\<close>

text \<open>
  \<^verbatim>\<open>sandbox/src/netns.cpp\<close> and its header (the Linux build): namespaces configured by shell
  commands. A \<open>shell\<close> runs a command in a world and says whether it succeeded, gives the output of
  a command, or the contents of a file; \<open>issued\<close> is the sequence of the commands passed to
  \<^verbatim>\<open>system\<close>. Console output is not modelled.
\<close>

record 'w shell =
  sh_system :: "string \<Rightarrow> 'w \<Rightarrow> bool \<times> 'w"
  sh_popen :: "string \<Rightarrow> 'w \<Rightarrow> string \<times> 'w"
  sh_file :: "string \<Rightarrow> 'w \<Rightarrow> string option"

record 'w host =
  world :: 'w
  issued :: "string list"

definition run_cmd :: "'w shell \<Rightarrow> string \<Rightarrow> 'w host \<Rightarrow> string \<times> 'w host" where
  "run_cmd sh cmd h = (case sh_popen sh cmd (world h) of (out, w) \<Rightarrow> (out, h\<lparr>world := w\<rparr>))"

definition run_cmd_ok :: "'w shell \<Rightarrow> string \<Rightarrow> 'w host \<Rightarrow> bool \<times> 'w host" where
  "run_cmd_ok sh cmd h =
     (case sh_system sh cmd (world h) of (ok, w) \<Rightarrow> (ok, h\<lparr>world := w, issued := issued h @ [cmd]\<rparr>))"

text \<open>Commands of which each must succeed, and commands whose result is ignored.\<close>

fun run_required :: "'w shell \<Rightarrow> string list \<Rightarrow> 'w host \<Rightarrow> bool \<times> 'w host" where
  "run_required sh [] h = (True, h)"
| "run_required sh (cmd # cmds) h =
     (case run_cmd_ok sh cmd h of (ok, h1) \<Rightarrow> if ok then run_required sh cmds h1 else (False, h1))"

definition run_ignored :: "'w shell \<Rightarrow> string list \<Rightarrow> 'w host \<Rightarrow> 'w host" where
  "run_ignored sh cmds h = fold (\<lambda>cmd h. snd (run_cmd_ok sh cmd h)) cmds h"

record netns_config =
  ns_name :: string
  bridge :: string
  subnet :: string
  next_ip :: u32
  enable_loopback :: bool
  enable_dns :: bool
  dns_servers :: "string list"

record netns_state =
  st_name :: string
  veth_host :: string
  veth_ns :: string
  ip_addr :: string
  bridge_port :: string
  active :: bool

record network_namespace =
  config :: netns_config
  state :: netns_state

definition new_network_namespace :: "netns_config \<Rightarrow> network_namespace" where
  "new_network_namespace cfg =
     \<lparr>config = cfg,
      state = \<lparr>st_name = ns_name cfg, veth_host = ''veth-'' @ ns_name cfg @ ''-h'',
               veth_ns = ''veth-'' @ ns_name cfg @ ''-ns'', ip_addr = [], bridge_port = [], active = False\<rparr>\<rparr>"

text \<open>The parts of the subnet the commands use.\<close>

definition subnet_base :: "netns_config \<Rightarrow> string" where
  "subnet_base cfg = substr0 (subnet cfg) (str_find ''/'' (subnet cfg))"

definition gateway :: "netns_config \<Rightarrow> string" where
  "gateway cfg = substr0 (subnet cfg) (str_rfind (CHR ''.'') (subnet cfg)) @ ''.1''"

definition required_commands :: "network_namespace \<Rightarrow> string list" where
  "required_commands ns =
     (let st = state ns in
      [''ip netns add '' @ st_name st,
       ''ip link add '' @ veth_host st @ '' type veth peer name '' @ veth_ns st,
       ''ip link set '' @ veth_ns st @ '' netns '' @ st_name st])"

definition address_command :: "network_namespace \<Rightarrow> string" where
  "address_command ns =
     ''ip netns exec '' @ st_name (state ns) @ '' ip addr add '' @ subnet_base (config ns) @ ''/24 dev '' @
     veth_ns (state ns)"

definition ignored_commands :: "network_namespace \<Rightarrow> string list" where
  "ignored_commands ns =
     (let st = state ns in
      [address_command ns,
       ''ip netns exec '' @ st_name st @ '' ip link set '' @ veth_ns st @ '' up'',
       ''ip netns exec '' @ st_name st @ '' ip link set lo up'',
       ''ip netns exec '' @ st_name st @ '' ip route add default via '' @ gateway (config ns),
       ''ip link set '' @ veth_host st @ '' master '' @ bridge (config ns),
       ''ip link set '' @ veth_host st @ '' up''])"

definition assigned_ip :: "netns_config \<Rightarrow> string" where
  "assigned_ip cfg =
     substr0 (subnet_base cfg) (str_rfind (CHR ''.'') (subnet_base cfg)) @ ''.'' @ dec_of_nat (unat (next_ip cfg))"

definition create :: "'w shell \<Rightarrow> network_namespace \<Rightarrow> 'w host \<Rightarrow> bool \<times> network_namespace \<times> 'w host" where
  "create sh ns h =
     (case run_required sh (required_commands ns) h of (ok, h1) \<Rightarrow>
        if \<not> ok then (False, ns, h1)
        else (True, ns\<lparr>state := (state ns)\<lparr>active := True, ip_addr := assigned_ip (config ns)\<rparr>\<rparr>,
              run_ignored sh (ignored_commands ns) h1))"

definition destroy_commands :: "network_namespace \<Rightarrow> string list" where
  "destroy_commands ns =
     [''ip link set '' @ veth_host (state ns) @ '' nomaster'',
      ''ip link delete '' @ veth_host (state ns),
      ''ip netns delete '' @ st_name (state ns)]"

definition destroy :: "'w shell \<Rightarrow> network_namespace \<Rightarrow> 'w host \<Rightarrow> bool \<times> network_namespace \<times> 'w host" where
  "destroy sh ns h =
     (if \<not> active (state ns) then (True, ns, h)
      else (True, ns\<lparr>state := (state ns)\<lparr>active := False\<rparr>\<rparr>, run_ignored sh (destroy_commands ns) h))"

text \<open>The destructor (the descriptor it also closes is never opened).\<close>

definition destruct :: "'w shell \<Rightarrow> network_namespace \<Rightarrow> 'w host \<Rightarrow> 'w host" where
  "destruct sh ns h = (if active (state ns) then snd (snd (destroy sh ns h)) else h)"

definition assign_pid :: "'w shell \<Rightarrow> int \<Rightarrow> network_namespace \<Rightarrow> 'w host \<Rightarrow> bool \<times> 'w host" where
  "assign_pid sh p ns h =
     (if \<not> active (state ns) then (False, h)
      else run_cmd_ok sh (''ip netns exec '' @ st_name (state ns) @ '' nsenter -t '' @ dec_of_int p @ '' -n true'') h)"

definition add_iptables_rule :: "'w shell \<Rightarrow> string \<Rightarrow> network_namespace \<Rightarrow> 'w host \<Rightarrow> bool \<times> 'w host" where
  "add_iptables_rule sh rule ns h =
     (if \<not> active (state ns) then (False, h)
      else run_cmd_ok sh (''ip netns exec '' @ st_name (state ns) @ '' iptables '' @ rule) h)"

definition flush_iptables :: "'w shell \<Rightarrow> network_namespace \<Rightarrow> 'w host \<Rightarrow> bool \<times> 'w host" where
  "flush_iptables sh ns h =
     (if \<not> active (state ns) then (False, h)
      else run_cmd_ok sh (''ip netns exec '' @ st_name (state ns) @ '' iptables -F'') h)"

definition enable_network_for_pid :: "'w shell \<Rightarrow> int \<Rightarrow> network_namespace \<Rightarrow> 'w host \<Rightarrow> bool \<times> 'w host" where
  "enable_network_for_pid sh p ns h = assign_pid sh p ns h"

definition disable_network_for_pid :: "'w shell \<Rightarrow> int \<Rightarrow> 'w host \<Rightarrow> bool \<times> 'w host" where
  "disable_network_for_pid sh p h = run_cmd_ok sh (''nsenter -t '' @ dec_of_int p @ '' -n ip link set lo down'') h"

record net_stats =
  rx_bytes :: u64
  tx_bytes :: u64
  rx_packets :: u64
  tx_packets :: u64
  rx_errors :: u64
  tx_errors :: u64

text \<open>The name passed to \<^verbatim>\<open>ifstream\<close> is a shell command with the counter appended.\<close>

definition stats_file :: "network_namespace \<Rightarrow> string \<Rightarrow> string" where
  "stats_file ns counter =
     ''ip netns exec '' @ st_name (state ns) @ '' cat /sys/class/net/'' @ veth_ns (state ns) @ ''/statistics/'' @ counter"

definition read_stat :: "'w shell \<Rightarrow> network_namespace \<Rightarrow> 'w host \<Rightarrow> string \<Rightarrow> u64" where
  "read_stat sh ns h counter =
     (case sh_file sh (stats_file ns counter) (world h) of None \<Rightarrow> 0 | Some s \<Rightarrow> extract_u64 0 s)"

definition get_stats :: "'w shell \<Rightarrow> network_namespace \<Rightarrow> 'w host \<Rightarrow> net_stats option" where
  "get_stats sh ns h =
     (if \<not> active (state ns) then None
      else Some \<lparr>rx_bytes = read_stat sh ns h ''rx_bytes'', tx_bytes = read_stat sh ns h ''tx_bytes'',
                 rx_packets = read_stat sh ns h ''rx_packets'', tx_packets = read_stat sh ns h ''tx_packets'',
                 rx_errors = read_stat sh ns h ''rx_errors'', tx_errors = read_stat sh ns h ''tx_errors''\<rparr>)"

subsection \<open>The manager\<close>

record network_manager =
  base_config :: netns_config
  namespaces :: "network_namespace umap"
  mgr_next_ip :: u32

definition new_network_manager :: "netns_config \<Rightarrow> network_manager" where
  "new_network_manager cfg = \<lparr>base_config = cfg, namespaces = [], mgr_next_ip = 2\<rparr>"

definition find_namespace :: "network_manager \<Rightarrow> string \<Rightarrow> network_namespace option" where
  "find_namespace mgr i = map_of (namespaces mgr) i"

definition put_namespace :: "string \<Rightarrow> network_namespace \<Rightarrow> network_manager \<Rightarrow> network_manager" where
  "put_namespace i ns mgr = mgr\<lparr>namespaces := AList.update i ns (namespaces mgr)\<rparr>"

definition erase_namespace :: "string \<Rightarrow> network_manager \<Rightarrow> network_manager" where
  "erase_namespace i mgr = mgr\<lparr>namespaces := AList.delete i (namespaces mgr)\<rparr>"

definition init_commands :: "netns_config \<Rightarrow> string list" where
  "init_commands cfg =
     [''ip addr add '' @ gateway cfg @ ''/24 dev '' @ bridge cfg @ '' 2>/dev/null'',
      ''ip link set '' @ bridge cfg @ '' up'',
      ''sysctl -w net.ipv4.ip_forward=1'',
      ''iptables -t nat -A POSTROUTING -s '' @ subnet cfg @ '' -o eth0 -j MASQUERADE'']"

definition init :: "'w shell \<Rightarrow> network_manager \<Rightarrow> 'w host \<Rightarrow> bool \<times> 'w host" where
  "init sh mgr h =
     (let cfg = base_config mgr in
      case run_cmd sh (''ip link show '' @ bridge cfg @ '' 2>/dev/null'') h of (out, h1) \<Rightarrow>
      case (if out = [] then run_cmd_ok sh (''ip link add '' @ bridge cfg @ '' type bridge'') h1 else (True, h1)) of
        (ok, h2) \<Rightarrow> if ok then (True, run_ignored sh (init_commands cfg) h2) else (False, h2))"

text \<open>A namespace that is replaced in the map, or that failed to be created, is destructed.\<close>

definition create_namespace ::
  "'w shell \<Rightarrow> string \<Rightarrow> network_manager \<Rightarrow> 'w host \<Rightarrow> network_namespace option \<times> network_manager \<times> 'w host" where
  "create_namespace sh i mgr h =
     (let cfg = (base_config mgr)\<lparr>ns_name := ''ns-'' @ i, next_ip := mgr_next_ip mgr\<rparr>;
          mgr1 = mgr\<lparr>mgr_next_ip := mgr_next_ip mgr + 1\<rparr> in
      case create sh (new_network_namespace cfg) h of (ok, ns, h1) \<Rightarrow>
        if \<not> ok then (None, mgr1, destruct sh ns h1)
        else (Some ns, put_namespace i ns mgr1,
              case find_namespace mgr i of None \<Rightarrow> h1 | Some old \<Rightarrow> destruct sh old h1))"

definition remove_namespace ::
  "'w shell \<Rightarrow> string \<Rightarrow> network_manager \<Rightarrow> 'w host \<Rightarrow> bool \<times> network_manager \<times> 'w host" where
  "remove_namespace sh i mgr h =
     (case find_namespace mgr i of
        None \<Rightarrow> (False, mgr, h)
      | Some ns \<Rightarrow>
          (case destroy sh ns h of (_, ns1, h1) \<Rightarrow> (True, erase_namespace i mgr, destruct sh ns1 h1)))"

definition destroy_network_manager :: "'w shell \<Rightarrow> network_manager \<Rightarrow> 'w host \<Rightarrow> 'w host" where
  "destroy_network_manager sh mgr h = fold (\<lambda>(i, ns) h. snd (snd (destroy sh ns h))) (namespaces mgr) h"

record net_global_stats =
  total_namespaces :: u64
  active_namespaces :: u64
  total_rx_bytes :: u64
  total_tx_bytes :: u64

definition get_net_global_stats :: "'w shell \<Rightarrow> network_manager \<Rightarrow> 'w host \<Rightarrow> net_global_stats" where
  "get_net_global_stats sh mgr h =
     foldl (\<lambda>g (i, ns).
         if active (state ns) then
           let g1 = g\<lparr>active_namespaces := active_namespaces g + 1\<rparr> in
           (case get_stats sh ns h of
              None \<Rightarrow> g1
            | Some s \<Rightarrow> g1\<lparr>total_rx_bytes := total_rx_bytes g1 + rx_bytes s, total_tx_bytes := total_tx_bytes g1 + tx_bytes s\<rparr>)
         else g)
       \<lparr>total_namespaces = of_nat (length (namespaces mgr)), active_namespaces = 0, total_rx_bytes = 0, total_tx_bytes = 0\<rparr>
       (namespaces mgr)"

subsection \<open>Specification vocabulary\<close>

text \<open>The configuration of the header's defaults, and a shell in which commands with a given text fail.\<close>

definition default_config :: netns_config where
  "default_config =
     \<lparr>ns_name = [], bridge = ''sandbox-br0'', subnet = ''10.100.0.0/24'', next_ip = 2, enable_loopback = True,
      enable_dns = True, dns_servers = [''8.8.8.8'', ''8.8.4.4'']\<rparr>"

definition failing_shell :: "(string \<Rightarrow> bool) \<Rightarrow> unit shell" where
  "failing_shell bad = \<lparr>sh_system = (\<lambda>cmd w. (\<not> bad cmd, w)), sh_popen = (\<lambda>cmd w. ([], w)), sh_file = (\<lambda>f w. None)\<rparr>"

definition quiet_host :: "unit host" where
  "quiet_host = \<lparr>world = (), issued = []\<rparr>"

section \<open>Lemmas\<close>

interpretation nr: registry find_namespace put_namespace erase_namespace "\<lambda>mgr. umap_inv (namespaces mgr)"
  by unfold_locales
    (auto simp: find_namespace_def put_namespace_def erase_namespace_def update_conv delete_conv intro: inv_intros)

lemma issued_run_cmd_ok [simp]: "issued (snd (run_cmd_ok sh cmd h)) = issued h @ [cmd]"
  by (simp add: run_cmd_ok_def split: prod.splits)

lemma issued_run_ignored [simp]: "issued (run_ignored sh cmds h) = issued h @ cmds"
  unfolding run_ignored_def by (induction cmds arbitrary: h) auto

lemma issued_run_required:
  "\<exists>k. issued (snd (run_required sh cmds h)) = issued h @ take k cmds \<and>
     (if fst (run_required sh cmds h) then k = length cmds else 1 \<le> k \<and> k \<le> length cmds)"
proof (induction cmds arbitrary: h)
  case Nil
  then show ?case by simp
next
  case (Cons cmd cmds)
  obtain ok h1 where r: "run_cmd_ok sh cmd h = (ok, h1)" by fastforce
  then have h1: "issued h1 = issued h @ [cmd]" using issued_run_cmd_ok [of sh cmd h] by simp
  show ?case
  proof (cases ok)
    case False
    with r h1 show ?thesis by (intro exI [of _ 1]) simp
  next
    case True
    from Cons [of h1] obtain k where "issued (snd (run_required sh cmds h1)) = issued h1 @ take k cmds \<and>
      (if fst (run_required sh cmds h1) then k = length cmds else 1 \<le> k \<and> k \<le> length cmds)" ..
    with True r h1 show ?thesis by (intro exI [of _ "Suc k"]) (auto split: if_splits)
  qed
qed

text \<open>The outcome of \<open>create\<close>: all commands, or the required ones up to the one that failed.\<close>

lemma create_outcome:
  assumes "create sh ns h = (ok, ns', h')"
  shows "if ok
    then ns' = ns\<lparr>state := (state ns)\<lparr>active := True, ip_addr := assigned_ip (config ns)\<rparr>\<rparr> \<and>
         issued h' = issued h @ required_commands ns @ ignored_commands ns
    else ns' = ns \<and> (\<exists>k \<in> {1..3}. issued h' = issued h @ take k (required_commands ns))"
  using assms issued_run_required [of sh "required_commands ns" h]
  by (auto simp: create_def required_commands_def Let_def split: prod.splits if_splits)

lemma dec_of_nat_inj: "dec_of_nat m = dec_of_nat n \<longleftrightarrow> m = n"
  by (metis dec_value_dec_of_nat)

lemma create_namespace_success:
  assumes "create_namespace sh i mgr h = (Some ns, mgr', h')"
  shows "config ns = (base_config mgr)\<lparr>ns_name := ''ns-'' @ i, next_ip := mgr_next_ip mgr\<rparr>"
    "ip_addr (state ns) = assigned_ip (config ns)" "base_config mgr' = base_config mgr"
    "mgr_next_ip mgr' = mgr_next_ip mgr + 1"
    "''ip netns exec ns-'' @ i @ '' ip addr add '' @ subnet_base (base_config mgr) @ ''/24 dev veth-ns-'' @ i @ ''-ns''
       \<in> set (issued h')"
proof -
  let ?ns = "new_network_namespace ((base_config mgr)\<lparr>ns_name := ''ns-'' @ i, next_ip := mgr_next_ip mgr\<rparr>)"
  obtain ok n h1 where c: "create sh ?ns h = (ok, n, h1)" by (metis prod_cases3)
  note o = create_outcome [OF c]
  from assms c have ok: "ok" "n = ns" and m: "mgr' = put_namespace i ns (mgr\<lparr>mgr_next_ip := mgr_next_ip mgr + 1\<rparr>)"
    and h': "h' = (case find_namespace mgr i of None \<Rightarrow> h1 | Some old \<Rightarrow> destruct sh old h1)"
    by (auto simp: create_namespace_def Let_def split: if_splits)
  show "config ns = (base_config mgr)\<lparr>ns_name := ''ns-'' @ i, next_ip := mgr_next_ip mgr\<rparr>"
    "ip_addr (state ns) = assigned_ip (config ns)"
    using o ok by (auto simp: new_network_namespace_def)
  show "base_config mgr' = base_config mgr" "mgr_next_ip mgr' = mgr_next_ip mgr + 1"
    by (simp_all add: m put_namespace_def)
  have "set (issued h1) \<subseteq> set (issued h')"
    unfolding h' by (auto simp: destruct_def destroy_def split: option.splits)
  moreover have "address_command ?ns \<in> set (issued h1)"
    using o ok by (simp add: ignored_commands_def Let_def)
  ultimately show "''ip netns exec ns-'' @ i @ '' ip addr add '' @ subnet_base (base_config mgr) @ ''/24 dev veth-ns-'' @
      i @ ''-ns'' \<in> set (issued h')"
    by (auto simp: address_command_def new_network_namespace_def subnet_base_def)
qed

section \<open>Properties\<close>

text \<open>
  Every namespace of a manager is given the same address: the command that configures the
  interface uses the base of the subnet, whatever number was drawn, while the state of the
  two namespaces reports two different addresses. For the default subnet the address
  configured is the network address itself.
\<close>

theorem namespaces_share_address:
  assumes "create_namespace sh i mgr h = (Some ns1, mgr1, h1)"
    and "create_namespace sh j mgr1 h1 = (Some ns2, mgr2, h2)"
  shows "''ip netns exec ns-'' @ i @ '' ip addr add '' @ subnet_base (base_config mgr) @ ''/24 dev veth-ns-'' @ i @ ''-ns''
           \<in> set (issued h1) \<and>
         ''ip netns exec ns-'' @ j @ '' ip addr add '' @ subnet_base (base_config mgr) @ ''/24 dev veth-ns-'' @ j @ ''-ns''
           \<in> set (issued h2) \<and>
         ip_addr (state ns1) \<noteq> ip_addr (state ns2)"
  using create_namespace_success [OF assms(1)] create_namespace_success [OF assms(2)]
  by (simp add: assigned_ip_def subnet_base_def dec_of_nat_inj word_unat_eq_iff [symmetric])

theorem namespaces_share_address_witness:
  "case create_namespace (failing_shell (\<lambda>c. False)) ''a'' (new_network_manager default_config) quiet_host of
     (_, mgr, h) \<Rightarrow> (case create_namespace (failing_shell (\<lambda>c. False)) ''b'' mgr h of
       (_, _, h') \<Rightarrow> ''ip netns exec ns-b ip addr add 10.100.0.0/24 dev veth-ns-b-ns'' \<in> set (issued h'))"
proof -
  let ?sh = "failing_shell (\<lambda>c. False)"
  have ok: "fst (run_required ?sh cmds h)" for cmds h
    by (induction cmds arbitrary: h) (auto simp: run_cmd_ok_def failing_shell_def split: prod.splits)
  have c: "\<exists>ns mgr' h'. create_namespace ?sh i mgr h = (Some ns, mgr', h')" for i mgr h
    by (simp add: create_namespace_def create_def Let_def case_prod_unfold ok)
  obtain ns1 mgr1 h1 where r1: "create_namespace ?sh ''a'' (new_network_manager default_config) quiet_host = (Some ns1, mgr1, h1)"
    using c by blast
  obtain ns2 mgr2 h2 where r2: "create_namespace ?sh ''b'' mgr1 h1 = (Some ns2, mgr2, h2)"
    using c by blast
  have "subnet_base (base_config (new_network_manager default_config)) = ''10.100.0.0''"
    by (simp add: subnet_base_def new_network_manager_def default_config_def substr0_def)
  with namespaces_share_address [OF r1 r2] r1 r2 show ?thesis by simp
qed

text \<open>
  A creation that fails half-way leaves what it has made: the commands issued are the
  required ones up to the one that failed, nothing is deleted then or later, the map is
  unchanged, and the number is used up.
\<close>

theorem failed_creation_leaks:
  assumes "create_namespace sh i mgr h = (None, mgr', h')"
  shows "mgr' = mgr\<lparr>mgr_next_ip := mgr_next_ip mgr + 1\<rparr> \<and>
    (\<exists>k. 1 \<le> k \<and> k \<le> 3 \<and> issued h' = issued h @ take k
      [''ip netns add ns-'' @ i,
       ''ip link add veth-ns-'' @ i @ ''-h type veth peer name veth-ns-'' @ i @ ''-ns'',
       ''ip link set veth-ns-'' @ i @ ''-ns netns ns-'' @ i])"
proof -
  let ?ns = "new_network_namespace ((base_config mgr)\<lparr>ns_name := ''ns-'' @ i, next_ip := mgr_next_ip mgr\<rparr>)"
  obtain ok n h1 where c: "create sh ?ns h = (ok, n, h1)" by (metis prod_cases3)
  from assms c have "\<not> ok" "mgr' = mgr\<lparr>mgr_next_ip := mgr_next_ip mgr + 1\<rparr>" "h' = destruct sh n h1"
    by (auto simp: create_namespace_def Let_def split: if_splits)
  with create_outcome [OF c] show ?thesis
    by (auto simp: required_commands_def new_network_namespace_def destruct_def Let_def)
qed

theorem failed_creation_leaks_witness:
  "\<exists>mgr h k. create_namespace (failing_shell (\<lambda>c. starts_with c ''ip link add'')) ''a'' (new_network_manager default_config) quiet_host =
     (None, mgr, h) \<and> mgr_next_ip mgr = 3 \<and> length (issued h) = 2 \<and>
     issued h = take k [''ip netns add ns-a'', ''ip link add veth-ns-a-h type veth peer name veth-ns-a-ns'',
       ''ip link set veth-ns-a-ns netns ns-a'']"
proof -
  let ?sh = "failing_shell (\<lambda>c. starts_with c ''ip link add'')"
  obtain mgr h where r: "create_namespace ?sh ''a'' (new_network_manager default_config) quiet_host = (None, mgr, h)"
    and len: "length (issued h) = 2"
    by (simp add: create_namespace_def create_def Let_def required_commands_def new_network_namespace_def
        run_cmd_ok_def failing_shell_def starts_with_def quiet_host_def destruct_def)
  show ?thesis
    using failed_creation_leaks [OF r] r len by (auto simp: new_network_manager_def quiet_host_def)
qed

end
