(* ===== verification/Wait_Status.thy ===== *)
theory Wait_Status
  imports Prelude
begin

section \<open>Wait status words\<close>

text \<open>
  The macros of \<^verbatim>\<open><sys/wait.h>\<close> on the 32-bit status that \<^verbatim>\<open>waitpid\<close> stores: the low seven bits
  are the signal that ended the process, zero if it exited, and the next byte is the exit code.
\<close>

unbundle bit_operations_syntax

definition WEXITSTATUS :: "i32 \<Rightarrow> i32" where
  "WEXITSTATUS st = drop_bit 8 (st AND 0xff00)"

definition WTERMSIG :: "i32 \<Rightarrow> i32" where
  "WTERMSIG st = st AND 0x7f"

definition WIFEXITED :: "i32 \<Rightarrow> bool" where
  "WIFEXITED st = (WTERMSIG st = 0)"

text \<open>\<^verbatim>\<open>((signed char) ((status & 0x7f) + 1) >> 1) > 0\<close>\<close>

definition WIFSIGNALED :: "i32 \<Rightarrow> bool" where
  "WIFSIGNALED st =
     (let t = uint (WTERMSIG st) + 1; c = (if 128 \<le> t then t - 256 else t) in 0 < c div 2)"

lemma drop_and_mask: "drop_bit k (st AND push_bit k (mask n)) = take_bit n (drop_bit k (st :: i32))"
  by (rule bit_word_eqI) (auto simp: bit_simps dest: bit_imp_le_length)

lemma WEXITSTATUS_take_bit: "WEXITSTATUS st = take_bit 8 (drop_bit 8 st)"
proof -
  have "(0xff00 :: i32) = push_bit 8 (mask 8)" by (simp add: mask_eq_exp_minus_1)
  then show ?thesis unfolding WEXITSTATUS_def by (simp only: drop_and_mask)
qed

lemma WEXITSTATUS_twice: "WEXITSTATUS (WEXITSTATUS st) = 0"
  unfolding WEXITSTATUS_take_bit by (rule bit_word_eqI) (auto simp: bit_simps)

lemma uint_take_bit_bound: "uint (take_bit n (w :: i32)) < 2 ^ n"
  by (simp add: unsigned_take_bit_eq)

lemma WEXITSTATUS_range: "0 \<le> uint (WEXITSTATUS st) \<and> uint (WEXITSTATUS st) < 256"
  using uint_take_bit_bound [of 8 "drop_bit 8 st"] by (simp add: WEXITSTATUS_take_bit)

lemma WTERMSIG_range: "0 \<le> uint (WTERMSIG st) \<and> uint (WTERMSIG st) < 128"
proof -
  have "WTERMSIG st = take_bit 7 st" by (simp add: WTERMSIG_def take_bit_eq_mask mask_eq_exp_minus_1)
  then show ?thesis using uint_take_bit_bound [of 7 st] by simp
qed

lemma WIFSIGNALED_iff: "WIFSIGNALED st \<longleftrightarrow> 1 \<le> uint (WTERMSIG st) \<and> uint (WTERMSIG st) \<le> 126"
  using WTERMSIG_range [of st] by (auto simp: WIFSIGNALED_def Let_def)

end
