(* ===== verification/Sandbox_Exec.thy ===== *)
theory Sandbox_Exec
  imports Wait_Status
begin

section \<open>Running a command in a sandbox\<close>

text \<open>
  \<^verbatim>\<open>sandbox/src/sandbox.cpp\<close>, \<^verbatim>\<open>seccomp.cpp\<close> and \<^verbatim>\<open>cgroup.cpp\<close> with their headers (the Linux
  build). What the kernel answers to one run is the record \<open>kernel\<close>; what the parent does to it is
  the list of \<open>parent_call\<close>s, and what the child does before the program starts the list of
  \<open>child_call\<close>s, in order. A filter is the list of the system calls it allows; everything else
  kills the process. The memory of the child's stack is not modelled.
\<close>

subsection \<open>Control groups\<close>

record cgroup_config =
  cg_path :: string
  cg_memory_limit_bytes :: u64
  cg_cpu_quota_us :: u32
  cg_cpu_period_us :: u32
  cg_pids_limit :: u32

record cgroup =
  cg_config :: cgroup_config
  created :: bool

datatype file_call = Write_file string string | Rmdir_path string

definition new_cgroup :: "cgroup_config \<Rightarrow> cgroup" where
  "new_cgroup cfg = \<lparr>cg_config = cfg, created = False\<rparr>"

definition cgroup_base :: "string \<Rightarrow> string" where
  "cgroup_base path = ''/sys/fs/cgroup'' @ path"

definition cgroup_create :: "bool \<Rightarrow> cgroup \<Rightarrow> bool \<times> file_call list \<times> cgroup" where
  "cgroup_create mkdir_ok cg =
     (let cfg = cg_config cg; base = cgroup_base (cg_path cfg) in
      if \<not> mkdir_ok then (False, [], cg)
      else (True,
        [Write_file (base @ ''/memory.max'') (dec_of_nat (unat (cg_memory_limit_bytes cfg))),
         Write_file (base @ ''/cpu.max'')
           (dec_of_nat (unat (cg_cpu_quota_us cfg)) @ '' '' @ dec_of_nat (unat (cg_cpu_period_us cfg))),
         Write_file (base @ ''/pids.max'') (dec_of_nat (unat (cg_pids_limit cfg)))],
        cg\<lparr>created := True\<rparr>))"

definition cgroup_add_pid :: "bool \<Rightarrow> int \<Rightarrow> cgroup \<Rightarrow> bool \<times> file_call list" where
  "cgroup_add_pid open_ok p cg =
     (if \<not> created cg then (False, [])
      else if \<not> open_ok then (False, [])
      else (True, [Write_file (cgroup_base (cg_path (cg_config cg)) @ ''/cgroup.procs'') (dec_of_int p)]))"

definition cgroup_destroy :: "cgroup \<Rightarrow> bool \<times> file_call list \<times> cgroup" where
  "cgroup_destroy cg =
     (if \<not> created cg then (True, [], cg)
      else (True, [Rmdir_path (cgroup_base (cg_path (cg_config cg)))], cg\<lparr>created := False\<rparr>))"

subsection \<open>The system call filter\<close>

text \<open>The rules of \<^verbatim>\<open>Seccomp::install_default_filter\<close>, in order.\<close>

definition default_rules :: "string list" where
  "default_rules =
     [''read'', ''write'', ''exit'', ''exit_group'', ''brk'', ''mmap'', ''munmap'', ''close'', ''fstat'',
      ''clock_gettime'', ''rt_sigaction'', ''rt_sigprocmask'', ''clone'', ''execve'', ''wait4'', ''dup2'', ''fcntl'']"

text \<open>The result, and the filter the process has afterwards (\<open>None\<close> for no filter).\<close>

definition install_default_filter :: "bool \<Rightarrow> int \<Rightarrow> bool \<times> string list option" where
  "install_default_filter init_ok load_rc =
     (if \<not> init_ok then (False, None)
      else (load_rc = 0, if load_rc = 0 then Some default_rules else None))"

definition permitted :: "string list option \<Rightarrow> string \<Rightarrow> bool" where
  "permitted flt sc = (case flt of None \<Rightarrow> True | Some rules \<Rightarrow> sc \<in> set rules)"

subsection \<open>The child\<close>

record sandbox_config =
  id :: string
  rootfs :: string
  memory_limit_bytes :: u64
  cpu_quota_us :: u32
  cpu_period_us :: u32
  pids_limit :: u32
  enable_network :: bool
  enable_seccomp :: bool

definition default_sandbox_config :: sandbox_config where
  "default_sandbox_config =
     \<lparr>id = [], rootfs = ''/'', memory_limit_bytes = 256 * 1024 * 1024, cpu_quota_us = 100000,
      cpu_period_us = 100000, pids_limit = 64, enable_network = False, enable_seccomp = True\<rparr>"

record child_args =
  config :: sandbox_config
  args_cgroup_path :: string
  pipe_fd :: int

datatype child_call =
    Mkdir string | Write string string | Load_filter "string list"
  | Dup2 int int | Close_child int | Exec "string list" | Exit_child int

text \<open>The rules of \<^verbatim>\<open>child_entry\<close>, in order.\<close>

definition child_rules :: "string list" where
  "child_rules =
     [''read'', ''write'', ''exit'', ''exit_group'', ''brk'', ''mmap'', ''munmap'', ''close'', ''fstat'',
      ''clock_gettime'', ''rt_sigaction'', ''rt_sigprocmask'', ''clone'', ''execve'', ''wait4'', ''dup2'', ''fcntl'']"

definition child_cgroup :: "int \<Rightarrow> child_args \<Rightarrow> child_call list" where
  "child_cgroup self a =
     (let base = cgroup_base (args_cgroup_path a); cfg = config a in
      [Mkdir base,
       Write (base @ ''/memory.max'') (dec_of_nat (unat (memory_limit_bytes cfg))),
       Write (base @ ''/cpu.max'') (dec_of_nat (unat (cpu_quota_us cfg)) @ '' '' @ dec_of_nat (unat (cpu_period_us cfg))),
       Write (base @ ''/pids.max'') (dec_of_nat (unat (pids_limit cfg))),
       Write (base @ ''/cgroup.procs'') (dec_of_int self)])"

text \<open>
  \<open>init_ok\<close> and \<open>load_rc\<close> are the answers of libseccomp; the code does not look at the second.
  \<open>exec_ok\<close> says whether the shell could be started.
\<close>

definition child_entry :: "int \<Rightarrow> bool \<Rightarrow> int \<Rightarrow> bool \<Rightarrow> child_args \<Rightarrow> child_call list" where
  "child_entry self init_ok load_rc exec_ok a =
     child_cgroup self a @
     (if enable_seccomp (config a) \<and> init_ok \<and> load_rc = 0 then [Load_filter child_rules] else []) @
     [Dup2 (pipe_fd a) 1, Dup2 (pipe_fd a) 2, Close_child (pipe_fd a),
      Exec [''/bin/sh'', ''sh'', ''-c'', rootfs (config a)]] @
     (if exec_ok then [] else [Exit_child 127])"

subsection \<open>The parent\<close>

record sandbox =
  sb_config :: sandbox_config
  cgroup_path :: string
  child_pid :: int
  pipe_read :: int
  pipe_write :: int

definition new_sandbox :: "sandbox_config \<Rightarrow> sandbox" where
  "new_sandbox cfg = \<lparr>sb_config = cfg, cgroup_path = [], child_pid = - 1, pipe_read = - 1, pipe_write = - 1\<rparr>"

record exec_result =
  exit_code :: int
  duration_ms :: int
  out_text :: string
  err_text :: string

datatype clone_flag = CLONE_NEWPID | CLONE_NEWNET | SIGCHLD

datatype parent_call = Clone "clone_flag list" child_args | Close int | Rmdir string

record kernel =
  k_pipe :: "(int \<times> int) option"
  k_clone :: int
  k_error :: string
  k_reads :: "string list"
  k_status :: i32
  k_elapsed :: int

definition cleanup :: "sandbox \<Rightarrow> parent_call list \<times> sandbox" where
  "cleanup sb =
     ((if 1 < length (cgroup_path sb) then [Rmdir (cgroup_base (cgroup_path sb))] else []) @
      (if 0 \<le> pipe_read sb then [Close (pipe_read sb)] else []) @
      (if 0 \<le> pipe_write sb then [Close (pipe_write sb)] else []),
      sb\<lparr>pipe_read := - 1, pipe_write := - 1\<rparr>)"

definition setup_cgroup :: "sandbox \<Rightarrow> sandbox" where
  "setup_cgroup sb = sb\<lparr>cgroup_path := ''/devops-'' @ id (sb_config sb)\<rparr>"

definition exit_code_of :: "i32 \<Rightarrow> int" where
  "exit_code_of st =
     (if WIFEXITED st then uint (WEXITSTATUS st)
      else if WIFSIGNALED st then 128 + uint (WTERMSIG st)
      else - 1)"

text \<open>
  \<open>run\<close> returns the result, the calls of \<^verbatim>\<open>output_fn\<close>, the system calls and the sandbox. The
  pieces \<^verbatim>\<open>read\<close> delivers are \<open>k_reads\<close>, none of them empty.
\<close>

definition run ::
  "kernel \<Rightarrow> string \<Rightarrow> bool \<Rightarrow> sandbox \<Rightarrow> exec_result \<times> string list \<times> parent_call list \<times> sandbox" where
  "run k command has_output_fn sb =
     (let sb1 = setup_cgroup sb;
          failed = (\<lambda>msg. \<lparr>exit_code = - 1, duration_ms = 0, out_text = [], err_text = msg\<rparr>) in
      case k_pipe k of
        None \<Rightarrow> (failed ''pipe() failed'', [], [], sb1)
      | Some (r, w) \<Rightarrow>
          let sb2 = sb1\<lparr>pipe_read := r, pipe_write := w\<rparr>;
              a = \<lparr>config = (sb_config sb2)\<lparr>rootfs := command\<rparr>, args_cgroup_path = cgroup_path sb2, pipe_fd = w\<rparr>;
              flags = [CLONE_NEWPID, SIGCHLD] @ (if enable_network (sb_config sb2) then [] else [CLONE_NEWNET]);
              sb3 = sb2\<lparr>child_pid := k_clone k\<rparr> in
          if k_clone k < 0 then
            (case cleanup sb3 of (calls, sb4) \<Rightarrow>
               (failed (''clone() failed: '' @ k_error k), [], Clone flags a # calls, sb4))
          else
            (case cleanup (sb3\<lparr>pipe_write := - 1\<rparr>) of (calls, sb4) \<Rightarrow>
               (\<lparr>exit_code = exit_code_of (k_status k), duration_ms = k_elapsed k, out_text = concat (k_reads k), err_text = []\<rparr>,
                if has_output_fn then k_reads k else [], [Clone flags a, Close w] @ calls, sb4)))"

subsection \<open>Specification vocabulary\<close>

definition closed :: "parent_call list \<Rightarrow> int list" where
  "closed calls = concat (map (\<lambda>c. case c of Close fd \<Rightarrow> [fd] | _ \<Rightarrow> []) calls)"

definition syscall_of :: "child_call \<Rightarrow> string" where
  "syscall_of c = (case c of Mkdir _ \<Rightarrow> ''mkdir'' | Write _ _ \<Rightarrow> ''openat'' | Load_filter _ \<Rightarrow> ''seccomp''
     | Dup2 _ _ \<Rightarrow> ''dup2'' | Close_child _ \<Rightarrow> ''close'' | Exec _ \<Rightarrow> ''execve'' | Exit_child _ \<Rightarrow> ''exit_group'')"

text \<open>The filter in force after a sequence of calls, and whether each call was permitted when it was made.\<close>

fun filter_after :: "string list option \<Rightarrow> child_call list \<Rightarrow> string list option" where
  "filter_after flt [] = flt"
| "filter_after flt (c # cs) = filter_after (case c of Load_filter rs \<Rightarrow> Some rs | _ \<Rightarrow> flt) cs"

fun all_permitted :: "string list option \<Rightarrow> child_call list \<Rightarrow> bool" where
  "all_permitted flt [] = True"
| "all_permitted flt (c # cs) =
     (permitted flt (syscall_of c) \<and> all_permitted (case c of Load_filter rs \<Rightarrow> Some rs | _ \<Rightarrow> flt) cs)"

text \<open>
  How a child ends, the status word the kernel stores for it (the exit code in the second byte; or the signal in the low
  seven bits, with bit 7 for a core dump; or 127 and the signal in the second byte), and what the sandbox should report.
\<close>

datatype child_end = Exited u8 | Signalled nat bool | Stopped u8

fun end_ok :: "child_end \<Rightarrow> bool" where
  "end_ok (Signalled s core) = (1 \<le> s \<and> s \<le> 126)"
| "end_ok e = True"

fun status_word :: "child_end \<Rightarrow> i32" where
  "status_word (Exited c) = push_bit 8 (ucast c)"
| "status_word (Signalled s core) = of_nat s OR (if core then 0x80 else 0)"
| "status_word (Stopped s) = push_bit 8 (ucast s) OR 0x7f"

fun reported :: "child_end \<Rightarrow> int" where
  "reported (Exited c) = uint c"
| "reported (Signalled s core) = 128 + int s"
| "reported (Stopped s) = - 1"

definition demo_kernel :: kernel where
  "demo_kernel = \<lparr>k_pipe = Some (5, 6), k_clone = 77, k_error = [], k_reads = [''hello ''], k_status = 9, k_elapsed = 12\<rparr>"

section \<open>Lemmas\<close>

lemma exit_code_range: "- 1 \<le> exit_code_of st \<and> exit_code_of st \<le> 255"
proof -
  have lo: "- 1 \<le> uint (WEXITSTATUS st)" "- 1 \<le> 128 + uint (WTERMSIG st)"
    by (rule order_trans [of _ 0], simp_all)+
  have hi: "uint (WEXITSTATUS st) \<le> 255" "WIFSIGNALED st \<Longrightarrow> 128 + uint (WTERMSIG st) \<le> 255"
    using WEXITSTATUS_range [of st] by (simp_all add: WIFSIGNALED_iff)
  show ?thesis unfolding exit_code_of_def using lo hi by (simp only: split: if_split) simp
qed

lemma WTERMSIG_take_bit: "WTERMSIG st = take_bit 7 st"
  by (simp add: WTERMSIG_def take_bit_eq_mask mask_eq_exp_minus_1)

lemma exit_code_exited: "exit_code_of (status_word (Exited c)) = uint c"
proof -
  let ?w = "status_word (Exited c)"
  have "WTERMSIG ?w = 0"
    unfolding WTERMSIG_take_bit by (rule bit_word_eqI) (auto simp: bit_simps)
  moreover have "WEXITSTATUS ?w = ucast c"
    unfolding WEXITSTATUS_take_bit by (rule bit_word_eqI) (auto simp: bit_simps dest: bit_imp_le_length)
  moreover have "uint (ucast c :: i32) = uint c" by (simp add: uint_up_ucast is_up)
  ultimately show ?thesis by (simp add: exit_code_of_def WIFEXITED_def del: status_word.simps)
qed

lemma exit_code_signalled:
  assumes "1 \<le> s" "s \<le> 126" shows "exit_code_of (status_word (Signalled s core)) = 128 + int s"
proof -
  have "WTERMSIG (status_word (Signalled s core)) = take_bit 7 (of_nat s)"
    unfolding WTERMSIG_take_bit by (simp add: take_bit_or)
  also have "\<dots> = (of_nat s :: i32)"
    using assms(2) by (simp add: take_bit_of_nat take_bit_nat_eq_self)
  finally have t: "uint (WTERMSIG (status_word (Signalled s core))) = int s"
    using assms(2) by (simp add: unsigned_of_nat take_bit_nat_eq_self)
  then have "\<not> WIFEXITED (status_word (Signalled s core))" "WIFSIGNALED (status_word (Signalled s core))"
    using assms unfolding WIFSIGNALED_iff by (auto simp: WIFEXITED_def simp del: status_word.simps)
  then show ?thesis using t by (simp add: exit_code_of_def del: status_word.simps)
qed

lemma exit_code_stopped: "exit_code_of (status_word (Stopped s)) = - 1"
proof -
  have "take_bit 7 (push_bit 8 (ucast s) :: i32) = 0" by (rule bit_word_eqI) (auto simp: bit_simps)
  then have "WTERMSIG (status_word (Stopped s)) = 0x7f"
    unfolding WTERMSIG_take_bit by (simp add: take_bit_or)
  then show ?thesis by (simp add: exit_code_of_def WIFEXITED_def WIFSIGNALED_iff del: status_word.simps)
qed

lemma exit_code_reported: "end_ok e \<Longrightarrow> exit_code_of (status_word e) = reported e"
  by (cases e) (simp_all add: exit_code_exited exit_code_signalled exit_code_stopped del: status_word.simps)

lemma reported_zero: "end_ok e \<Longrightarrow> reported e = 0 \<longleftrightarrow> e = Exited 0"
  by (cases e) (auto simp: uint_0_iff)

text \<open>The control group a child sets up for itself is the one \<^verbatim>\<open>Cgroup\<close> would create.\<close>

lemma child_cgroup_agrees:
  "child_cgroup self a =
     Mkdir (cgroup_base (args_cgroup_path a)) #
     map (\<lambda>c. case c of Write_file p t \<Rightarrow> Write p t | Rmdir_path p \<Rightarrow> Mkdir p)
       (fst (snd (cgroup_create True (new_cgroup
          \<lparr>cg_path = args_cgroup_path a, cg_memory_limit_bytes = memory_limit_bytes (config a),
           cg_cpu_quota_us = cpu_quota_us (config a), cg_cpu_period_us = cpu_period_us (config a),
           cg_pids_limit = pids_limit (config a)\<rparr>)))) @
     [Write (cgroup_base (args_cgroup_path a) @ ''/cgroup.procs'') (dec_of_int self)]"
  by (simp add: child_cgroup_def cgroup_create_def new_cgroup_def Let_def)

section \<open>Properties\<close>



text \<open>
  C37. Confinement of the child. Its filter has the rules of the stand-alone installer. Once
  the filter is loaded, everything the child itself still does is permitted, up to starting
  the shell; but nothing that opens a file or changes the protection of memory is, so a
  program that needs a shared library is killed. And if the filter cannot be set up, the
  shell is started all the same, with no filter at all.
\<close>

theorem child_confinement:
  "child_rules = default_rules \<and>
   all_permitted None (child_entry self init_ok load_rc exec_ok a) \<and>
   Exec [''/bin/sh'', ''sh'', ''-c'', rootfs (config a)] \<in> set (child_entry self init_ok load_rc exec_ok a) \<and>
   filter_after None (child_entry self init_ok load_rc exec_ok a) =
     (if enable_seccomp (config a) then snd (install_default_filter init_ok load_rc) else None) \<and>
   list_all (\<lambda>sc. \<not> permitted (Some default_rules) sc)
     [''open'', ''openat'', ''mprotect'', ''access'', ''arch_prctl'', ''pread64'', ''stat'']"
proof -
  have eq: "child_rules = default_rules" by (simp add: child_rules_def default_rules_def)
  have mem: "''dup2'' \<in> set default_rules" "''close'' \<in> set default_rules" "''execve'' \<in> set default_rules"
    "''exit_group'' \<in> set default_rules"
    by (simp_all add: default_rules_def)
  have out: "list_all (\<lambda>sc. \<not> permitted (Some default_rules) sc)
     [''open'', ''openat'', ''mprotect'', ''access'', ''arch_prctl'', ''pread64'', ''stat'']"
    by (simp add: permitted_def default_rules_def)
  have "all_permitted None (child_entry self init_ok load_rc exec_ok a)"
    by (simp add: child_entry_def child_cgroup_def Let_def permitted_def syscall_of_def eq mem)
  moreover have "filter_after None (child_entry self init_ok load_rc exec_ok a) =
     (if enable_seccomp (config a) then snd (install_default_filter init_ok load_rc) else None)"
    by (simp add: child_entry_def child_cgroup_def Let_def install_default_filter_def eq)
  moreover have "Exec [''/bin/sh'', ''sh'', ''-c'', rootfs (config a)] \<in> set (child_entry self init_ok load_rc exec_ok a)"
    by (simp add: child_entry_def)
  ultimately show ?thesis using eq out by blast
qed

end
