(* ===== verification/Process_Supervisor.thy ===== *)
theory Process_Supervisor
  imports Containers Wait_Status
begin

section \<open>Process supervision\<close>

text \<open>
  \<^verbatim>\<open>sandbox/src/process_supervisor.cpp\<close> and its header. The supervisor is a record with the map of
  entries; what an operation does outside it (signals, events) is the list of \<open>sup_effect\<close> it
  returns. The results of \<^verbatim>\<open>fork\<close>, \<^verbatim>\<open>waitpid\<close>, the clock and the \<^verbatim>\<open>/proc\<close> file are arguments.
  Threads have numbers: a \<^verbatim>\<open>std::thread\<close> member is \<open>Some t\<close> while it is joinable, joining oneself
  throws, and a joinable thread object that is destroyed ends the program. \<open>held\<close> says whether
  the caller already holds \<^verbatim>\<open>processes_mutex_\<close>, which is not recursive. The loop of
  \<^verbatim>\<open>stop\<close> runs beside the monitor thread; their interleavings are the step relation \<open>race_step\<close>.
\<close>

datatype restart_policy = NEVER | ON_FAILURE | ALWAYS

record process_config =
  name :: string
  command :: string
  args :: "string list"
  working_dir :: string
  environment :: "(string \<times> string) list"
  restart_policy :: restart_policy
  max_restarts :: u32
  restart_delay_ms :: u32
  memory_limit_bytes :: u64
  cpu_percent :: u32
  timeout_seconds :: u32
  enable_health_check :: bool
  health_check_interval_ms :: u32
  health_check_command :: string

datatype proc_status = STOPPED | STARTING | RUNNING | RESTARTING | FAILED

record process_state =
  status :: proc_status
  pid :: i32
  exit_code :: i32
  start_time :: u64
  restart_count :: u64
  last_error :: string
  cpu_time_ms :: u64
  memory_bytes :: u64

definition initial_state :: process_state where
  "initial_state =
     \<lparr>status = STOPPED, pid = - 1, exit_code = 0, start_time = 0, restart_count = 0,
      last_error = [], cpu_time_ms = 0, memory_bytes = 0\<rparr>"

datatype event_type = Ev_STARTED | Ev_STOPPED | Ev_CRASHED | Ev_RESTARTED | Ev_HEALTH_CHECK_FAILED

record process_event =
  ev_type :: event_type
  process_name :: string
  ev_pid :: i32
  ev_exit_code :: i32
  ev_timestamp :: u64
  message :: string

datatype signal = SIGTERM | SIGKILL

datatype sup_effect = Kill i32 signal | Event process_event

record process_entry =
  config :: process_config
  state :: process_state
  monitor_thread :: "nat option"
  running :: bool
  logs :: "string list"

record supervisor =
  processes :: "process_entry umap"
  has_callback :: bool
  watchdog_running :: bool
  watchdog_thread :: bool
  next_thread :: nat

definition new_supervisor :: supervisor where
  "new_supervisor =
     \<lparr>processes = [], has_callback = False, watchdog_running = False, watchdog_thread = False,
      next_thread = 1\<rparr>"

definition on_event :: "supervisor \<Rightarrow> supervisor" where
  "on_event s = s\<lparr>has_callback := True\<rparr>"

definition emit_event ::
  "event_type \<Rightarrow> string \<Rightarrow> i32 \<Rightarrow> i32 \<Rightarrow> string \<Rightarrow> u64 \<Rightarrow> supervisor \<Rightarrow> sup_effect list" where
  "emit_event ty nm p code msg now s =
     (if has_callback s
      then [Event \<lparr>ev_type = ty, process_name = nm, ev_pid = p, ev_exit_code = code,
                   ev_timestamp = now, message = msg\<rparr>]
      else [])"

subsection \<open>The map of processes\<close>

definition find_process :: "supervisor \<Rightarrow> string \<Rightarrow> process_entry option" where
  "find_process s nm = map_of (processes s) nm"

definition put_process :: "string \<Rightarrow> process_entry \<Rightarrow> supervisor \<Rightarrow> supervisor" where
  "put_process nm e s = s\<lparr>processes := AList.update nm e (processes s)\<rparr>"

definition erase_process :: "string \<Rightarrow> supervisor \<Rightarrow> supervisor" where
  "erase_process nm s = s\<lparr>processes := AList.delete nm (processes s)\<rparr>"

definition with_lock :: "bool \<Rightarrow> 'a res \<Rightarrow> 'a res" where
  "with_lock held act = (if held then Inl Mutex_misuse else act)"

definition add_process :: "process_config \<Rightarrow> supervisor \<Rightarrow> bool \<times> supervisor" where
  "add_process cfg s =
     (if find_process s (name cfg) \<noteq> None then (False, s)
      else (True, put_process (name cfg)
              \<lparr>config = cfg, state = initial_state\<lparr>status := STOPPED\<rparr>, monitor_thread = None,
               running = False, logs = []\<rparr> s))"

subsection \<open>Starting\<close>

datatype child_action =
    Chdir string | Setenv string string | Setrlimit_AS u64 | Setrlimit_NPROC u64
  | Execvp string "string list" | Exit_127

text \<open>What the child does between \<^verbatim>\<open>fork\<close> and the program, in order.\<close>

definition child_actions :: "process_config \<Rightarrow> child_action list" where
  "child_actions cfg =
     (if working_dir cfg \<noteq> [] then [Chdir (working_dir cfg)] else []) @
     map (\<lambda>(k, v). Setenv k v) (environment cfg) @
     [Setrlimit_AS (memory_limit_bytes cfg), Setrlimit_NPROC 1,
      Execvp (command cfg) (command cfg # args cfg), Exit_127]"

datatype fork_result = Fork_error string | Forked i32

definition join_thread :: "nat \<Rightarrow> nat option \<Rightarrow> unit res" where
  "join_thread me th = (case th of None \<Rightarrow> Inr () | Some t \<Rightarrow> if t = me then Inl System_error else Inr ())"

text \<open>
  \<open>me\<close> is the thread that executes the call. The entry is looked up with \<^verbatim>\<open>operator[]\<close>, which
  gives a null pointer for an unknown name.
\<close>

definition spawn_process ::
  "nat \<Rightarrow> fork_result \<Rightarrow> u64 \<Rightarrow> string \<Rightarrow> supervisor \<Rightarrow> (bool \<times> sup_effect list \<times> supervisor) res" where
  "spawn_process me fk now nm s =
     (case find_process s nm of
        None \<Rightarrow> Inl Out_of_bounds
      | Some e \<Rightarrow>
          let e1 = e\<lparr>state := (state e)\<lparr>status := STARTING, restart_count := 0\<rparr>\<rparr> in
          (case fk of
             Fork_error msg \<Rightarrow>
               Inr (False, [], put_process nm (e1\<lparr>state := (state e1)\<lparr>status := FAILED, last_error := msg\<rparr>\<rparr>) s)
           | Forked p \<Rightarrow>
               let e2 = e1\<lparr>state := (state e1)\<lparr>pid := p, status := RUNNING, start_time := now\<rparr>, running := True\<rparr> in
               res_bind (join_thread me (monitor_thread e2)) (\<lambda>_.
                 let s1 = (put_process nm (e2\<lparr>monitor_thread := Some (next_thread s)\<rparr>) s)
                            \<lparr>next_thread := next_thread s + 1\<rparr> in
                 Inr (True, emit_event Ev_STARTED nm p 0 [] now s1, s1))))"

definition start ::
  "bool \<Rightarrow> nat \<Rightarrow> fork_result \<Rightarrow> u64 \<Rightarrow> string \<Rightarrow> supervisor \<Rightarrow> (bool \<times> sup_effect list \<times> supervisor) res" where
  "start held me fk now nm s = with_lock held
     (case find_process s nm of
        None \<Rightarrow> Inr (False, [], s)
      | Some e \<Rightarrow> if status (state e) = RUNNING then Inr (False, [], s) else spawn_process me fk now nm s)"

subsection \<open>Exits\<close>

definition handle_exit ::
  "nat \<Rightarrow> fork_result \<Rightarrow> u64 \<Rightarrow> string \<Rightarrow> i32 \<Rightarrow> supervisor \<Rightarrow> (sup_effect list \<times> supervisor) res" where
  "handle_exit me fk now nm st s =
     (case find_process s nm of
        None \<Rightarrow> Inl Out_of_bounds
      | Some e \<Rightarrow>
          let code = WEXITSTATUS st;
              e1 = e\<lparr>running := False, state := (state e)\<lparr>exit_code := code, status := STOPPED\<rparr>\<rparr>;
              success = (code = 0);
              ev = emit_event (if success then Ev_STOPPED else Ev_CRASHED) nm (pid (state e)) code [] now s in
          if \<not> success \<and> restart_policy (config e) \<noteq> NEVER then
            if restart_count (state e) < ucast (max_restarts (config e)) then
              let n = restart_count (state e) + 1;
                  e2 = e1\<lparr>state := (state e1)\<lparr>restart_count := n, status := RESTARTING\<rparr>\<rparr>;
                  s2 = put_process nm e2 s;
                  ev2 = emit_event Ev_RESTARTED nm (- 1) 0 (''Restart attempt '' @ dec_of_nat (unat n)) now s2 in
              res_bind (spawn_process me fk now nm s2) (\<lambda>(_, ev3, s3). Inr (ev @ ev2 @ ev3, s3))
            else
              Inr (ev, put_process nm
                (e1\<lparr>state := (state e1)\<lparr>status := FAILED,
                   last_error := ''Exceeded max restarts ('' @ dec_of_nat (unat (max_restarts (config e))) @ '')''\<rparr>\<rparr>) s)
          else Inr (ev, put_process nm e1 s))"

subsection \<open>The monitor thread\<close>

text \<open>The memory use in the lines of \<^verbatim>\<open>/proc/<pid>/status\<close>; each matching line overwrites it.\<close>

definition read_status_line :: "u64 \<Rightarrow> string \<Rightarrow> u64" where
  "read_status_line mem line =
     (if take 6 line = ''VmRSS:'' then extract_u64 mem (drop 6 line) * 1024 else mem)"

definition read_status :: "string list option \<Rightarrow> u64 \<Rightarrow> u64" where
  "read_status file mem = (case file of None \<Rightarrow> mem | Some ls \<Rightarrow> foldl read_status_line mem ls)"

datatype mon_pc = M_head | M_body | M_sleep | M_done

text \<open>
  One turn of the loop after the test of \<^verbatim>\<open>running\<close>: \<open>wait\<close> is what \<^verbatim>\<open>waitpid\<close> returned and
  stored. \<^verbatim>\<open>timeout_seconds * 1000\<close> is computed in 32 bits.
\<close>

definition monitor_body ::
  "nat \<Rightarrow> int \<times> i32 \<Rightarrow> u64 \<Rightarrow> string list option \<Rightarrow> fork_result \<Rightarrow> string \<Rightarrow> supervisor \<Rightarrow>
   (mon_pc \<times> sup_effect list \<times> supervisor) res" where
  "monitor_body me wait now file fk nm s =
     (case find_process s nm of
        None \<Rightarrow> Inl Out_of_bounds
      | Some e \<Rightarrow>
          if 0 < fst wait then
            res_bind (handle_exit me fk now nm (snd wait) s) (\<lambda>(ev, s'). Inr (M_done, ev, s'))
          else
            let uptime = now - start_time (state e) in
            if 0 < timeout_seconds (config e) \<and> ucast (timeout_seconds (config e) * 1000) < uptime then
              Inr (M_done, [Kill (pid (state e)) SIGKILL], s)
            else
              Inr (M_sleep, [], put_process nm
                (e\<lparr>state := (state e)\<lparr>memory_bytes := read_status file (memory_bytes (state e))\<rparr>\<rparr>) s))"

subsection \<open>Stopping\<close>

text \<open>The part of \<^verbatim>\<open>stop\<close> before its loop.\<close>

definition stop_begin :: "string \<Rightarrow> supervisor \<Rightarrow> (sup_effect list \<times> supervisor) option" where
  "stop_begin nm s =
     (case find_process s nm of
        None \<Rightarrow> None
      | Some e \<Rightarrow>
          if status (state e) \<noteq> RUNNING then None
          else Some ([Kill (pid (state e)) SIGTERM], put_process nm (e\<lparr>running := False\<rparr>) s))"

text \<open>One turn of the loop; \<open>None\<close> when it sleeps and goes round again.\<close>

definition stop_turn :: "u32 \<Rightarrow> int \<Rightarrow> process_entry \<Rightarrow> sup_effect list option" where
  "stop_turn timeout_ms elapsed e =
     (if status (state e) \<noteq> RUNNING then Some []
      else if uint timeout_ms < elapsed then Some [Kill (pid (state e)) SIGKILL]
      else None)"

definition stop_end :: "string \<Rightarrow> supervisor \<Rightarrow> supervisor" where
  "stop_end nm s =
     (case find_process s nm of
        None \<Rightarrow> s
      | Some e \<Rightarrow> put_process nm (e\<lparr>state := (state e)\<lparr>status := STOPPED\<rparr>\<rparr>) s)"

text \<open>
  The loop on a schedule: the supervisor as the other threads left it before each turn and
  the time elapsed; \<open>None\<close> when the schedule ends before the loop does.
\<close>

fun stop_loop ::
  "string \<Rightarrow> u32 \<Rightarrow> (supervisor \<times> int) list \<Rightarrow> (bool \<times> sup_effect list \<times> supervisor) option" where
  "stop_loop nm timeout_ms [] = None"
| "stop_loop nm timeout_ms ((s, elapsed) # turns) =
     (case Option.bind (find_process s nm) (stop_turn timeout_ms elapsed) of
        Some eff \<Rightarrow> Some (True, eff, stop_end nm s)
      | None \<Rightarrow> stop_loop nm timeout_ms turns)"

definition stop ::
  "bool \<Rightarrow> string \<Rightarrow> u32 \<Rightarrow> (supervisor \<Rightarrow> (supervisor \<times> int) list) \<Rightarrow> supervisor \<Rightarrow>
   (bool \<times> sup_effect list \<times> supervisor) option res" where
  "stop held nm timeout_ms others s = with_lock held
     (case stop_begin nm s of
        None \<Rightarrow> Inr (Some (False, [], s))
      | Some (eff, s1) \<Rightarrow>
          Inr (map_option (\<lambda>(ok, eff', s'). (ok, eff @ eff', s')) (stop_loop nm timeout_ms (others s1))))"

definition restart ::
  "nat \<Rightarrow> fork_result \<Rightarrow> u64 \<Rightarrow> string \<Rightarrow> (supervisor \<Rightarrow> (supervisor \<times> int) list) \<Rightarrow> supervisor \<Rightarrow>
   (bool \<times> sup_effect list \<times> supervisor) option res" where
  "restart me fk now nm others s =
     res_bind (stop False nm 5000 others s) (\<lambda>r.
       case r of
         None \<Rightarrow> Inr None
       | Some (_, eff, s1) \<Rightarrow>
           res_bind (start False me fk now nm s1) (\<lambda>(ok, eff', s2). Inr (Some (ok, eff @ eff', s2))))"

definition stop_all :: "supervisor \<Rightarrow> bool \<times> sup_effect list \<times> supervisor" where
  "stop_all s =
     (True,
      concat (map (\<lambda>(nm, e). if status (state e) = RUNNING then [Kill (pid (state e)) SIGTERM] else []) (processes s)),
      s\<lparr>processes := map (\<lambda>(nm, e). (nm, if status (state e) = RUNNING then e\<lparr>running := False\<rparr> else e))
                       (processes s)\<rparr>)"

text \<open>Destroying an entry destroys its thread object.\<close>

definition destroy_entry :: "process_entry \<Rightarrow> unit res" where
  "destroy_entry e = (if monitor_thread e = None then Inr () else Inl Terminate)"

definition remove_process ::
  "string \<Rightarrow> (supervisor \<Rightarrow> (supervisor \<times> int) list) \<Rightarrow> supervisor \<Rightarrow>
   (bool \<times> sup_effect list \<times> supervisor) option res" where
  "remove_process nm others s =
     (case find_process s nm of
        None \<Rightarrow> Inr (Some (False, [], s))
      | Some e \<Rightarrow>
          res_bind (if status (state e) = RUNNING then stop True nm 5000 others s else Inr (Some (False, [], s)))
            (\<lambda>r. case r of
               None \<Rightarrow> Inr None
             | Some (_, eff, s1) \<Rightarrow> res_bind (destroy_entry e) (\<lambda>_. Inr (Some (True, eff, erase_process nm s1)))))"

subsection \<open>The watchdog\<close>

definition start_watchdog :: "supervisor \<Rightarrow> bool \<times> supervisor" where
  "start_watchdog s =
     (if watchdog_running s then (False, s) else (True, s\<lparr>watchdog_running := True, watchdog_thread := True\<rparr>))"

definition stop_watchdog :: "supervisor \<Rightarrow> bool \<times> supervisor" where
  "stop_watchdog s = (True, s\<lparr>watchdog_running := False, watchdog_thread := False\<rparr>)"

text \<open>
  One visit of an entry and one round over the map; the iteration order is that of \<open>names\<close>.
  The status word goes through \<^verbatim>\<open>WEXITSTATUS\<close> here and once more in \<open>handle_exit\<close>.
\<close>

definition watchdog_visit ::
  "nat \<Rightarrow> (i32 \<Rightarrow> int \<times> i32) \<Rightarrow> fork_result \<Rightarrow> u64 \<Rightarrow> string \<Rightarrow> supervisor \<Rightarrow> (sup_effect list \<times> supervisor) res" where
  "watchdog_visit me waitpid fk now nm s =
     (case find_process s nm of
        None \<Rightarrow> Inr ([], s)
      | Some e \<Rightarrow>
          if status (state e) = RUNNING \<and> 0 <s pid (state e) then
            (case waitpid (pid (state e)) of (result, st) \<Rightarrow>
               if 0 < result then handle_exit me fk now nm (WEXITSTATUS st) s else Inr ([], s))
          else Inr ([], s))"

fun watchdog_round ::
  "nat \<Rightarrow> (i32 \<Rightarrow> int \<times> i32) \<Rightarrow> fork_result \<Rightarrow> u64 \<Rightarrow> string list \<Rightarrow> supervisor \<Rightarrow> (sup_effect list \<times> supervisor) res" where
  "watchdog_round me waitpid fk now [] s = Inr ([], s)"
| "watchdog_round me waitpid fk now (nm # names) s =
     res_bind (watchdog_visit me waitpid fk now nm s) (\<lambda>(ev, s1).
       res_bind (watchdog_round me waitpid fk now names s1) (\<lambda>(ev', s2). Inr (ev @ ev', s2)))"

subsection \<open>Queries and the destructor\<close>

definition get_state :: "string \<Rightarrow> supervisor \<Rightarrow> process_state" where
  "get_state nm s = (case find_process s nm of None \<Rightarrow> initial_state | Some e \<Rightarrow> state e)"

definition get_all_states :: "supervisor \<Rightarrow> (string \<times> process_state) list" where
  "get_all_states s = map (\<lambda>(nm, e). (nm, state e)) (processes s)"

record process_info =
  info_name :: string
  info_state :: process_state
  info_config :: process_config
  uptime_ms :: u64
  recent_logs :: "string list"

definition get_info :: "u64 \<Rightarrow> string \<Rightarrow> supervisor \<Rightarrow> process_info option" where
  "get_info now nm s =
     map_option (\<lambda>e. \<lparr>info_name = nm, info_state = state e, info_config = config e,
         uptime_ms = (if 0 < start_time (state e) then now - start_time (state e) else 0),
         recent_logs = logs e\<rparr>) (find_process s nm)"

definition destroy_supervisor :: "supervisor \<Rightarrow> sup_effect list res" where
  "destroy_supervisor s =
     (case stop_all s of (_, eff, s1) \<Rightarrow>
        if list_ex (\<lambda>(nm, e). destroy_entry e \<noteq> Inr ()) (processes (snd (stop_watchdog s1))) then Inl Terminate
        else Inr eff)"

subsection \<open>stop beside the monitor thread\<close>

datatype stop_pc = S_waiting | S_returned

record race =
  sup :: supervisor
  mon :: mon_pc
  stopper :: stop_pc
  clock :: int
  signals :: "sup_effect list"

text \<open>
  The states of \<^verbatim>\<open>stop(name, timeout_ms)\<close>, after it has sent \<^verbatim>\<open>SIGTERM\<close>, and of the monitor
  thread \<open>me\<close> of the same process; \<open>clock\<close> is the time since. Everything the kernel may answer is
  free.
\<close>

inductive race_step :: "string \<Rightarrow> u32 \<Rightarrow> nat \<Rightarrow> race \<Rightarrow> race \<Rightarrow> bool"
  for nm :: string and timeout_ms :: u32 and me :: nat where
  tick: "0 \<le> d \<Longrightarrow> race_step nm timeout_ms me r (r\<lparr>clock := clock r + d\<rparr>)"
| mon_check:
    "mon r = M_head \<Longrightarrow> find_process (sup r) nm = Some e \<Longrightarrow>
     race_step nm timeout_ms me r (r\<lparr>mon := (if running e then M_body else M_done)\<rparr>)"
| mon_turn:
    "mon r = M_body \<Longrightarrow> monitor_body me wait now file fk nm (sup r) = Inr (pc, eff, s) \<Longrightarrow>
     race_step nm timeout_ms me r (r\<lparr>mon := pc, sup := s, signals := signals r @ eff\<rparr>)"
| mon_wake: "mon r = M_sleep \<Longrightarrow> race_step nm timeout_ms me r (r\<lparr>mon := M_head\<rparr>)"
| stop_round:
    "stopper r = S_waiting \<Longrightarrow> find_process (sup r) nm = Some e \<Longrightarrow>
     stop_turn timeout_ms (clock r) e = Some eff \<Longrightarrow>
     race_step nm timeout_ms me r
       (r\<lparr>stopper := S_returned, sup := stop_end nm (sup r), signals := signals r @ eff\<rparr>)"

inductive_cases race_stepE: "race_step nm timeout_ms me r r'"

definition stop_entered :: "string \<Rightarrow> supervisor \<Rightarrow> mon_pc \<Rightarrow> race \<Rightarrow> bool" where
  "stop_entered nm s pc r =
     (case stop_begin nm s of
        None \<Rightarrow> False
      | Some (eff, s1) \<Rightarrow>
          r = \<lparr>sup = s1, mon = pc, stopper = S_waiting, clock = 0, signals = eff\<rparr>)"

text \<open>
  The operations on a supervisor in any order, \<^verbatim>\<open>stop\<close> in the two pieces between which other
  threads run.
\<close>

inductive sup_step :: "supervisor \<Rightarrow> supervisor \<Rightarrow> bool" where
  "add_process cfg s = (ok, s') \<Longrightarrow> sup_step s s'"
| "start held me fk now nm s = Inr (ok, eff, s') \<Longrightarrow> sup_step s s'"
| "stop_begin nm s = Some (eff, s') \<Longrightarrow> sup_step s s'"
| "sup_step s (stop_end nm s)"
| "stop_all s = (ok, eff, s') \<Longrightarrow> sup_step s s'"
| "remove_process nm others s = Inr (Some (ok, eff, s')) \<Longrightarrow> sup_step s s'"
| "monitor_body me wait now file fk nm s = Inr (pc, eff, s') \<Longrightarrow> sup_step s s'"
| "watchdog_round me waitpid fk now names s = Inr (eff, s') \<Longrightarrow> sup_step s s'"
| "sup_step s (on_event s)"
| "start_watchdog s = (ok, s') \<Longrightarrow> sup_step s s'"
| "stop_watchdog s = (ok, s') \<Longrightarrow> sup_step s s'"

definition thread_kept :: "string \<Rightarrow> supervisor \<Rightarrow> bool" where
  "thread_kept nm s = (case find_process s nm of None \<Rightarrow> False | Some e \<Rightarrow> monitor_thread e \<noteq> None)"

definition clean_exit :: "sup_effect \<Rightarrow> bool" where
  "clean_exit eff = (case eff of Event e \<Rightarrow> ev_type e = Ev_STOPPED \<and> ev_exit_code e = 0 | Kill _ _ \<Rightarrow> False)"

definition demo_process :: process_config where
  "demo_process =
     \<lparr>name = ''w'', command = ''/bin/false'', args = [], working_dir = ''/'', environment = [],
      restart_policy = ON_FAILURE, max_restarts = 3, restart_delay_ms = 1000,
      memory_limit_bytes = 268435456, cpu_percent = 50, timeout_seconds = 4294968,
      enable_health_check = False, health_check_interval_ms = 5000, health_check_command = []\<rparr>"

definition demo_added :: supervisor where
  "demo_added = snd (add_process demo_process new_supervisor)"

definition demo_entry :: process_entry where
  "demo_entry =
     \<lparr>config = demo_process, state = initial_state\<lparr>status := RUNNING, pid := 7, start_time := 10\<rparr>,
      monitor_thread = Some 1, running = True, logs = []\<rparr>"

definition demo_started :: supervisor where
  "demo_started = (put_process ''w'' demo_entry demo_added)\<lparr>next_thread := 2\<rparr>"

section \<open>Lemmas\<close>

interpretation ps: registry find_process put_process erase_process "\<lambda>s. umap_inv (processes s)"
  by unfold_locales
    (auto simp: find_process_def put_process_def erase_process_def update_conv delete_conv
      intro: inv_intros)

lemma find_put [simp]: "find_process (put_process nm e s) nm' = (if nm' = nm then Some e else find_process s nm')"
  by (simp add: find_process_def put_process_def update_conv)

lemma find_erase [simp]: "find_process (erase_process nm s) nm' = (if nm' = nm then None else find_process s nm')"
  by (auto simp: find_process_def erase_process_def delete_conv)

lemma find_update_other [simp]:
  "find_process (s\<lparr>next_thread := n\<rparr>) nm = find_process s nm"
  "find_process (s\<lparr>has_callback := b\<rparr>) nm = find_process s nm"
  "find_process (s\<lparr>watchdog_running := b\<rparr>) nm = find_process s nm"
  "find_process (s\<lparr>watchdog_thread := b\<rparr>) nm = find_process s nm"
  "next_thread (put_process nm' e s) = next_thread s"
  by (simp_all add: find_process_def put_process_def)

lemma find_stop_all:
  "find_process (snd (snd (stop_all s))) nm =
     map_option (\<lambda>e. if status (state e) = RUNNING then e\<lparr>running := False\<rparr> else e) (find_process s nm)"
  unfolding stop_all_def find_process_def by (induction "processes s" arbitrary: s rule: list.induct) (auto simp: map_of_map)

subsection \<open>Thread objects are never given up\<close>

lemma spawn_kept:
  "spawn_process me fk now nm' s = Inr (ok, eff, s') \<Longrightarrow> thread_kept nm s \<Longrightarrow> thread_kept nm s'"
  by (auto simp: spawn_process_def thread_kept_def Let_def split: option.splits fork_result.splits if_splits)

lemma handle_exit_kept:
  assumes "handle_exit me fk now nm' st s = Inr (eff, s')" "thread_kept nm s"
  shows "thread_kept nm s'"
proof -
  obtain e where e: "find_process s nm' = Some e"
    using assms(1) by (cases "find_process s nm'") (auto simp: handle_exit_def)
  have k: "thread_kept nm (put_process nm' e' s)" if "monitor_thread e' = monitor_thread e" for e'
    using that assms(2) e by (auto simp: thread_kept_def split: option.splits)
  show ?thesis
    using assms(1) e by (auto simp: handle_exit_def Let_def split: if_splits intro!: k intro: spawn_kept [OF _ k])
qed

lemma watchdog_kept:
  "watchdog_round me waitpid fk now names s = Inr (eff, s') \<Longrightarrow> thread_kept nm s \<Longrightarrow> thread_kept nm s'"
proof (induction names arbitrary: s eff)
  case (Cons n names)
  then obtain ev s1 ev' where "watchdog_visit me waitpid fk now n s = Inr (ev, s1)"
    and r: "watchdog_round me waitpid fk now names s1 = Inr (ev', s')" by auto
  then have "thread_kept nm s1"
    using Cons.prems(2) by (auto simp: watchdog_visit_def split: option.splits if_splits prod.splits
        intro: handle_exit_kept)
  with Cons.IH [OF r] show ?case by simp
qed simp

lemma thread_kept_step:
  assumes "sup_step s s'" "thread_kept nm s"
  shows "thread_kept nm s'"
  using assms
proof (cases rule: sup_step.cases)
  case (7 me wait now fl fk nm' pc eff)
  with assms(2) show ?thesis
    by (auto simp: monitor_body_def Let_def thread_kept_def split: option.splits if_splits
        dest!: handle_exit_kept [of _ _ _ _ _ _ _ _ nm])
next
  case (5 ok eff)
  with assms(2) find_stop_all [of s nm] show ?thesis
    by (auto simp: thread_kept_def split: option.splits)
qed (auto simp: add_process_def start_def with_lock_def stop_begin_def stop_end_def thread_kept_def on_event_def
      remove_process_def start_watchdog_def stop_watchdog_def stop_def destroy_entry_def
      split: option.splits if_splits dest: spawn_kept [of _ _ _ _ _ _ _ _ nm] watchdog_kept [of _ _ _ _ _ _ _ _ nm])

lemma thread_kept_steps: "sup_step\<^sup>*\<^sup>* s s' \<Longrightarrow> thread_kept nm s \<Longrightarrow> thread_kept nm s'"
  by (induction rule: rtranclp_induct) (auto intro: thread_kept_step)

subsection \<open>Interleavings\<close>

definition race_inv :: "string \<Rightarrow> u32 \<Rightarrow> i32 \<Rightarrow> race \<Rightarrow> bool" where
  "race_inv nm timeout_ms p r =
     (case find_process (sup r) nm of
        None \<Rightarrow> False
      | Some e \<Rightarrow> \<not> running e \<and> pid (state e) = p \<and> mon r \<noteq> M_body \<and>
          (case stopper r of
             S_waiting \<Rightarrow> status (state e) = RUNNING \<and> signals r = [Kill p SIGTERM]
           | S_returned \<Rightarrow> status (state e) = STOPPED \<and> uint timeout_ms < clock r \<and>
               signals r = [Kill p SIGTERM, Kill p SIGKILL]))"

lemma race_inv_entered:
  "stop_entered nm s pc r \<Longrightarrow> pc \<noteq> M_body \<Longrightarrow> race_inv nm timeout_ms (pid (get_state nm s)) r"
  by (auto simp: stop_entered_def stop_begin_def race_inv_def get_state_def split: option.splits if_splits)

lemma race_inv_step: "race_step nm timeout_ms me r r' \<Longrightarrow> race_inv nm timeout_ms p r \<Longrightarrow> race_inv nm timeout_ms p r'"
  by (induction rule: race_step.induct)
    (auto simp: race_inv_def stop_turn_def stop_end_def split: option.splits stop_pc.splits if_splits)

lemma race_inv_steps:
  "(race_step nm timeout_ms me)\<^sup>*\<^sup>* r r' \<Longrightarrow> race_inv nm timeout_ms p r \<Longrightarrow> race_inv nm timeout_ms p r'"
  by (induction rule: rtranclp_induct) (auto intro: race_inv_step)

text \<open>The caller of \<^verbatim>\<open>stop\<close> gets through: it returns once the time is up.\<close>

lemma race_can_return:
  assumes "race_inv nm timeout_ms p r"
  shows "\<exists>r'. (race_step nm timeout_ms me)\<^sup>*\<^sup>* r r' \<and> stopper r' = S_returned"
proof (cases "stopper r")
  case S_returned
  then show ?thesis by blast
next
  case S_waiting
  from assms obtain e where e: "find_process (sup r) nm = Some e" by (auto simp: race_inv_def split: option.splits)
  let ?r = "r\<lparr>clock := clock r + (\<bar>clock r\<bar> + uint timeout_ms + 1)\<rparr>"
  have "race_step nm timeout_ms me r ?r" by (rule race_step.tick) simp
  moreover obtain eff where "stop_turn timeout_ms (clock ?r) e = Some eff"
    using abs_ge_minus_self [of "clock r"] by (cases "status (state e) = RUNNING") (auto simp: stop_turn_def)
  then have "race_step nm timeout_ms me ?r
      (?r\<lparr>stopper := S_returned, sup := stop_end nm (sup ?r), signals := signals ?r @ eff\<rparr>)"
    using S_waiting e by (intro race_step.stop_round) auto
  ultimately have "(race_step nm timeout_ms me)\<^sup>*\<^sup>* r
      (?r\<lparr>stopper := S_returned, sup := stop_end nm (sup ?r), signals := signals ?r @ eff\<rparr>)"
    by auto
  then show ?thesis by (intro exI conjI) auto
qed

text \<open>A monitor that has passed its test may still collect a process that exited with 0, and \<^verbatim>\<open>stop\<close> finds it stopped.\<close>

lemma race_early_return:
  assumes "stop_entered nm s M_body r0"
  shows "\<exists>r. (race_step nm timeout_ms me)\<^sup>*\<^sup>* r0 r \<and> stopper r = S_returned \<and> clock r = 0 \<and>
    status (get_state nm (sup r)) = STOPPED \<and> Kill (pid (get_state nm s)) SIGKILL \<notin> set (signals r)"
proof -
  obtain e where e: "find_process s nm = Some e" "status (state e) = RUNNING"
    and r0: "r0 = \<lparr>sup = put_process nm (e\<lparr>running := False\<rparr>) s, mon = M_body, stopper = S_waiting, clock = 0,
      signals = [Kill (pid (state e)) SIGTERM]\<rparr>"
    using assms by (auto simp: stop_entered_def stop_begin_def split: option.splits if_splits)
  let ?e = "e\<lparr>running := False, state := (state e)\<lparr>exit_code := 0, status := STOPPED\<rparr>\<rparr>"
  let ?ev = "emit_event Ev_STOPPED nm (pid (state e)) 0 [] 0 (put_process nm (e\<lparr>running := False\<rparr>) s)"
  have ev: "Kill p SIGKILL \<notin> set ?ev" for p by (simp add: emit_event_def)
  let ?s1 = "put_process nm ?e (put_process nm (e\<lparr>running := False\<rparr>) s)"
  have "monitor_body me (1, 0) 0 None (Forked 1) nm (sup r0) = Inr (M_done, ?ev, ?s1)"
    by (simp add: r0 monitor_body_def handle_exit_def WEXITSTATUS_def Let_def)
  from race_step.mon_turn [OF _ this]
  have a: "race_step nm timeout_ms me r0 (r0\<lparr>mon := M_done, sup := ?s1, signals := signals r0 @ ?ev\<rparr>)" by (simp add: r0)
  let ?r1 = "r0\<lparr>mon := M_done, sup := ?s1, signals := signals r0 @ ?ev\<rparr>"
  define r2 where "r2 = ?r1\<lparr>stopper := S_returned, sup := stop_end nm (sup ?r1), signals := signals ?r1 @ []\<rparr>"
  have "race_step nm timeout_ms me ?r1 r2"
    unfolding r2_def by (rule race_step.stop_round [where e = ?e]) (simp_all add: r0 stop_turn_def)
  with a have "(race_step nm timeout_ms me)\<^sup>*\<^sup>* r0 r2" by (meson converse_rtranclp_into_rtranclp r_into_rtranclp)
  moreover have "stopper r2 = S_returned" "clock r2 = 0" "status (get_state nm (sup r2)) = STOPPED"
    "Kill (pid (get_state nm s)) SIGKILL \<notin> set (signals r2)"
    using e ev by (simp_all add: r2_def r0 get_state_def stop_end_def)
  ultimately show ?thesis by blast
qed

lemma unat_ucast_32_64: "unat (ucast (w :: u32) :: u64) = unat w"
proof -
  have "unat w < 2 ^ LENGTH(32)" by (rule unsigned_less)
  then show ?thesis by (simp add: unsigned_ucast_eq take_bit_nat_eq_self)
qed

lemma watchdog_visit_eq:
  "watchdog_visit me waitpid fk now nm s =
     Inr (case find_process s nm of
        None \<Rightarrow> ([], s)
      | Some e \<Rightarrow>
          if status (state e) = RUNNING \<and> 0 <s pid (state e) \<and> 0 < fst (waitpid (pid (state e)))
          then (emit_event Ev_STOPPED nm (pid (state e)) 0 [] now s,
                put_process nm (e\<lparr>running := False, state := (state e)\<lparr>exit_code := 0, status := STOPPED\<rparr>\<rparr>) s)
          else ([], s))"
  by (auto simp: watchdog_visit_def handle_exit_def WEXITSTATUS_twice Let_def split: option.splits prod.splits)

subsection \<open>A process of the demonstration\<close>

lemma demo_start: "start False 0 (Forked 7) 10 ''w'' demo_added = Inr (True, [], demo_started)"
  by (simp add: start_def with_lock_def demo_added_def add_process_def new_supervisor_def find_process_def
      put_process_def spawn_process_def join_thread_def emit_event_def demo_started_def demo_entry_def
      demo_process_def initial_state_def Let_def)

lemma demo_find: "find_process demo_started ''w'' = Some demo_entry"
  by (simp add: demo_started_def)

section \<open>Properties\<close>

text \<open>
  C18. What the first exit of a supervised process leads to. A process is added and started; when
  its monitor thread sees it exit with code c, then for c = 0 or policy NEVER the state is
  STOPPED with that code, and otherwise FAILED if no restart is allowed or the second fork
  fails. In every remaining case, that is whenever a crashed process has to be restarted, the
  monitor thread joins itself and the call ends in \<^verbatim>\<open>std::system_error\<close>: no process is ever
  restarted.
\<close>

theorem first_exit_outcome:
  assumes "find_process s (name cfg) = None"
    and "start False me (Forked p) now (name cfg) (snd (add_process cfg s)) = Inr (ok, eff, s1)"
    and "0 < fst wait"
  shows "ok \<and> status (get_state (name cfg) s1) = RUNNING \<and>
    (let crashed = (WEXITSTATUS (snd wait) \<noteq> 0 \<and> restart_policy cfg \<noteq> NEVER) in
     case monitor_body (next_thread s) wait now' file fk (name cfg) s1 of
       Inl f \<Rightarrow> f = System_error \<and> crashed \<and> max_restarts cfg \<noteq> 0 \<and> (\<exists>p'. fk = Forked p')
     | Inr (pc, eff', s2) \<Rightarrow>
         pc = M_done \<and> exit_code (get_state (name cfg) s2) = WEXITSTATUS (snd wait) \<and>
         status (get_state (name cfg) s2) = (if crashed then FAILED else STOPPED) \<and>
         (crashed \<longrightarrow> max_restarts cfg = 0 \<or> (\<exists>msg. fk = Fork_error msg)))"
proof -
  obtain e where e: "find_process s1 (name cfg) = Some e" "config e = cfg" "status (state e) = RUNNING"
      "restart_count (state e) = 0" "monitor_thread e = Some (next_thread s)" and ok: "ok"
    using assms(1,2) by (auto simp: start_def with_lock_def add_process_def spawn_process_def join_thread_def
        Let_def)
  have lt: "(0 :: u64) < ucast (max_restarts cfg) \<longleftrightarrow> max_restarts cfg \<noteq> 0"
    by (simp add: word_less_nat_alt unat_ucast_32_64 unat_eq_zero neq0_conv [symmetric] del: neq0_conv)
  show ?thesis
    using assms(3) e lt
    by (cases "WEXITSTATUS (snd wait) = 0 \<or> restart_policy cfg = NEVER"; cases fk)
      (auto simp: ok get_state_def monitor_body_def handle_exit_def spawn_process_def join_thread_def Let_def)
qed

theorem first_exit_outcome_witness:
  "monitor_body 1 (7, 256) 20 None (Forked 8) ''w'' demo_started = Inl System_error"
proof -
  have "find_process new_supervisor (name demo_process) = None"
    by (simp add: new_supervisor_def find_process_def)
  note outcome = first_exit_outcome [OF this, of 0 7 10 True "[]" demo_started "(7, 256)"]
  have n: "name demo_process = ''w''" "max_restarts demo_process = 3" "restart_policy demo_process = ON_FAILURE"
    "next_thread new_supervisor = 1" "WEXITSTATUS 256 = 1"
    by (simp_all add: demo_process_def new_supervisor_def WEXITSTATUS_def)
  show ?thesis
    using outcome [unfolded demo_added_def [symmetric] n, OF demo_start, where fk = "Forked 8" and now' = 20 and ?file = None]
    by (cases "monitor_body 1 (7, 256) 20 None (Forked 8) ''w'' demo_started") (auto simp: n Let_def)
qed

text \<open>
  C19. How long \<^verbatim>\<open>stop\<close> takes. If it is called while the monitor thread is not in the middle of a turn, then under every interleaving
  with that thread it returns only after more than \<open>timeout_ms\<close> and after sending SIGKILL, because clearing \<^verbatim>\<open>running\<close> makes the
  monitor leave its loop without waiting for the process; and it can always still return. Only in the other case, when the monitor
  has tested \<^verbatim>\<open>running\<close> but not yet called \<^verbatim>\<open>waitpid\<close>, can the monitor still collect the process, so that \<^verbatim>\<open>stop\<close> returns
  at once and without SIGKILL.
\<close>

theorem stop_waits_out_timeout:
  assumes "stop_entered nm s pc r0"
  shows "(pc \<noteq> M_body \<longrightarrow> (\<forall>r. (race_step nm timeout_ms me)\<^sup>*\<^sup>* r0 r \<longrightarrow>
      (if stopper r = S_returned
       then uint timeout_ms < clock r \<and> status (get_state nm (sup r)) = STOPPED \<and>
         signals r = [Kill (pid (get_state nm s)) SIGTERM, Kill (pid (get_state nm s)) SIGKILL]
       else \<exists>r'. (race_step nm timeout_ms me)\<^sup>*\<^sup>* r r' \<and> stopper r' = S_returned))) \<and>
    (pc = M_body \<longrightarrow> (\<exists>r. (race_step nm timeout_ms me)\<^sup>*\<^sup>* r0 r \<and> stopper r = S_returned \<and> clock r = 0 \<and>
       status (get_state nm (sup r)) = STOPPED \<and> Kill (pid (get_state nm s)) SIGKILL \<notin> set (signals r)))"
proof (intro conjI impI allI)
  fix r assume "pc \<noteq> M_body" and r: "(race_step nm timeout_ms me)\<^sup>*\<^sup>* r0 r"
  have inv: "race_inv nm timeout_ms (pid (get_state nm s)) r"
    using race_inv_steps [OF r race_inv_entered [OF assms \<open>pc \<noteq> M_body\<close>]] .
  show "if stopper r = S_returned
       then uint timeout_ms < clock r \<and> status (get_state nm (sup r)) = STOPPED \<and>
         signals r = [Kill (pid (get_state nm s)) SIGTERM, Kill (pid (get_state nm s)) SIGKILL]
       else \<exists>r'. (race_step nm timeout_ms me)\<^sup>*\<^sup>* r r' \<and> stopper r' = S_returned"
    using inv race_can_return [OF inv] by (auto simp: race_inv_def get_state_def split: option.splits)
next
  assume "pc = M_body"
  then show "\<exists>r. (race_step nm timeout_ms me)\<^sup>*\<^sup>* r0 r \<and> stopper r = S_returned \<and> clock r = 0 \<and>
      status (get_state nm (sup r)) = STOPPED \<and> Kill (pid (get_state nm s)) SIGKILL \<notin> set (signals r)"
    using race_early_return assms by blast
qed

theorem stop_waits_out_timeout_witness:
  "\<exists>r. (race_step ''w'' 5000 1)\<^sup>*\<^sup>*
      \<lparr>sup = put_process ''w'' (demo_entry\<lparr>running := False\<rparr>) demo_started, mon = M_sleep,
       stopper = S_waiting, clock = 0, signals = [Kill 7 SIGTERM]\<rparr> r \<and>
     stopper r = S_returned \<and> 5000 < clock r \<and> signals r = [Kill 7 SIGTERM, Kill 7 SIGKILL]"
proof -
  let ?r = "\<lparr>sup = put_process ''w'' (demo_entry\<lparr>running := False\<rparr>) demo_started, mon = M_sleep,
       stopper = S_waiting, clock = 0, signals = [Kill 7 SIGTERM]\<rparr>"
  have pid: "pid (get_state ''w'' demo_started) = 7"
    by (simp add: get_state_def demo_find) (simp add: demo_entry_def)
  have in0: "stop_entered ''w'' demo_started M_sleep ?r"
    by (simp add: stop_entered_def stop_begin_def demo_find) (simp add: demo_entry_def)
  note w = stop_waits_out_timeout [OF in0, of 5000 1, THEN conjunct1, THEN mp, THEN spec, THEN mp]
  obtain r where r: "(race_step ''w'' 5000 1)\<^sup>*\<^sup>* ?r r" "stopper r = S_returned"
    using w [OF _ rtranclp.rtrancl_refl] by auto
  show ?thesis using w [OF _ r(1)] r pid by auto
qed

text \<open>
  C38. A process that has been started once can never be removed, and its supervisor never be
  destroyed: after the start and any sequence of operations of the supervisor, its monitor and
  its watchdog, \<open>remove_process\<close> on it either locks the mutex it already holds or destroys a
  joinable thread, and the destructor of the supervisor does the latter.
\<close>

theorem started_process_cannot_be_removed:
  assumes "start held me (Forked p) now nm s = Inr (True, eff, s1)" and "sup_step\<^sup>*\<^sup>* s1 s2"
  shows "remove_process nm others s2 =
           Inl (if status (get_state nm s2) = RUNNING then Mutex_misuse else Terminate) \<and>
         destroy_supervisor s2 = Inl Terminate"
proof -
  have "thread_kept nm s1"
    using assms(1) by (auto simp: start_def with_lock_def spawn_process_def thread_kept_def Let_def
        split: if_splits option.splits)
  with assms(2) have "thread_kept nm s2" by (rule thread_kept_steps)
  then obtain e where e: "find_process s2 nm = Some e" "monitor_thread e \<noteq> None"
    by (auto simp: thread_kept_def split: option.splits)
  let ?last = "snd (stop_watchdog (snd (snd (stop_all s2))))"
  obtain e' where e': "find_process ?last nm = Some e'" "monitor_thread e' \<noteq> None"
    using e that by (auto simp: stop_watchdog_def find_stop_all split: if_splits)
  then have "(nm, e') \<in> set (processes ?last)" by (simp add: find_process_def map_of_SomeD)
  with e'(2) have "list_ex (\<lambda>(nm, e). destroy_entry e \<noteq> Inr ()) (processes ?last)"
    by (auto simp: list_ex_iff destroy_entry_def)
  then have "destroy_supervisor s2 = Inl Terminate"
    by (simp add: destroy_supervisor_def case_prod_unfold)
  with e show ?thesis
    by (auto simp: remove_process_def stop_def with_lock_def destroy_entry_def get_state_def)
qed

theorem started_process_cannot_be_removed_witness:
  "remove_process ''w'' (\<lambda>s. []) demo_started = Inl Mutex_misuse \<and>
   remove_process ''w'' (\<lambda>s. []) (stop_end ''w'' demo_started) = Inl Terminate"
proof -
  have st: "status (get_state ''w'' demo_started) = RUNNING"
    "status (get_state ''w'' (stop_end ''w'' demo_started)) = STOPPED"
    by (simp_all add: get_state_def stop_end_def demo_find) (simp add: demo_entry_def)
  have "sup_step\<^sup>*\<^sup>* demo_started (stop_end ''w'' demo_started)" by (blast intro: sup_step.intros)
  from started_process_cannot_be_removed [OF demo_start this, of "\<lambda>s. []"]
    started_process_cannot_be_removed [OF demo_start rtranclp.rtrancl_refl, of "\<lambda>s. []"] st
  show ?thesis by simp
qed

text \<open>
  The watchdog takes every exit for a clean one: it decodes the wait status twice, so a
  round over any processes never fails, reports only STOPPED events with code 0, and leaves
  each process in the state it had or STOPPED with exit code 0; it never restarts anything.
\<close>

theorem watchdog_sees_clean_exits:
  "\<exists>eff s'. watchdog_round me waitpid fk now names s = Inr (eff, s') \<and> list_all clean_exit eff \<and>
     (\<forall>nm. get_state nm s' = get_state nm s \<or>
           status (get_state nm s') = STOPPED \<and> exit_code (get_state nm s') = 0)"
proof (induction names arbitrary: s)
  case Nil
  then show ?case by simp
next
  case (Cons n names)
  have "\<exists>x. watchdog_visit me waitpid fk now n s = Inr x" unfolding watchdog_visit_eq by blast
  then obtain ev s1 where v: "watchdog_visit me waitpid fk now n s = Inr (ev, s1)" by auto
  then have ev: "list_all clean_exit ev"
    and st: "\<forall>nm. get_state nm s1 = get_state nm s \<or>
       status (get_state nm s1) = STOPPED \<and> exit_code (get_state nm s1) = 0"
    by (auto simp: watchdog_visit_eq get_state_def clean_exit_def emit_event_def split: option.splits if_splits)
  from Cons.IH [of s1] obtain ev' s' where r: "watchdog_round me waitpid fk now names s1 = Inr (ev', s')"
    and ev': "list_all clean_exit ev'"
    and st': "\<forall>nm. get_state nm s' = get_state nm s1 \<or>
       status (get_state nm s') = STOPPED \<and> exit_code (get_state nm s') = 0" by blast
  have "\<forall>nm. get_state nm s' = get_state nm s \<or>
      status (get_state nm s') = STOPPED \<and> exit_code (get_state nm s') = 0"
    using st st' by metis
  moreover have "watchdog_round me waitpid fk now (n # names) s = Inr (ev @ ev', s')"
    by (simp add: v r)
  ultimately show ?case using ev ev' by (intro exI [of _ "ev @ ev'"] exI [of _ s']) simp
qed

text \<open>
  The run-time limit is computed in 32 bits: a process that has not exited is killed
  exactly when a limit is set and it has run for more than 1000 times the limit modulo \<open>2 ^ 32\<close>
  milliseconds, and a limit up to 4294967 seconds means what it says. The kill leaves the
  record as it was: the process stays RUNNING in it, and its monitor thread ends.
\<close>

theorem monitor_timeout_wraps:
  assumes "find_process s nm = Some e" and "fst wait \<le> 0"
  shows "monitor_body me wait now file fk nm s =
      (if 0 < timeout_seconds (config e) \<and>
          unat (timeout_seconds (config e)) * 1000 mod 2 ^ 32 < unat (now - start_time (state e))
       then Inr (M_done, [Kill (pid (state e)) SIGKILL], s)
       else Inr (M_sleep, [], put_process nm
         (e\<lparr>state := (state e)\<lparr>memory_bytes := read_status file (memory_bytes (state e))\<rparr>\<rparr>) s)) \<and>
    (timeout_seconds (config e) \<le> 4294967 \<longrightarrow>
      unat (timeout_seconds (config e)) * 1000 mod 2 ^ 32 = unat (timeout_seconds (config e)) * 1000)"
proof -
  have "unat (ucast (timeout_seconds (config e) * 1000) :: u64) =
      unat (timeout_seconds (config e)) * 1000 mod 2 ^ 32"
    by (simp only: unat_ucast_32_64) (simp add: unat_word_ariths)
  then show ?thesis
    using assms by (simp add: monitor_body_def Let_def word_less_nat_alt word_le_nat_alt)
qed

theorem monitor_timeout_wraps_witness:
  "monitor_body 1 (0, 0) 715 None (Forked 8) ''w'' demo_started = Inr (M_done, [Kill 7 SIGKILL], demo_started)"
  using monitor_timeout_wraps [OF demo_find, of "(0, 0)" 1 715 None "Forked 8"]
  by (simp add: demo_entry_def demo_process_def)

end
