(* ===== verification/Ipc.thy ===== *)
theory Ipc
  imports Bytes Containers
begin

section \<open>Inter-sandbox messages\<close>

text \<open>
  \<^verbatim>\<open>sandbox/src/ipc.cpp\<close> and \<^verbatim>\<open>ipc.hpp\<close>: datagram channels over Unix-domain sockets and their
  manager. The kernel is the record \<open>ux\<close> of the calls the code makes; \<open>ux_contract\<close> is what the
  manual page of \<^verbatim>\<open>AF_UNIX\<close> promises of them (binding an address that is in use fails, an
  address stays in use until it is unlinked, closing a socket does not remove it). A callback is
  an abstract value \<open>'cb\<close>; handling a message returns the calls it made, in order. The console
  output of the code is not modelled. The buffer of the receive loop is a list of 65536 bytes
  whose tail behind the datagram holds whatever was there before.
\<close>

record ipc_config =
  sandbox_id :: string
  socket_path :: string
  max_message_size :: u32
  queue_size :: u32
  enable_logging :: bool

record ipc_message =
  msg_from :: string
  msg_to :: string
  topic :: string
  payload :: "u8 list"
  timestamp :: u64
  sequence :: u64

definition create_message :: "u64 \<Rightarrow> u64 \<Rightarrow> string \<Rightarrow> string \<Rightarrow> string \<Rightarrow> string \<Rightarrow> ipc_message" where
  "create_message now seq0 from dest tp data =
     \<lparr>msg_from = from, msg_to = dest, topic = tp, payload = bytes_of_string data,
      timestamp = now, sequence = seq0\<rparr>"

definition as_string :: "ipc_message \<Rightarrow> string" where
  "as_string m = string_of_bytes (payload m)"

record queue_stats =
  messages_sent :: u64
  messages_received :: u64
  messages_dropped :: u64
  bytes_sent :: u64
  bytes_received :: u64

record 'cb ipc_channel =
  config :: ipc_config
  connected :: bool
  subscribers :: "'cb list umap"
  message_queue :: "ipc_message list"
  next_sequence :: u64
  stats :: queue_stats

definition new_channel :: "ipc_config \<Rightarrow> 'cb ipc_channel" where
  "new_channel cfg =
     \<lparr>config = cfg, connected = False, subscribers = [], message_queue = [], next_sequence = 0,
      stats = \<lparr>messages_sent = 0, messages_received = 0, messages_dropped = 0,
               bytes_sent = 0, bytes_received = 0\<rparr>\<rparr>"

subsection \<open>Sockets\<close>

record 'w ux =
  ux_socket :: "'w \<Rightarrow> int \<times> 'w"
  ux_bind :: "int \<Rightarrow> string \<Rightarrow> 'w \<Rightarrow> int \<times> 'w"
  ux_unlink :: "string \<Rightarrow> 'w \<Rightarrow> 'w"
  ux_close :: "int \<Rightarrow> 'w \<Rightarrow> 'w"
  ux_sendto :: "int \<Rightarrow> u8 list \<Rightarrow> string \<Rightarrow> 'w \<Rightarrow> int \<times> 'w"

text \<open>\<^verbatim>\<open>c_str()\<close> ends at the first null; \<^verbatim>\<open>strncpy\<close> keeps 107 bytes of it for \<^verbatim>\<open>sun_path\<close>.\<close>

definition c_str :: "string \<Rightarrow> string" where
  "c_str s = takeWhile (\<lambda>c. c \<noteq> CHR 0x00) s"

definition sun_path :: "string \<Rightarrow> string" where
  "sun_path s = take 107 (c_str s)"

definition socket_file :: "ipc_config \<Rightarrow> string \<Rightarrow> string" where
  "socket_file cfg i = socket_path cfg @ ''-'' @ i"

definition own_socket :: "ipc_config \<Rightarrow> string" where
  "own_socket cfg = socket_file cfg (sandbox_id cfg)"

definition ipc_connect :: "'w ux \<Rightarrow> 'cb ipc_channel \<Rightarrow> 'w \<Rightarrow> bool \<times> 'cb ipc_channel \<times> 'w" where
  "ipc_connect u ch w =
     (if connected ch then (True, ch, w)
      else case ux_socket u w of (sock, w1) \<Rightarrow>
        if sock < 0 then (False, ch, w1)
        else
          let path = own_socket (config ch); w2 = ux_unlink u (c_str path) w1 in
          (case ux_bind u sock (sun_path path) w2 of (rc, w3) \<Rightarrow>
             if rc < 0 then (False, ch, ux_close u sock w3)
             else (True, ch\<lparr>connected := True\<rparr>, w3)))"

definition ipc_disconnect :: "'w ux \<Rightarrow> 'cb ipc_channel \<Rightarrow> 'w \<Rightarrow> bool \<times> 'cb ipc_channel \<times> 'w" where
  "ipc_disconnect u ch w =
     (if \<not> connected ch then (True, ch, w)
      else (True, ch\<lparr>connected := False\<rparr>, ux_unlink u (c_str (own_socket (config ch))) w))"

definition ipc_is_connected :: "'cb ipc_channel \<Rightarrow> bool" where
  "ipc_is_connected ch = connected ch"

subsection \<open>Sending\<close>

definition serialize :: "ipc_message \<Rightarrow> u8 list" where
  "serialize m =
     bytes_of_string (msg_from m) @ [0] @ bytes_of_string (msg_to m) @ [0] @
     bytes_of_string (topic m) @ [0] @
     bytes_of_string (dec_of_nat (unat (timestamp m))) @ [0] @
     bytes_of_string (dec_of_nat (unat (sequence m))) @ [0] @
     u32_bytes (of_nat (length (payload m))) @ payload m"

definition send_raw ::
  "'w ux \<Rightarrow> u64 \<Rightarrow> string \<Rightarrow> string \<Rightarrow> u8 list \<Rightarrow> 'cb ipc_channel \<Rightarrow> 'w \<Rightarrow>
   bool \<times> 'cb ipc_channel \<times> 'w" where
  "send_raw u now dest tp data ch w =
     (if \<not> connected ch then (False, ch, w)
      else
        let m = \<lparr>msg_from = sandbox_id (config ch), msg_to = dest, topic = tp, payload = data,
                 timestamp = now, sequence = next_sequence ch\<rparr>;
            ch1 = ch\<lparr>next_sequence := next_sequence ch + 1\<rparr> in
        (case ux_socket u w of (sock, w1) \<Rightarrow>
           if sock < 0 then (False, ch1, w1)
           else (case ux_sendto u sock (serialize m) (sun_path (socket_file (config ch) dest)) w1 of
             (sent, w2) \<Rightarrow>
               let w3 = ux_close u sock w2 in
               if sent < 0 then
                 (False, ch1\<lparr>stats := (stats ch)\<lparr>messages_dropped := messages_dropped (stats ch) + 1\<rparr>\<rparr>, w3)
               else
                 (True, ch1\<lparr>stats := (stats ch)\<lparr>messages_sent := messages_sent (stats ch) + 1,
                                    bytes_sent := bytes_sent (stats ch) + of_int sent\<rparr>\<rparr>, w3))))"

definition ipc_send ::
  "'w ux \<Rightarrow> u64 \<Rightarrow> string \<Rightarrow> string \<Rightarrow> string \<Rightarrow> 'cb ipc_channel \<Rightarrow> 'w \<Rightarrow>
   bool \<times> 'cb ipc_channel \<times> 'w" where
  "ipc_send u now dest tp data ch w = send_raw u now dest tp (bytes_of_string data) ch w"

definition broadcast ::
  "'w ux \<Rightarrow> u64 \<Rightarrow> string \<Rightarrow> string \<Rightarrow> 'cb ipc_channel \<Rightarrow> 'w \<Rightarrow> bool \<times> 'cb ipc_channel \<times> 'w" where
  "broadcast u now tp data ch w = ipc_send u now [] tp data ch w"

subsection \<open>Subscriptions\<close>

text \<open>\<^verbatim>\<open>subscribers_[topic].push_back(cb)\<close>.\<close>

definition subscribe :: "string \<Rightarrow> 'cb \<Rightarrow> 'cb ipc_channel \<Rightarrow> bool \<times> 'cb ipc_channel" where
  "subscribe tp cb ch =
     (True, ch\<lparr>subscribers := AList.update tp
        ((case map_of (subscribers ch) tp of None \<Rightarrow> [] | Some cbs \<Rightarrow> cbs) @ [cb]) (subscribers ch)\<rparr>)"

definition unsubscribe :: "string \<Rightarrow> 'cb ipc_channel \<Rightarrow> bool \<times> 'cb ipc_channel" where
  "unsubscribe tp ch = (True, ch\<lparr>subscribers := AList.delete tp (subscribers ch)\<rparr>)"

definition reply_topic :: "string \<Rightarrow> u64 \<Rightarrow> string" where
  "reply_topic tp seq0 = tp @ '':reply:'' @ dec_of_nat (unat seq0)"

definition request ::
  "'w ux \<Rightarrow> u64 \<Rightarrow> string \<Rightarrow> string \<Rightarrow> string \<Rightarrow> 'cb \<Rightarrow> u32 \<Rightarrow> 'cb ipc_channel \<Rightarrow> 'w \<Rightarrow>
   bool \<times> 'cb ipc_channel \<times> 'w" where
  "request u now dest tp data reply_cb timeout_ms ch w =
     (let ch1 = snd (subscribe (reply_topic tp (next_sequence ch)) reply_cb ch) in
      ipc_send u now dest tp data ch1 w)"

subsection \<open>Receiving\<close>

definition RECV_BUFFER :: nat where "RECV_BUFFER = 65536"

text \<open>The lambda \<^verbatim>\<open>read_field\<close>: the bytes up to the next null or the end of the datagram.\<close>

function read_field :: "u8 list \<Rightarrow> nat \<Rightarrow> nat \<Rightarrow> string \<times> nat" where
  "read_field buffer received pos =
     (if pos < received \<and> buffer ! pos \<noteq> 0 then
        (case read_field buffer received (pos + 1) of (field, pos') \<Rightarrow>
           (char_of_byte (buffer ! pos) # field, pos'))
      else ([], pos + 1))"
  by pat_completeness auto
termination
  by (relation "measure (\<lambda>(buffer, received, pos). received - pos)") auto

definition deserialize :: "u8 list \<Rightarrow> nat \<Rightarrow> ipc_message res" where
  "deserialize buffer received =
     (case read_field buffer received 0 of (from, p1) \<Rightarrow>
      case read_field buffer received p1 of (dest, p2) \<Rightarrow>
      case read_field buffer received p2 of (tp, p3) \<Rightarrow>
      case read_field buffer received p3 of (ts, p4) \<Rightarrow>
      res_bind (stoull ts) (\<lambda>time.
      case read_field buffer received p4 of (sq, p5) \<Rightarrow>
      res_bind (stoull sq) (\<lambda>seq0.
        if length buffer < p5 + 4 then Inl Out_of_bounds
        else
          let len = unat (u32_at buffer p5); p6 = p5 + 4 in
          if length buffer < p6 + len then Inl Out_of_bounds
          else Inr \<lparr>msg_from = from, msg_to = dest, topic = tp, payload = slice buffer p6 len,
                    timestamp = time, sequence = seq0\<rparr>)))"

definition callbacks_for :: "string \<Rightarrow> 'cb ipc_channel \<Rightarrow> 'cb list" where
  "callbacks_for tp ch = (case map_of (subscribers ch) tp of None \<Rightarrow> [] | Some cbs \<Rightarrow> cbs)"

definition handle_message ::
  "ipc_message \<Rightarrow> 'cb ipc_channel \<Rightarrow> ('cb \<times> ipc_message) list \<times> 'cb ipc_channel" where
  "handle_message m ch =
     (if msg_to m \<noteq> [] \<and> msg_to m \<noteq> sandbox_id (config ch) then ([], ch)
      else
        let ch1 = (if length (message_queue ch) < unat (queue_size (config ch))
                   then ch\<lparr>message_queue := message_queue ch @ [m]\<rparr>
                   else ch\<lparr>stats := (stats ch)\<lparr>messages_dropped := messages_dropped (stats ch) + 1\<rparr>\<rparr>)
        in (map (\<lambda>cb. (cb, m)) (callbacks_for (topic m) ch) @
            map (\<lambda>cb. (cb, m)) (callbacks_for ''*'' ch), ch1))"

text \<open>
  The receive thread: \<open>rx_begin\<close> is the code before the loop, \<open>rx_datagram\<close> one turn of the loop
  with the number of bytes \<^verbatim>\<open>recv\<close> reported and the buffer it left.
\<close>

datatype rx_state = Rx_polling int | Rx_done

definition rx_begin :: "'w ux \<Rightarrow> ipc_config \<Rightarrow> 'w \<Rightarrow> rx_state \<times> 'w" where
  "rx_begin u cfg w =
     (case ux_socket u w of (sock, w1) \<Rightarrow>
        if sock < 0 then (Rx_done, w1)
        else (case ux_bind u sock (sun_path (own_socket cfg)) w1 of (rc, w2) \<Rightarrow>
          if rc < 0 then (Rx_done, ux_close u sock w2) else (Rx_polling sock, w2)))"

definition rx_datagram ::
  "int \<Rightarrow> u8 list \<Rightarrow> 'cb ipc_channel \<Rightarrow> (('cb \<times> ipc_message) list \<times> 'cb ipc_channel) res" where
  "rx_datagram received buffer ch =
     (if received \<le> 0 then Inr ([], ch)
      else res_bind (deserialize buffer (nat received)) (\<lambda>m.
        Inr (handle_message m
          (ch\<lparr>stats := (stats ch)\<lparr>messages_received := messages_received (stats ch) + 1,
                bytes_received := bytes_received (stats ch) + of_int received\<rparr>\<rparr>))))"

text \<open>
  The whole loop, for the sequence of what \<^verbatim>\<open>poll\<close> and \<^verbatim>\<open>recv\<close> deliver until \<^verbatim>\<open>connected_\<close> is false: nothing within the timeout, an error
  or an end, or a datagram, of which \<^verbatim>\<open>recv\<close> stores what fits over the bytes of the earlier ones. An exception leaves the thread
  and with it ends the process; otherwise the socket is closed at the end.
\<close>

datatype rx_poll = Rx_timeout | Rx_failed | Rx_data "u8 list"

definition recv_into :: "u8 list \<Rightarrow> u8 list \<Rightarrow> int \<times> u8 list" where
  "recv_into d buffer = (let d' = take RECV_BUFFER d in (int (length d'), memcpy_at buffer 0 d'))"

fun rx_loop :: "rx_poll list \<Rightarrow> u8 list \<Rightarrow> 'cb ipc_channel \<Rightarrow> (('cb \<times> ipc_message) list \<times> 'cb ipc_channel) res" where
  "rx_loop [] buffer ch = Inr ([], ch)"
| "rx_loop (Rx_timeout # ps) buffer ch = rx_loop ps buffer ch"
| "rx_loop (Rx_failed # ps) buffer ch = rx_loop ps buffer ch"
| "rx_loop (Rx_data d # ps) buffer ch =
     (case recv_into d buffer of (n, buffer') \<Rightarrow>
      res_bind (rx_datagram n buffer' ch) (\<lambda>(calls, ch').
      res_bind (rx_loop ps buffer' ch') (\<lambda>(calls', ch''). Inr (calls @ calls', ch''))))"

definition receive_loop ::
  "'w ux \<Rightarrow> rx_poll list \<Rightarrow> u8 list \<Rightarrow> 'cb ipc_channel \<Rightarrow> 'w \<Rightarrow> ((('cb \<times> ipc_message) list \<times> 'cb ipc_channel) \<times> 'w) res" where
  "receive_loop u ps buffer ch w =
     (case rx_begin u (config ch) w of
        (Rx_done, w1) \<Rightarrow> Inr (([], ch), w1)
      | (Rx_polling sock, w1) \<Rightarrow> res_bind (rx_loop ps buffer ch) (\<lambda>r. Inr (r, ux_close u sock w1)))"

definition get_stats :: "'cb ipc_channel \<Rightarrow> queue_stats" where
  "get_stats ch = stats ch"

fun pop_pending :: "nat \<Rightarrow> ipc_message list \<Rightarrow> ipc_message list \<Rightarrow> ipc_message list \<times> ipc_message list" where
  "pop_pending max_count [] result = (result, [])"
| "pop_pending max_count (m # ms) result =
     (if length result < max_count then pop_pending max_count ms (result @ [m])
      else (result, m # ms))"

definition get_pending :: "u32 \<Rightarrow> 'cb ipc_channel \<Rightarrow> ipc_message list \<times> 'cb ipc_channel" where
  "get_pending max_count ch =
     (case pop_pending (unat max_count) (message_queue ch) [] of (result, q) \<Rightarrow>
        (result, ch\<lparr>message_queue := q\<rparr>))"

fun pop_all :: "'e list \<Rightarrow> 'e list" where
  "pop_all [] = []"
| "pop_all (e # es) = pop_all es"

definition drain :: "'cb ipc_channel \<Rightarrow> bool \<times> 'cb ipc_channel" where
  "drain ch = (True, ch\<lparr>message_queue := pop_all (message_queue ch)\<rparr>)"

subsection \<open>The manager\<close>

text \<open>
  The map holds the only reference to a channel once \<^verbatim>\<open>main\<close> has subscribed; a channel that is
  replaced in the map or erased from it is destroyed, and its destructor disconnects.
\<close>

record 'cb ipc_manager =
  base_config :: ipc_config
  channels :: "'cb ipc_channel umap"

definition new_ipc_manager :: "ipc_config \<Rightarrow> 'cb ipc_manager" where
  "new_ipc_manager cfg = \<lparr>base_config = cfg, channels = []\<rparr>"

definition get_channel :: "'cb ipc_manager \<Rightarrow> string \<Rightarrow> 'cb ipc_channel option" where
  "get_channel mgr i = map_of (channels mgr) i"

definition put_channel :: "string \<Rightarrow> 'cb ipc_channel \<Rightarrow> 'cb ipc_manager \<Rightarrow> 'cb ipc_manager" where
  "put_channel i ch mgr = mgr\<lparr>channels := AList.update i ch (channels mgr)\<rparr>"

definition erase_channel :: "string \<Rightarrow> 'cb ipc_manager \<Rightarrow> 'cb ipc_manager" where
  "erase_channel i mgr = mgr\<lparr>channels := AList.delete i (channels mgr)\<rparr>"

definition register_sandbox ::
  "'w ux \<Rightarrow> string \<Rightarrow> 'cb ipc_manager \<Rightarrow> 'w \<Rightarrow> 'cb ipc_channel option \<times> 'cb ipc_manager \<times> 'w" where
  "register_sandbox u i mgr w =
     (case ipc_connect u (new_channel ((base_config mgr)\<lparr>sandbox_id := i\<rparr>)) w of (ok, ch, w1) \<Rightarrow>
        if \<not> ok then (None, mgr, w1)
        else
          let w2 = (case get_channel mgr i of
                      None \<Rightarrow> w1
                    | Some old \<Rightarrow> snd (snd (ipc_disconnect u old w1)))
          in (Some ch, put_channel i ch mgr, w2))"

definition unregister_sandbox ::
  "'w ux \<Rightarrow> string \<Rightarrow> 'cb ipc_manager \<Rightarrow> 'w \<Rightarrow> bool \<times> 'cb ipc_manager \<times> 'w" where
  "unregister_sandbox u i mgr w =
     (case get_channel mgr i of
        None \<Rightarrow> (False, mgr, w)
      | Some ch \<Rightarrow> (True, erase_channel i mgr, snd (snd (ipc_disconnect u ch w))))"

text \<open>The destructor of the manager disconnects every channel.\<close>

definition destroy_ipc_manager :: "'w ux \<Rightarrow> 'cb ipc_manager \<Rightarrow> 'w \<Rightarrow> 'w" where
  "destroy_ipc_manager u mgr w =
     fold (\<lambda>(i, ch) w. snd (snd (ipc_disconnect u ch w))) (channels mgr) w"

fun broadcast_each ::
  "'w ux \<Rightarrow> u64 \<Rightarrow> string \<Rightarrow> string \<Rightarrow> 'cb ipc_channel umap \<Rightarrow> 'w \<Rightarrow> 'cb ipc_channel umap \<times> 'w" where
  "broadcast_each u now tp data [] w = ([], w)"
| "broadcast_each u now tp data ((i, ch) # chs) w =
     (case broadcast u now tp data ch w of (_, ch', w1) \<Rightarrow>
        (case broadcast_each u now tp data chs w1 of (chs', w2) \<Rightarrow> ((i, ch') # chs', w2)))"

definition broadcast_all ::
  "'w ux \<Rightarrow> u64 \<Rightarrow> string \<Rightarrow> string \<Rightarrow> 'cb ipc_manager \<Rightarrow> 'w \<Rightarrow> bool \<times> 'cb ipc_manager \<times> 'w" where
  "broadcast_all u now tp data mgr w =
     (case broadcast_each u now tp data (channels mgr) w of (chs, w') \<Rightarrow>
        (True, mgr\<lparr>channels := chs\<rparr>, w'))"

record ipc_global_stats =
  total_channels :: u64
  total_messages :: u64
  total_bytes :: u64
  active_subscriptions :: u64

definition get_ipc_global_stats :: "'cb ipc_manager \<Rightarrow> ipc_global_stats" where
  "get_ipc_global_stats mgr =
     foldl (\<lambda>g (i, ch).
         g\<lparr>total_messages := total_messages g + (messages_sent (stats ch) + messages_received (stats ch)),
           total_bytes := total_bytes g + (bytes_sent (stats ch) + bytes_received (stats ch))\<rparr>)
       \<lparr>total_channels = of_nat (length (channels mgr)), total_messages = 0, total_bytes = 0,
        active_subscriptions = 0\<rparr> (channels mgr)"

subsection \<open>Specification vocabulary\<close>

text \<open>
  The kernel's address table: \<open>bound w\<close> is the set of socket addresses in use.
\<close>

definition ux_contract :: "'w ux \<Rightarrow> ('w \<Rightarrow> string set) \<Rightarrow> bool" where
  "ux_contract u bound =
     ((\<forall>w. bound (snd (ux_socket u w)) = bound w) \<and>
      (\<forall>s w. bound (ux_close u s w) = bound w) \<and>
      (\<forall>p w. bound (ux_unlink u p w) = bound w - {p}) \<and>
      (\<forall>s p w. if p \<in> bound w then fst (ux_bind u s p w) < 0 \<and> bound (snd (ux_bind u s p w)) = bound w
               else 0 \<le> fst (ux_bind u s p w) \<longrightarrow> bound (snd (ux_bind u s p w)) = insert p (bound w)))"

definition no_nul :: "string \<Rightarrow> bool" where
  "no_nul s = (CHR 0x00 \<notin> set s)"

definition sendable :: "ipc_message \<Rightarrow> bool" where
  "sendable m = (no_nul (msg_from m) \<and> no_nul (msg_to m) \<and> no_nul (topic m))"

definition field_bytes :: "string \<Rightarrow> u8 list" where
  "field_bytes f = bytes_of_string f @ [0]"

definition header_fields :: "ipc_message \<Rightarrow> string list" where
  "header_fields m = [msg_from m, msg_to m, topic m, dec_of_nat (unat (timestamp m)), dec_of_nat (unat (sequence m))]"

definition header_bytes :: "ipc_message \<Rightarrow> u8 list" where
  "header_bytes m = concat (map field_bytes (header_fields m))"

definition queue_inv :: "'cb ipc_channel \<Rightarrow> bool" where
  "queue_inv ch = (length (message_queue ch) \<le> unat (queue_size (config ch)) \<and> umap_inv (subscribers ch))"

definition for_us :: "ipc_config \<Rightarrow> ipc_message \<Rightarrow> bool" where
  "for_us cfg m = (msg_to m = [] \<or> msg_to m = sandbox_id cfg)"

definition handle_all :: "ipc_message list \<Rightarrow> 'cb ipc_channel \<Rightarrow> 'cb ipc_channel" where
  "handle_all ms ch = fold (\<lambda>m c. snd (handle_message m c)) ms ch"

definition short_path :: "string \<Rightarrow> bool" where
  "short_path p = (no_nul p \<and> length p \<le> 107)"

text \<open>A kernel whose world is its address table.\<close>

definition table_ux :: "string set ux" where
  "table_ux =
     \<lparr>ux_socket = (\<lambda>w. (3, w)),
      ux_bind = (\<lambda>s p w. if p \<in> w then (-1, w) else (0, insert p w)),
      ux_unlink = (\<lambda>p w. w - {p}), ux_close = (\<lambda>s w. w),
      ux_sendto = (\<lambda>s d p w. if p \<in> w then (int (length d), w) else (-1, w))\<rparr>"

definition demo_config :: ipc_config where
  "demo_config = \<lparr>sandbox_id = ''a'', socket_path = ''/tmp/sandbox-ipc'', max_message_size = 65536,
     queue_size = 2, enable_logging = False\<rparr>"

definition subscribe_all :: "(string \<times> 'cb) list \<Rightarrow> 'cb ipc_channel \<Rightarrow> 'cb ipc_channel" where
  "subscribe_all subs ch = fold (\<lambda>(tp, cb) c. snd (subscribe tp cb c)) subs ch"

definition subscribed_to :: "string \<Rightarrow> (string \<times> 'cb) list \<Rightarrow> 'cb list" where
  "subscribed_to tp subs = map snd (filter (\<lambda>s. fst s = tp) subs)"

definition count_received :: "nat \<Rightarrow> 'cb ipc_channel \<Rightarrow> 'cb ipc_channel" where
  "count_received k ch =
     ch\<lparr>stats := (stats ch)\<lparr>messages_received := messages_received (stats ch) + 1,
                         bytes_received := bytes_received (stats ch) + of_nat k\<rparr>\<rparr>"

text \<open>The datagrams among the polls; and the messages handled one after another, with the calls they lead to.\<close>

fun datagrams :: "rx_poll list \<Rightarrow> u8 list list" where
  "datagrams [] = []"
| "datagrams (Rx_data d # ps) = d # datagrams ps"
| "datagrams (p # ps) = datagrams ps"

fun deliver_all :: "ipc_message list \<Rightarrow> 'cb ipc_channel \<Rightarrow> ('cb \<times> ipc_message) list \<times> 'cb ipc_channel" where
  "deliver_all [] ch = ([], ch)"
| "deliver_all (m # ms) ch =
     (case handle_message m (count_received (length (serialize m)) ch) of (calls, ch') \<Rightarrow>
      case deliver_all ms ch' of (calls', ch'') \<Rightarrow> (calls @ calls', ch''))"

definition demo_message :: ipc_message where
  "demo_message = \<lparr>msg_from = ''b'', msg_to = ''a'', topic = ''t'', payload = [1, 2, 3],
     timestamp = 5, sequence = 6\<rparr>"

section \<open>Lemmas\<close>

subsection \<open>The wire format\<close>

declare read_field.simps [simp del]

lemma byte_of_char_0_iff [simp]: "byte_of_char c = 0 \<longleftrightarrow> c = CHR 0x00"
proof -
  have "byte_of_char (CHR 0x00) = 0" by (simp add: byte_of_char_def)
  then show ?thesis by (metis char_of_byte_of_char)
qed

lemma read_field_enc:
  "drop pos buffer = bytes_of_string f @ 0 # rest \<Longrightarrow> no_nul f \<Longrightarrow> pos + length f < received \<Longrightarrow>
   read_field buffer received pos = (f, pos + length f + 1)"
proof (induction f arbitrary: pos)
  case Nil
  then have "buffer ! pos = 0" by (auto simp: bytes_of_string_def intro: nth_via_drop)
  then show ?case by (subst read_field.simps) simp
next
  case (Cons c f)
  then have "buffer ! pos = byte_of_char c" "c \<noteq> CHR 0x00"
    "drop (pos + 1) buffer = bytes_of_string f @ 0 # rest"
    by (auto simp: bytes_of_string_def no_nul_def drop_Suc tl_drop [symmetric] intro: nth_via_drop)
  with Cons show ?case by (subst read_field.simps) (simp add: no_nul_def)
qed

interpretation nf: cursor_codec field_bytes
  "\<lambda>buffer pos. Inr (read_field buffer (length buffer) pos) :: fault + _" id no_nul
proof unfold_locales
  fix f pos buffer and rest :: "u8 list"
  assume nn: "no_nul f" and d: "drop pos buffer = field_bytes f @ rest"
  from drop_bound [OF d] have "pos + length f < length buffer" by (simp add: field_bytes_def)
  with nn d show "(Inr (read_field buffer (length buffer) pos) :: fault + _) =
      Inr (id f, pos + length (field_bytes f))"
    by (subst read_field_enc) (auto simp: field_bytes_def)
qed

text \<open>Reading stops at the end of the datagram; what lies behind it is not looked at.\<close>

lemma read_field_take:
  "received \<le> length buffer \<Longrightarrow> read_field (take received buffer) received pos = read_field buffer received pos"
proof (induction "received - pos" arbitrary: pos rule: less_induct)
  case less
  then show ?case
    by (subst (1 2) read_field.simps) (auto split: prod.splits)
qed

lemma no_nul_dec [simp]: "no_nul (dec_of_nat n)"
  using dec_of_nat_digits [of n] by (force simp: no_nul_def is_digit_def)

lemma header_roundtrip:
  assumes "sendable m" and "buffer = header_bytes m @ rest" and "received = length (header_bytes m) + k"
    and "received \<le> length buffer"
  shows "read_many (\<lambda>p. Inr (read_field buffer received p) :: fault + _) 5 0 =
           Inr (header_fields m, length (header_bytes m))"
proof -
  have nn: "no_nul f" if "f \<in> set (header_fields m)" for f
    using that assms(1) by (auto simp: header_fields_def sendable_def)
  have len5: "length (header_fields m) = 5" by (simp add: header_fields_def)
  have len: "length (take received buffer) = received" using assms(4) by simp
  have "read_many (\<lambda>p. Inr (read_field (take received buffer) (length (take received buffer)) p) :: fault + _)
      (length (header_fields m)) 0 =
      Inr (map id (header_fields m), 0 + length (concat (map field_bytes (header_fields m))))"
    using assms(2,3) by (intro nf.read_many_cursor [OF nn]) (auto simp: header_bytes_def)
  then show ?thesis
    unfolding len5 len read_field_take [OF assms(4)] by (simp only: header_bytes_def list.map_id0 id_apply add_0)
qed

lemma serialize_header:
  "serialize m = header_bytes m @ u32_bytes (of_nat (length (payload m))) @ payload m"
  by (simp add: serialize_def header_bytes_def header_fields_def field_bytes_def)

lemma read_many_5:
  "read_many (\<lambda>p. Inr (r p) :: fault + _) 5 0 = Inr ([a, b, c, d, e], q) \<longleftrightarrow>
   (\<exists>p1 p2 p3 p4. r 0 = (a, p1) \<and> r p1 = (b, p2) \<and> r p2 = (c, p3) \<and> r p3 = (d, p4) \<and> r p4 = (e, q))"
  by (auto simp: eval_nat_numeral split: prod.splits sum.splits)

text \<open>
  What the receiver makes of a datagram with a well-formed header: the payload is as long as
  the header claims, taken from the datagram and then from whatever the buffer held before.
\<close>

lemma deserialize_claimed:
  assumes "sendable m" and "buffer = header_bytes m @ u32_bytes n @ data @ stale"
    and "received = length (header_bytes m) + 4 + length data"
  shows "deserialize buffer received =
    (if length buffer < length (header_bytes m) + 4 + unat n then Inl Out_of_bounds
     else Inr (m\<lparr>payload := take (unat n) (data @ stale)\<rparr>))"
proof -
  let ?h = "length (header_bytes m)"
  have "read_many (\<lambda>p. Inr (read_field buffer received p) :: fault + _) 5 0 = Inr (header_fields m, ?h)"
    using assms by (intro header_roundtrip [OF assms(1), where k = "4 + length data"]) auto
  then obtain p1 p2 p3 p4 where r: "read_field buffer received 0 = (msg_from m, p1)"
    "read_field buffer received p1 = (msg_to m, p2)" "read_field buffer received p2 = (topic m, p3)"
    "read_field buffer received p3 = (dec_of_nat (unat (timestamp m)), p4)"
    "read_field buffer received p4 = (dec_of_nat (unat (sequence m)), ?h)"
    unfolding header_fields_def read_many_5 by blast
  have d: "drop ?h buffer = u32_bytes n @ data @ stale" using assms(2) by simp
  have "u32_at buffer ?h = n" using d by (rule u32_at_enc)
  moreover have "slice buffer (?h + 4) k = take k (data @ stale)" for k
    using drop_after [OF d] by (simp add: slice_def)
  moreover have "?h + 4 \<le> length buffer" using assms(2) by simp
  ultimately show ?thesis
    using r by (cases m) (simp add: deserialize_def str_simps Let_def)
qed

subsection \<open>The queue\<close>

lemma pop_pending_eq:
  "length result \<le> k \<Longrightarrow>
   pop_pending k q result = (result @ take (k - length result) q, drop (k - length result) q)"
  by (induction k q result rule: pop_pending.induct) (auto simp: take_Cons' drop_Cons' Suc_diff_le)

lemma pop_all_Nil [simp]: "pop_all es = []"
  by (induction es) auto

lemma handle_message_frame [simp]:
  "config (snd (handle_message m ch)) = config ch"
  "subscribers (snd (handle_message m ch)) = subscribers ch"
  "connected (snd (handle_message m ch)) = connected ch"
  by (simp_all add: handle_message_def Let_def)

lemma handle_message_queue:
  "queue_inv ch \<Longrightarrow>
   message_queue (snd (handle_message m ch)) =
     take (unat (queue_size (config ch))) (message_queue ch @ filter (for_us (config ch)) [m])"
  by (auto simp: handle_message_def Let_def queue_inv_def for_us_def)

lemma queue_inv_handle [inv_intros]: "queue_inv ch \<Longrightarrow> queue_inv (snd (handle_message m ch))"
  by (auto simp: queue_inv_def handle_message_queue)

lemma handle_all_queue:
  "queue_inv ch \<Longrightarrow>
   message_queue (handle_all ms ch) =
     take (unat (queue_size (config ch))) (message_queue ch @ filter (for_us (config ch)) ms) \<and>
   queue_inv (handle_all ms ch)"
proof (induction ms arbitrary: ch)
  case Nil
  then show ?case by (simp add: handle_all_def queue_inv_def)
next
  case (Cons m ms)
  let ?ch = "snd (handle_message m ch)" and ?k = "unat (queue_size (config ch))"
  have "take ?k (take ?k (message_queue ch @ filter (for_us (config ch)) [m]) @ filter (for_us (config ch)) ms)
      = take ?k (message_queue ch @ filter (for_us (config ch)) (m # ms))"
    by (cases "?k - length (message_queue ch)") (auto simp: min_def)
  with Cons.IH [OF queue_inv_handle [OF Cons.prems], of m] Cons.prems show ?case
    by (simp add: handle_all_def handle_message_queue)
qed

lemma queue_inv_ops [inv_intros]:
  assumes "queue_inv ch"
  shows "queue_inv (snd (subscribe tp cb ch))" "queue_inv (snd (unsubscribe tp ch))"
    "queue_inv (snd (get_pending k ch))" "queue_inv (snd (drain ch))"
  using assms by (auto simp: queue_inv_def subscribe_def unsubscribe_def get_pending_def drain_def
      pop_pending_eq intro: inv_intros)

lemma queue_inv_new: "queue_inv (new_channel cfg)"
  by (simp add: queue_inv_def new_channel_def umap_inv_def)

lemma send_raw_frame:
  "case send_raw u now dest tp data ch w of (ok, ch', w') \<Rightarrow>
     config ch' = config ch \<and> message_queue ch' = message_queue ch \<and>
     subscribers ch' = subscribers ch \<and> connected ch' = connected ch"
  by (simp add: send_raw_def Let_def split: prod.splits)

interpretation cr: registry get_channel put_channel erase_channel "\<lambda>mgr. umap_inv (channels mgr)"
  by unfold_locales
    (auto simp: get_channel_def put_channel_def erase_channel_def update_conv delete_conv
      intro: inv_intros)

subsection \<open>Addresses\<close>

lemma ux_contract_facts:
  assumes "ux_contract u bound"
  shows "ux_socket u w = (s, w') \<Longrightarrow> bound w' = bound w" "bound (ux_close u s w) = bound w"
    "bound (ux_unlink u p w) = bound w - {p}"
    "ux_bind u s p w = (rc, w') \<Longrightarrow> p \<in> bound w \<Longrightarrow> rc < 0 \<and> bound w' = bound w"
    "ux_bind u s p w = (rc, w') \<Longrightarrow> p \<notin> bound w \<Longrightarrow> 0 \<le> rc \<Longrightarrow> bound w' = insert p (bound w)"
  using assms unfolding ux_contract_def by (metis fst_conv snd_conv)+

lemma connect_binds:
  assumes "ux_contract u bound" "\<not> connected ch" "ipc_connect u ch w = (True, ch', w')"
  shows "sun_path (own_socket (config ch)) \<in> bound w'" "connected ch'" "config ch' = config ch"
proof -
  obtain s w1 where s: "ux_socket u w = (s, w1)" by fastforce
  define w2 where "w2 = ux_unlink u (c_str (own_socket (config ch))) w1"
  obtain rc w3 where b: "ux_bind u s (sun_path (own_socket (config ch))) w2 = (rc, w3)" by fastforce
  have "0 \<le> rc" "w' = w3" "ch' = ch\<lparr>connected := True\<rparr>"
    using assms(2,3) s b by (auto simp: ipc_connect_def w2_def Let_def split: if_splits)
  then show "sun_path (own_socket (config ch)) \<in> bound w'" "connected ch'" "config ch' = config ch"
    using ux_contract_facts(4,5) [OF assms(1) b] by auto
qed

lemma rx_begin_refused:
  assumes "ux_contract u bound" "sun_path (own_socket cfg) \<in> bound w"
  shows "fst (rx_begin u cfg w) = Rx_done" "bound (snd (rx_begin u cfg w)) = bound w"
proof -
  obtain s w1 where s: "ux_socket u w = (s, w1)" by fastforce
  obtain rc w2 where b: "ux_bind u s (sun_path (own_socket cfg)) w1 = (rc, w2)" by fastforce
  have "rc < 0" "bound w2 = bound w" "bound w1 = bound w"
    using ux_contract_facts(1) [OF assms(1) s] ux_contract_facts(4) [OF assms(1) b] assms(2) by simp_all
  then show "fst (rx_begin u cfg w) = Rx_done" "bound (snd (rx_begin u cfg w)) = bound w"
    using s b ux_contract_facts(2) [OF assms(1)] by (simp_all add: rx_begin_def)
qed

lemma c_str_no_nul: "no_nul p \<Longrightarrow> c_str p = p"
  by (auto simp: c_str_def no_nul_def)

lemma sun_path_short [simp]: "short_path p \<Longrightarrow> sun_path p = p" "short_path p \<Longrightarrow> c_str p = p"
  by (simp_all add: short_path_def sun_path_def c_str_no_nul)

lemma table_contract: "ux_contract table_ux id"
  by (simp add: ux_contract_def table_ux_def)


subsection \<open>Subscribers\<close>

lemma subscribe_frame [simp]:
  "config (snd (subscribe tp cb ch)) = config ch"
  "message_queue (snd (subscribe tp cb ch)) = message_queue ch"
  by (simp_all add: subscribe_def)

lemma callbacks_subscribe:
  "callbacks_for tp (snd (subscribe tp' cb ch)) = callbacks_for tp ch @ subscribed_to tp [(tp', cb)]"
  by (auto simp: callbacks_for_def subscribe_def subscribed_to_def update_conv split: option.splits)

lemma subscribe_all_facts:
  "callbacks_for tp (subscribe_all subs ch) = callbacks_for tp ch @ subscribed_to tp subs \<and>
   config (subscribe_all subs ch) = config ch \<and>
   message_queue (subscribe_all subs ch) = message_queue ch \<and>
   (queue_inv ch \<longrightarrow> queue_inv (subscribe_all subs ch))"
proof (induction subs arbitrary: ch)
  case Nil
  then show ?case by (simp add: subscribe_all_def subscribed_to_def)
next
  case (Cons s subs)
  from Cons [of "snd (subscribe (fst s) (snd s) ch)"] show ?case
    by (auto simp: subscribe_all_def callbacks_subscribe subscribed_to_def case_prod_unfold
        intro: inv_intros)
qed

lemma callbacks_handle [simp]: "callbacks_for tp (snd (handle_message m ch)) = callbacks_for tp ch"
  by (simp add: callbacks_for_def)

lemma handle_all_frame [simp]:
  "callbacks_for tp (handle_all ms ch) = callbacks_for tp ch \<and> config (handle_all ms ch) = config ch"
  by (induction ms arbitrary: ch) (auto simp: handle_all_def)

lemma handle_calls:
  "fst (handle_message m ch) =
     (if for_us (config ch) m
      then map (\<lambda>cb. (cb, m)) (callbacks_for (topic m) ch @ callbacks_for ''*'' ch) else [])"
  by (auto simp: handle_message_def for_us_def Let_def)

lemma demo_lengths:
  "sendable demo_message" "length (header_bytes demo_message) = 10" "length (serialize demo_message) = 17"
  by (simp_all add: sendable_def no_nul_def serialize_header header_bytes_def header_fields_def field_bytes_def
      demo_message_def dec_of_nat.simps)

section \<open>Properties\<close>

text \<open>
  Round trip: a datagram built by \<open>send_raw\<close> and received whole in the 64 KiB buffer, over
  any left-over bytes, is handled as exactly the message that was sent, and counted; the only
  conditions are that the ids and the topic hold no null byte and that the datagram fits.
\<close>

theorem ipc_roundtrip:
  assumes "sendable m" and "buffer = serialize m @ stale" and "length buffer = RECV_BUFFER"
  shows "rx_datagram (int (length (serialize m))) buffer ch =
           Inr (handle_message m (count_received (length (serialize m)) ch))"
proof -
  have "length (payload m) < 2 ^ 32"
    using assms(2,3) by (simp add: serialize_header RECV_BUFFER_def)
  then have n: "unat (of_nat (length (payload m)) :: u32) = length (payload m)"
    by (simp add: unat_of_nat)
  have "deserialize buffer (length (serialize m)) = Inr m"
    using deserialize_claimed [OF assms(1), of buffer "of_nat (length (payload m))" "payload m" stale]
      assms(2) by (simp add: serialize_header n add.assoc)
  moreover have "0 < length (serialize m)" by (simp add: serialize_def)
  ultimately show ?thesis
    by (simp add: rx_datagram_def count_received_def)
qed

theorem ipc_roundtrip_witness:
  "rx_datagram (int (length (serialize demo_message)))
     (serialize demo_message @ replicate (RECV_BUFFER - length (serialize demo_message)) 7)
     (new_channel demo_config :: nat ipc_channel) =
   Inr (handle_message demo_message (count_received (length (serialize demo_message)) (new_channel demo_config)))"
  by (rule ipc_roundtrip) (simp_all add: demo_lengths RECV_BUFFER_def)

text \<open>The loop on what \<open>send_raw\<close> built, and on a datagram that is not a message.\<close>

definition fits_buffer :: "ipc_message \<Rightarrow> bool" where
  "fits_buffer m = (sendable m \<and> length (serialize m) \<le> RECV_BUFFER)"

lemma rx_loop_message:
  assumes "fits_buffer m" "length buffer = RECV_BUFFER"
  shows "\<exists>b. length b = RECV_BUFFER \<and> (\<forall>ps. rx_loop (Rx_data (serialize m) # ps) buffer ch =
    (case handle_message m (count_received (length (serialize m)) ch) of (calls, ch') \<Rightarrow>
     res_bind (rx_loop ps b ch') (\<lambda>(calls', ch''). Inr (calls @ calls', ch''))))"
proof -
  let ?b = "serialize m @ drop (length (serialize m)) buffer"
  have b: "length ?b = RECV_BUFFER" using assms by (simp add: fits_buffer_def)
  have "recv_into (serialize m) buffer = (int (length (serialize m)), ?b)"
    using assms(1) by (simp add: recv_into_def memcpy_at_def fits_buffer_def Let_def)
  moreover have "rx_datagram (int (length (serialize m))) ?b ch = Inr (handle_message m (count_received (length (serialize m)) ch))"
    using assms(1) by (intro ipc_roundtrip [OF _ refl b]) (simp add: fits_buffer_def)
  ultimately show ?thesis using b by (intro exI [of _ ?b]) (simp split: prod.split)
qed

lemma rx_loop_delivered:
  "list_all fits_buffer ms \<Longrightarrow> datagrams ps = map serialize ms \<Longrightarrow> length buffer = RECV_BUFFER \<Longrightarrow> rx_loop ps buffer ch = Inr (deliver_all ms ch)"
proof (induction ps arbitrary: ms buffer ch)
  case (Cons p ps)
  show ?case
  proof (cases p)
    case (Rx_data d)
    then obtain m ms' where ms: "ms = m # ms'" "d = serialize m" "datagrams ps = map serialize ms'" using Cons.prems(2) by auto
    have "fits_buffer m" "list_all fits_buffer ms'" using Cons.prems(1) by (simp_all add: ms)
    obtain b where b: "length b = RECV_BUFFER" "\<And>ps. rx_loop (Rx_data (serialize m) # ps) buffer ch =
      (case handle_message m (count_received (length (serialize m)) ch) of (calls, ch') \<Rightarrow>
       res_bind (rx_loop ps b ch') (\<lambda>(calls', ch''). Inr (calls @ calls', ch'')))"
      using rx_loop_message [OF \<open>fits_buffer m\<close> Cons.prems(3), of ch] by blast
    show ?thesis using Cons.IH [OF \<open>list_all fits_buffer ms'\<close> ms(3) b(1)] by (simp only: Rx_data ms b(2)) (simp split: prod.split)
  qed (use Cons in auto)
qed simp

lemma read_field_no_null: "\<forall>b \<in> set d. b \<noteq> 0 \<Longrightarrow> length d \<le> length buffer \<Longrightarrow> take (length d) buffer = d \<Longrightarrow> length d \<le> pos + k \<Longrightarrow>
  \<exists>f p. read_field buffer (length d) pos = (f, p) \<and> length d < p"
proof (induction k arbitrary: pos)
  case 0
  then show ?case by (subst read_field.simps) simp
next
  case (Suc k)
  have "length d \<le> pos + 1 + k" using Suc.prems(4) by simp
  from Suc.IH [OF Suc.prems(1-3) this] obtain f p where "read_field buffer (length d) (pos + 1) = (f, p)" "length d < p" by blast
  moreover have "buffer ! pos \<noteq> 0" if "pos < length d" using that Suc.prems(1,3) by (metis nth_mem nth_take)
  ultimately show ?case by (subst read_field.simps) (auto split: prod.split)
qed

lemma read_field_behind: "received < pos \<Longrightarrow> read_field buffer received pos = ([], pos + 1)"
  by (subst read_field.simps) simp

lemma no_null_throws:
  assumes "d \<noteq> []" "\<forall>b \<in> set d. b \<noteq> 0" "length d \<le> RECV_BUFFER" "length buffer = RECV_BUFFER"
  shows "rx_loop (Rx_data d # ps) buffer ch = Inl Invalid_argument"
proof -
  let ?b = "memcpy_at buffer 0 d"
  have b: "take (length d) ?b = d" "length d \<le> length ?b" using assms(3,4) by (simp_all add: memcpy_at_def)
  obtain f p where f: "read_field ?b (length d) 0 = (f, p)" "length d < p"
    using read_field_no_null [OF assms(2) b(2,1), of 0 "length d"] by auto
  have "stoull [] = Inl Invalid_argument" by (simp add: stoull_def scan_number_def)
  then have "deserialize ?b (length d) = Inl Invalid_argument" using f(2) by (simp add: deserialize_def f(1) read_field_behind)
  moreover have "recv_into d buffer = (int (length d), ?b)" using assms(3) by (simp add: recv_into_def Let_def)
  ultimately show ?thesis using assms(1) by (simp add: rx_datagram_def)
qed

lemma rx_loop_throws:
  assumes "d \<noteq> []" "\<forall>b \<in> set d. b \<noteq> 0" "length d \<le> RECV_BUFFER"
  shows "list_all fits_buffer ms \<Longrightarrow> datagrams ps = map serialize ms \<Longrightarrow> length buffer = RECV_BUFFER \<Longrightarrow>
    rx_loop (ps @ Rx_data d # qs) buffer ch = Inl Invalid_argument"
proof (induction ps arbitrary: ms buffer ch)
  case Nil
  then show ?case using no_null_throws [OF assms] by simp
next
  case (Cons p ps)
  show ?case
  proof (cases p)
    case (Rx_data d')
    then obtain m ms' where ms: "ms = m # ms'" "d' = serialize m" "datagrams ps = map serialize ms'" using Cons.prems(2) by auto
    have "fits_buffer m" "list_all fits_buffer ms'" using Cons.prems(1) by (simp_all add: ms)
    obtain b where b: "length b = RECV_BUFFER" "\<And>ps. rx_loop (Rx_data (serialize m) # ps) buffer ch =
      (case handle_message m (count_received (length (serialize m)) ch) of (calls, ch') \<Rightarrow>
       res_bind (rx_loop ps b ch') (\<lambda>(calls', ch''). Inr (calls @ calls', ch'')))"
      using rx_loop_message [OF \<open>fits_buffer m\<close> Cons.prems(3), of ch] by blast
    show ?thesis using Cons.IH [OF \<open>list_all fits_buffer ms'\<close> ms(3) b(1)] by (simp only: Rx_data ms b(2) append_Cons) (simp split: prod.split)
  qed (use Cons in auto)
qed

text \<open>
  C17. What the receive thread of a channel does, once \<^verbatim>\<open>connect\<close> has succeeded. \<^verbatim>\<open>connect\<close> leaves the address of the channel in use, by a socket
  nobody reads; as long as it is in use when the thread comes to bind it, the thread ends at once and no datagram is ever handled. When
  the address has become free (registering an id again unlinks it), the thread listens, unless the kernel
  refuses a socket or the address: then every message that was built by \<open>send_raw\<close> and fits the buffer is handled, in the
  order of arrival and exactly as it was sent, whatever the earlier datagrams left in the buffer and however many
  timeouts and errors come between, and the socket is closed at the end. But one datagram without a null byte, which
  anyone may send to the socket, throws out of the thread and ends the process, whatever comes after it.
\<close>

theorem receive_loop_delivers:
  assumes "ux_contract u bound" "\<not> connected ch0" "ipc_connect u ch0 w = (True, ch, w')" "length buffer = RECV_BUFFER"
    and "list_all fits_buffer ms" "datagrams ps = map serialize ms"
    and "d \<noteq> []" "\<forall>b \<in> set d. b \<noteq> 0" "length d \<le> RECV_BUFFER"
  shows "connected ch \<and> sun_path (own_socket (config ch)) \<in> bound w' \<and>
    (if sun_path (own_socket (config ch)) \<in> bound v
     then \<exists>v'. bound v' = bound v \<and> (\<forall>polls. receive_loop u polls buffer ch v = Inr (([], ch), v'))
     else case rx_begin u (config ch) v of
         (Rx_done, v1) \<Rightarrow> receive_loop u ps buffer ch v = Inr (([], ch), v1)
       | (Rx_polling sock, v1) \<Rightarrow>
           receive_loop u ps buffer ch v = Inr (deliver_all ms ch, ux_close u sock v1) \<and>
           receive_loop u (ps @ Rx_data d # qs) buffer ch v = Inl Invalid_argument)"
proof -
  have con: "connected ch \<and> sun_path (own_socket (config ch)) \<in> bound w'" using connect_binds [OF assms(1-3)] by simp
  show ?thesis
  proof (cases "sun_path (own_socket (config ch)) \<in> bound v")
    case True
    obtain v' where "rx_begin u (config ch) v = (Rx_done, v')" "bound v' = bound v"
      using rx_begin_refused [OF assms(1) True] by (cases "rx_begin u (config ch) v") auto
    then show ?thesis using con True by (auto simp: receive_loop_def)
  next
    case False
    then show ?thesis
      using con rx_loop_delivered [OF assms(5,6,4), of ch] rx_loop_throws [OF assms(7-9,5,6,4), of qs ch]
      by (auto simp: receive_loop_def split: prod.split rx_state.split)
  qed
qed

text \<open>A kernel that is an address table, and an id that is registered twice.\<close>

definition demo_channel :: "nat ipc_channel" where
  "demo_channel = (new_channel demo_config)\<lparr>connected := True\<rparr>"

lemma demo_short: "short_path (own_socket demo_config)"
  by (simp add: short_path_def no_nul_def own_socket_def socket_file_def demo_config_def)

lemma demo_connect: "ipc_connect table_ux (new_channel demo_config) w = (True, demo_channel, insert (own_socket demo_config) w)"
  using demo_short by (simp add: ipc_connect_def demo_channel_def new_channel_def table_ux_def Let_def)

lemma demo_registered:
  "register_sandbox table_ux ''a'' (new_ipc_manager demo_config) {} =
     (Some demo_channel, put_channel ''a'' demo_channel (new_ipc_manager demo_config), {own_socket demo_config})"
  "register_sandbox table_ux ''a'' (put_channel ''a'' demo_channel (new_ipc_manager demo_config)) {own_socket demo_config} =
     (Some demo_channel, put_channel ''a'' demo_channel (put_channel ''a'' demo_channel (new_ipc_manager demo_config)), {})"
proof -
  have same: "demo_config\<lparr>sandbox_id := ''a''\<rparr> = demo_config" by (simp add: demo_config_def)
  have dis: "snd (snd (ipc_disconnect table_ux demo_channel w)) = w - {own_socket demo_config}" for w
    using demo_short by (simp add: ipc_disconnect_def demo_channel_def new_channel_def table_ux_def)
  show "register_sandbox table_ux ''a'' (new_ipc_manager demo_config) {} =
     (Some demo_channel, put_channel ''a'' demo_channel (new_ipc_manager demo_config), {own_socket demo_config})"
    by (simp add: register_sandbox_def new_ipc_manager_def same demo_connect get_channel_def)
  show "register_sandbox table_ux ''a'' (put_channel ''a'' demo_channel (new_ipc_manager demo_config)) {own_socket demo_config} =
     (Some demo_channel, put_channel ''a'' demo_channel (put_channel ''a'' demo_channel (new_ipc_manager demo_config)), {})"
    by (simp add: register_sandbox_def new_ipc_manager_def same demo_connect get_channel_def put_channel_def dis)
qed

theorem receive_loop_delivers_witness:
  "case register_sandbox table_ux ''a'' (new_ipc_manager demo_config) {} of (_, mgr, w) \<Rightarrow>
     (case register_sandbox table_ux ''a'' mgr w of (c, mgr', v) \<Rightarrow>
        c = Some demo_channel \<and>
        receive_loop table_ux [Rx_data (serialize demo_message)] (replicate RECV_BUFFER 7) demo_channel w = Inr (([], demo_channel), w) \<and>
        receive_loop table_ux [Rx_timeout, Rx_data (serialize demo_message), Rx_failed] (replicate RECV_BUFFER 7) demo_channel v =
          Inr (deliver_all [demo_message] demo_channel, {own_socket demo_config}) \<and>
        receive_loop table_ux [Rx_timeout, Rx_data (serialize demo_message), Rx_failed, Rx_data [33]] (replicate RECV_BUFFER 7)
          demo_channel v = Inl Invalid_argument)"
proof -
  have cfg: "config demo_channel = demo_config" by (simp add: demo_channel_def new_channel_def)
  have nc: "\<not> connected (new_channel demo_config :: nat ipc_channel)" by (simp add: new_channel_def)
  have rx: "rx_begin table_ux demo_config {} = (Rx_polling 3, {own_socket demo_config})"
    using demo_short by (simp add: rx_begin_def table_ux_def)
  have cl: "ux_close table_ux s v = v" for s v by (simp add: table_ux_def)
  note hyps = table_contract nc demo_connect [of "{}"]
  have fit: "list_all fits_buffer [demo_message]" by (simp add: fits_buffer_def demo_lengths RECV_BUFFER_def)
  note at = receive_loop_delivers [OF hyps _ fit, of "replicate RECV_BUFFER 7" "[Rx_timeout, Rx_data (serialize demo_message), Rx_failed]" "[33]" _ "[]"]
  have "\<exists>v'. v' = {own_socket demo_config} \<and> (\<forall>polls. receive_loop table_ux polls (replicate RECV_BUFFER 7) demo_channel {own_socket demo_config} =
      Inr (([], demo_channel), v'))"
    using at [of "{own_socket demo_config}"] demo_short by (simp add: cfg RECV_BUFFER_def del: replicate.simps)
  moreover have "receive_loop table_ux [Rx_timeout, Rx_data (serialize demo_message), Rx_failed] (replicate RECV_BUFFER 7) demo_channel {} =
        Inr (deliver_all [demo_message] demo_channel, {own_socket demo_config}) \<and>
      receive_loop table_ux [Rx_timeout, Rx_data (serialize demo_message), Rx_failed, Rx_data [33]] (replicate RECV_BUFFER 7) demo_channel {} =
        Inl Invalid_argument"
    using at [of "{}"] by (simp add: cfg rx cl RECV_BUFFER_def del: replicate.simps deliver_all.simps)
  ultimately show ?thesis by (simp only: demo_registered prod.case) simp
qed

text \<open>
  The payload length in a datagram is believed. For a datagram with a well-formed header
  that claims n bytes and carries fewer, the receiver hands on a payload of n bytes completed
  with what earlier datagrams left in the buffer, and past the end of the 64 KiB buffer it
  reads outside the array.
\<close>

theorem claimed_length_trusted:
  assumes "sendable m" and "buffer = header_bytes m @ u32_bytes n @ data @ stale"
    and "length buffer = RECV_BUFFER" and "length data < unat n"
  shows "deserialize buffer (length (header_bytes m) + 4 + length data) =
    (if RECV_BUFFER < length (header_bytes m) + 4 + unat n then Inl Out_of_bounds
     else Inr (m\<lparr>payload := data @ take (unat n - length data) stale\<rparr>))"
  using deserialize_claimed [OF assms(1,2) refl] assms(3,4) by simp

theorem claimed_length_trusted_witness:
  "deserialize (header_bytes demo_message @ u32_bytes 70000 @ [] @
       replicate (RECV_BUFFER - (length (header_bytes demo_message) + 4)) 7)
     (length (header_bytes demo_message) + 4 + length ([] :: u8 list)) = Inl Out_of_bounds"
  using claimed_length_trusted [OF demo_lengths(1) refl, of 70000 "[]"
      "replicate (RECV_BUFFER - (length (header_bytes demo_message) + 4)) 7"]
  by (simp add: demo_lengths RECV_BUFFER_def)

text \<open>
  The receive thread of a connected channel never listens: \<open>connect\<close> has bound the channel's
  address to a socket it then forgets, and the thread tries to bind the same address again,
  which fails for as long as the address is in use, so the thread ends before its loop.
\<close>

theorem receiver_never_listens:
  assumes "ux_contract u bound" and "\<not> connected ch" and "ipc_connect u ch w = (True, ch', w')"
    and "bound w' \<subseteq> bound v"
  shows "connected ch' \<and> fst (rx_begin u (config ch') v) = Rx_done"
  using connect_binds [OF assms(1-3)] rx_begin_refused [OF assms(1), of "config ch'" v] assms(4) by auto

theorem receiver_never_listens_witness:
  "fst (rx_begin table_ux demo_config {own_socket demo_config}) = Rx_done"
proof -
  have c: "ipc_connect table_ux (new_channel demo_config :: nat ipc_channel) {} =
      (True, (new_channel demo_config)\<lparr>connected := True\<rparr>, {own_socket demo_config})"
    by (simp add: ipc_connect_def new_channel_def table_ux_def own_socket_def socket_file_def
        demo_config_def sun_path_def c_str_def Let_def)
  have "\<not> connected (new_channel demo_config :: nat ipc_channel)" by (simp add: new_channel_def)
  from receiver_never_listens [OF table_contract this c, of "{own_socket demo_config}"]
  show ?thesis by (simp add: new_channel_def)
qed

text \<open>
  C34. Delivery inside a channel: after any subscriptions and any messages, a message for the
  channel (or for everybody) calls the subscribers of its topic and then those of the wildcard,
  each group in the order of subscription, and \<open>get_pending\<close> returns the earliest messages that
  were for the channel, in the order of arrival, at most \<open>queue_size\<close> of them and at most as many
  as asked for, and leaves the rest.
\<close>

theorem channel_delivery:
  "let ch = handle_all ms (subscribe_all subs (new_channel cfg));
       kept = take (unat (queue_size cfg)) (filter (for_us cfg) ms) in
   fst (handle_message m ch) =
     (if for_us cfg m
      then map (\<lambda>cb. (cb, m)) (subscribed_to (topic m) subs @ subscribed_to ''*'' subs) else []) \<and>
   fst (get_pending k ch) = take (unat k) kept \<and>
   message_queue (snd (get_pending k ch)) = drop (unat k) kept"
proof -
  let ?ch = "subscribe_all subs (new_channel cfg)"
  have new: "callbacks_for tp (new_channel cfg) = []" "message_queue (new_channel cfg) = []"
    "config (new_channel cfg) = cfg" for tp
    by (simp_all add: callbacks_for_def new_channel_def)
  have sub: "callbacks_for tp ?ch = subscribed_to tp subs" "config ?ch = cfg" "message_queue ?ch = []"
    "queue_inv ?ch" for tp
    using subscribe_all_facts [of _ subs "new_channel cfg"] by (simp_all add: new queue_inv_new)
  have "message_queue (handle_all ms ?ch) = take (unat (queue_size cfg)) (filter (for_us cfg) ms)"
    using handle_all_queue [OF sub(4), of ms] by (simp add: sub)
  then show ?thesis
    by (simp add: handle_calls sub get_pending_def pop_pending_eq)
qed

text \<open>
  Registering an id that is already registered leaves the new channel without its address:
  the new channel binds the path, then the old one is dropped from the map and its destructor
  unlinks the same path, so the channel in the map says it is connected and cannot be reached.
\<close>

theorem reregister_unlinks_new_socket:
  fixes mgr mgr' :: "'cb ipc_manager"
  assumes "ux_contract u bound" and "get_channel mgr i = Some old" and "connected old"
    and "config old = (base_config mgr)\<lparr>sandbox_id := i\<rparr>"
    and "short_path (own_socket (config old))"
    and "register_sandbox u i mgr w = (Some ch, mgr', w')"
  shows "get_channel mgr' i = Some ch \<and> connected ch \<and> sun_path (own_socket (config ch)) \<notin> bound w'"
proof -
  obtain ok w1 and c :: "'cb ipc_channel" where con: "ipc_connect u (new_channel (config old)) w = (ok, c, w1)"
    by (metis prod_cases3)
  have nc: "\<not> connected (new_channel (config old) :: 'cb ipc_channel)"
    "config (new_channel (config old) :: 'cb ipc_channel) = config old"
    by (simp_all add: new_channel_def)
  from assms con have "ok" "c = ch" "mgr' = put_channel i ch mgr" "w' = ux_unlink u (own_socket (config old)) w1"
    by (auto simp: register_sandbox_def ipc_disconnect_def Let_def split: if_splits)
  moreover from this connect_binds [OF assms(1) nc(1)] con nc(2) have "connected ch" "config ch = config old" by auto
  ultimately show ?thesis
    using assms(5) ux_contract_facts(3) [OF assms(1)] by (simp add: get_channel_def put_channel_def update_conv)
qed


theorem reregister_unlinks_new_socket_witness:
  "case register_sandbox table_ux ''a'' (new_ipc_manager demo_config :: nat ipc_manager) {} of
     (_, mgr, w) \<Rightarrow> (case register_sandbox table_ux ''a'' mgr w of
       (c, mgr', w') \<Rightarrow> w = {own_socket demo_config} \<and> own_socket demo_config \<notin> w' \<and>
         map_option connected (get_channel mgr' ''a'') = Some True)"
proof -
  let ?m = "put_channel ''a'' demo_channel (new_ipc_manager demo_config)"
  have "get_channel ?m ''a'' = Some demo_channel" by (simp add: get_channel_def put_channel_def new_ipc_manager_def)
  moreover have "connected demo_channel" "config demo_channel = (base_config ?m)\<lparr>sandbox_id := ''a''\<rparr>" "config demo_channel = demo_config"
    by (simp_all add: put_channel_def new_ipc_manager_def demo_channel_def new_channel_def demo_config_def)
  ultimately show ?thesis
    using reregister_unlinks_new_socket [OF table_contract _ _ _ _ demo_registered(2)] demo_short
    unfolding demo_registered prod.case by simp
qed

end
