(* ===== verification/Health_Monitor.thy ===== *)
theory Health_Monitor
  imports Containers
begin

section \<open>Health checks\<close>

text \<open>
  \<^verbatim>\<open>sandbox/src/health_monitor.cpp\<close> and its header. A check is an abstract value \<open>'c\<close>; \<open>run\<close> gives
  its verdict and the message it leaves. The mutex records the thread that holds it;
  unlocking a mutex that the thread does not hold is undefined behaviour and ends the turn
  with \<open>Mutex_misuse\<close>. Time points are numbers.
\<close>

record health_status =
  hs_id :: string
  healthy :: bool
  message :: string
  last_check :: nat

record 'c health_monitor =
  checks :: "(string \<times> 'c) list"
  statuses :: "(string \<times> health_status) list"
  interval_ms :: u32
  running :: bool
  has_thread :: bool
  owner :: "nat option"

definition new_health_monitor :: "'c health_monitor" where
  "new_health_monitor =
     \<lparr>checks = [], statuses = [], interval_ms = 5000, running = False, has_thread = False, owner = None\<rparr>"

definition register_check :: "nat \<Rightarrow> string \<Rightarrow> 'c \<Rightarrow> 'c health_monitor \<Rightarrow> 'c health_monitor" where
  "register_check now i fn hm =
     hm\<lparr>checks := omap_set i fn (checks hm),
        statuses := omap_set i \<lparr>hs_id = i, healthy = True, message = ''pending'', last_check = now\<rparr> (statuses hm)\<rparr>"

definition set_interval_ms :: "u32 \<Rightarrow> 'c health_monitor \<Rightarrow> 'c health_monitor" where
  "set_interval_ms ms hm = hm\<lparr>interval_ms := ms\<rparr>"

definition start :: "'c health_monitor \<Rightarrow> 'c health_monitor" where
  "start hm = (if running hm then hm else hm\<lparr>running := True, has_thread := True\<rparr>)"

definition stop :: "'c health_monitor \<Rightarrow> 'c health_monitor" where
  "stop hm = hm\<lparr>running := False, has_thread := False\<rparr>"

definition get_all :: "'c health_monitor \<Rightarrow> health_status list" where
  "get_all hm = map snd (statuses hm)"

definition is_healthy :: "string \<Rightarrow> 'c health_monitor \<Rightarrow> bool" where
  "is_healthy i hm = (case map_of (statuses hm) i of None \<Rightarrow> False | Some st \<Rightarrow> healthy st)"

definition unhealthy_count :: "'c health_monitor \<Rightarrow> nat" where
  "unhealthy_count hm = foldl (\<lambda>n (i, st). if \<not> healthy st then n + 1 else n) 0 (statuses hm)"

subsection \<open>The monitor loop\<close>

definition lock :: "nat \<Rightarrow> 'c health_monitor \<Rightarrow> 'c health_monitor res" where
  "lock me hm = (if owner hm = Some me then Inl Mutex_misuse else Inr (hm\<lparr>owner := Some me\<rparr>))"

definition unlock :: "nat \<Rightarrow> 'c health_monitor \<Rightarrow> 'c health_monitor res" where
  "unlock me hm = (if owner hm = Some me then Inr (hm\<lparr>owner := None\<rparr>) else Inl Mutex_misuse)"

definition checked_status :: "nat \<Rightarrow> ('c \<Rightarrow> bool \<times> string) \<Rightarrow> string \<Rightarrow> 'c \<Rightarrow> health_status" where
  "checked_status now run i fn =
     (case run fn of (ok, msg) \<Rightarrow>
        \<lparr>hs_id = i, healthy = ok, message = (if msg = [] then if ok then ''ok'' else ''unhealthy'' else msg),
         last_check = now\<rparr>)"

definition run_checks :: "nat \<Rightarrow> ('c \<Rightarrow> bool \<times> string) \<Rightarrow> 'c health_monitor \<Rightarrow> 'c health_monitor" where
  "run_checks now run hm =
     hm\<lparr>statuses := fold (\<lambda>(i, fn). omap_set i (checked_status now run i fn)) (checks hm) (statuses hm)\<rparr>"

text \<open>
  One turn: the guard locks, the checks run, the guard's destructor is called explicitly, the
  thread sleeps while others work (\<open>others\<close>, during which another thread may take the mutex but
  not in this thread's name), and at the end of the block the destructor runs again.
\<close>

definition monitor_turn ::
  "nat \<Rightarrow> nat \<Rightarrow> ('c \<Rightarrow> bool \<times> string) \<Rightarrow> ('c health_monitor \<Rightarrow> 'c health_monitor) \<Rightarrow>
   'c health_monitor \<Rightarrow> 'c health_monitor res" where
  "monitor_turn me now run others hm =
     res_bind (lock me hm) (\<lambda>h1.
     res_bind (unlock me (run_checks now run h1)) (\<lambda>h2.
       unlock me (others h2)))"

text \<open>The state other threads see while the monitor sleeps.\<close>

definition during_sleep :: "nat \<Rightarrow> nat \<Rightarrow> ('c \<Rightarrow> bool \<times> string) \<Rightarrow> 'c health_monitor \<Rightarrow> 'c health_monitor res" where
  "during_sleep me now run hm = res_bind (lock me hm) (\<lambda>h1. unlock me (run_checks now run h1))"

definition hm_inv :: "'c health_monitor \<Rightarrow> bool" where
  "hm_inv hm = (omap_inv (checks hm) \<and> omap_inv (statuses hm) \<and> map fst (statuses hm) = map fst (checks hm))"

definition register_all :: "(string \<times> 'c) list \<Rightarrow> 'c health_monitor \<Rightarrow> 'c health_monitor" where
  "register_all cs hm = fold (\<lambda>(i, fn). register_check 0 i fn) cs hm"

section \<open>Lemmas\<close>

lemma hm_inv_new: "hm_inv new_health_monitor"
  by (simp add: hm_inv_def new_health_monitor_def omap_inv_def)

lemma hm_inv_register [inv_intros]:
  assumes "hm_inv hm" shows "hm_inv (register_check now i fn hm)"
proof -
  have inv: "omap_inv (checks hm)" "omap_inv (statuses hm)" "map fst (statuses hm) = map fst (checks hm)"
    using assms by (auto simp: hm_inv_def)
  then have "fst ` set (statuses hm) = fst ` set (checks hm)" by (metis list.set_map)
  with inv(1,2) show ?thesis
    unfolding hm_inv_def register_check_def
    by (simp add: omap_inv_set) (intro omap_same_keys omap_inv_set; simp add: set_keys_omap_set)
qed

lemma hm_inv_register_all: "hm_inv hm \<Longrightarrow> hm_inv (register_all cs hm)"
  unfolding register_all_def by (induction cs arbitrary: hm) (auto intro: inv_intros)

lemma owner_register_all [simp]: "owner (register_all cs hm) = owner hm"
  unfolding register_all_def by (induction cs arbitrary: hm) (auto simp: register_check_def)

lemma checks_register_all:
  "hm_inv hm \<Longrightarrow> map_of (checks (register_all cs hm)) i =
     (case map_of (rev cs) i of Some fn \<Rightarrow> Some fn | None \<Rightarrow> map_of (checks hm) i)"
proof -
  assume "hm_inv hm"
  moreover have "checks (register_all cs hm) = fold (\<lambda>(i, fn). omap_set i fn) cs (checks hm)"
    unfolding register_all_def by (induction cs arbitrary: hm) (auto simp: register_check_def)
  ultimately show ?thesis using om.find_fold_ins [of "checks hm" cs i] by (simp add: hm_inv_def)
qed

text \<open>After the checks every status is the result of the check of the same id.\<close>

lemma run_checks_statuses:
  assumes "hm_inv hm"
  shows "statuses (run_checks now run hm) = map (\<lambda>(i, fn). (i, checked_status now run i fn)) (checks hm)"
proof -
  let ?kvs = "map (\<lambda>(i, fn). (i, checked_status now run i fn)) (checks hm)"
  have inv: "omap_inv (checks hm)" "omap_inv (statuses hm)" "map fst (statuses hm) = map fst (checks hm)"
    using assms by (auto simp: hm_inv_def)
  have f: "statuses (run_checks now run hm) = fold (\<lambda>(k, v). omap_set k v) ?kvs (statuses hm)"
    by (simp add: run_checks_def fold_map comp_def case_prod_unfold)
  have keys: "map fst ?kvs = map fst (checks hm)" by (simp add: comp_def case_prod_unfold)
  then have kinv: "omap_inv ?kvs" using inv(1) by (simp only: omap_inv_def)
  then have dist: "distinct (map fst ?kvs)" unfolding omap_inv_def strict_sorted_iff by blast
  have sinv: "omap_inv (statuses (run_checks now run hm))" unfolding f using om.inv_fold_ins [OF inv(2)] .
  have eq: "map_of (statuses (run_checks now run hm)) k = map_of ?kvs k" for k
  proof -
    have "map_of (rev ?kvs) k = map_of ?kvs k"
      using map_of_rev_distinct [OF dist] by simp
    moreover have "map_of ?kvs k = None \<Longrightarrow> map_of (statuses hm) k = None"
      unfolding map_of_eq_None_iff set_map [symmetric] keys inv(3) .
    ultimately show ?thesis unfolding f om.find_fold_ins [OF inv(2)] by (cases "map_of ?kvs k") simp_all
  qed
  show ?thesis by (rule omap_eqI [OF sinv kinv]) (rule ext, rule eq)
qed

lemma count_foldl:
  "foldl (\<lambda>n (i, st). if \<not> healthy st then n + 1 else n) k xs = k + length (filter (\<lambda>st. \<not> healthy st) (map snd xs))"
  by (induction xs arbitrary: k) auto

section \<open>Properties\<close>

text \<open>
  C39. A turn of the health monitor. After any registrations, while the monitor sleeps the
  published statuses are exactly one per registered id, in increasing order, each the verdict
  of the latest check registered under it, and the unhealthy count is the number of failing
  ones. And then every turn ends by unlocking the mutex a second time, whatever the other threads
  do in the meantime, unless they could lock it in the monitor's name.
\<close>

theorem health_turn:
  fixes cs :: "(string \<times> 'c) list"
  defines "hm \<equiv> register_all cs new_health_monitor"
  assumes "\<forall>h. owner h \<noteq> Some me \<longrightarrow> owner (others h) \<noteq> Some me"
  shows "monitor_turn me now run others hm = Inl Mutex_misuse \<and>
    (\<exists>h. during_sleep me now run hm = Inr h \<and>
      get_all h = map (\<lambda>i. checked_status now run i (the (map_of (rev cs) i))) (sorted_list_of_set (fst ` set cs)) \<and>
      unhealthy_count h = length (filter (\<lambda>st. \<not> healthy st) (get_all h)))"
proof -
  have inv: "hm_inv hm" unfolding hm_def by (intro hm_inv_register_all hm_inv_new)
  have own: "owner hm = None" by (simp add: hm_def new_health_monitor_def)
  let ?h = "(run_checks now run (hm\<lparr>owner := Some me\<rparr>))\<lparr>owner := None\<rparr>"
  have s: "during_sleep me now run hm = Inr ?h"
    using own by (simp add: during_sleep_def lock_def unlock_def run_checks_def)
  have m: "monitor_turn me now run others hm = Inl Mutex_misuse"
    using own assms(2) by (simp add: monitor_turn_def lock_def unlock_def run_checks_def)
  have find: "map_of (checks hm) i = map_of (rev cs) i" for i
    using checks_register_all [OF hm_inv_new, of cs i] by (simp add: hm_def new_health_monitor_def split: option.splits)
  have oinv: "omap_inv (checks hm)" using inv by (simp add: hm_inv_def)
  have "fst ` set (checks hm) = fst ` set cs"
    by (rule set_eqI) (use map_of_in_keys [of _ "rev cs"] in \<open>simp add: map_of_in_keys find\<close>)
  then have keys: "map fst (checks hm) = sorted_list_of_set (fst ` set cs)"
    using oinv sorted_list_of_set.idem_if_sorted_distinct [of "map fst (checks hm)"]
    by (simp add: omap_inv_def strict_sorted_iff)
  have "hm_inv (hm\<lparr>owner := Some me\<rparr>)" using inv by (simp add: hm_inv_def)
  from run_checks_statuses [OF this, of now run]
  have "get_all ?h = map (\<lambda>(i, fn). checked_status now run i fn) (checks hm)"
    by (simp add: get_all_def case_prod_unfold)
  also have "\<dots> = map (\<lambda>i. checked_status now run i (the (map_of (rev cs) i))) (map fst (checks hm))"
    by (subst omap_rebuild [OF oinv, symmetric]) (simp add: find comp_def del: omap_rebuild)
  finally show ?thesis using s m keys by (simp add: unhealthy_count_def count_foldl get_all_def)
qed

theorem health_turn_witness:
  "monitor_turn 1 7 (\<lambda>b. (b, [])) (register_check 8 ''z'' True)
     (register_all [(''b'', True), (''a'', False)] new_health_monitor) = Inl Mutex_misuse"
  using health_turn [of 1 "register_check 8 ''z'' True" 7 "\<lambda>b. (b, [])" "[(''b'', True), (''a'', False)]"]
  by (simp add: register_check_def)

end
