(* ===== verification/File_Watcher.thy ===== *)
theory File_Watcher
  imports Bytes
begin

section \<open>Watching files\<close>

text \<open>
  \<^verbatim>\<open>sandbox/src/file_watcher.cpp\<close> and its header (the Linux build): the descriptor and its watches,
  and the loop that takes the records of \<^verbatim>\<open>struct inotify_event\<close> out of the buffer. The results
  of the system calls are arguments. The buffer is the array of 32768 bytes; the name of an
  event is read as a C string, so a missing terminator leads outside the array.
\<close>

record file_event =
  path :: string
  mask :: u32

record file_watcher =
  inotify_fd :: int
  watch_fds :: "int list"
  has_callback :: bool
  running :: bool
  has_thread :: bool

definition new_file_watcher :: file_watcher where
  "new_file_watcher = \<lparr>inotify_fd = - 1, watch_fds = [], has_callback = False, running = False, has_thread = False\<rparr>"

text \<open>\<open>init\<close> and \<open>add fd\<close> are what \<^verbatim>\<open>inotify_init1\<close> and \<^verbatim>\<open>inotify_add_watch\<close> return.\<close>

definition watch :: "int \<Rightarrow> (int \<Rightarrow> int) \<Rightarrow> file_watcher \<Rightarrow> bool \<times> file_watcher" where
  "watch init add fw =
     (let fw1 = (if inotify_fd fw < 0 then fw\<lparr>inotify_fd := init\<rparr> else fw) in
      if inotify_fd fw1 < 0 then (False, fw1)
      else let wd = add (inotify_fd fw1) in
        if wd < 0 then (False, fw1) else (True, fw1\<lparr>watch_fds := watch_fds fw1 @ [wd]\<rparr>))"

definition on_change :: "file_watcher \<Rightarrow> file_watcher" where
  "on_change fw = fw\<lparr>has_callback := True\<rparr>"

definition start :: "file_watcher \<Rightarrow> file_watcher" where
  "start fw = (if running fw then fw else fw\<lparr>running := True, has_thread := True\<rparr>)"

datatype inotify_call = Rm_watch int int | Close_fd int

definition stop :: "file_watcher \<Rightarrow> inotify_call list \<times> file_watcher" where
  "stop fw =
     (let fw1 = fw\<lparr>running := False, has_thread := False\<rparr> in
      if 0 \<le> inotify_fd fw
      then (map (Rm_watch (inotify_fd fw)) (watch_fds fw) @ [Close_fd (inotify_fd fw)], fw1\<lparr>inotify_fd := - 1\<rparr>)
      else ([], fw1))"

definition is_running :: "file_watcher \<Rightarrow> bool" where
  "is_running fw = running fw"

subsection \<open>The poll loop\<close>

definition EVENT_SIZE :: nat where "EVENT_SIZE = 16"

definition BUF_LEN :: nat where "BUF_LEN = 1024 * (EVENT_SIZE + 16)"

definition c_string_at :: "u8 list \<Rightarrow> nat \<Rightarrow> string res" where
  "c_string_at buf pos =
     (if 0 \<in> set (drop pos buf) then Inr (string_of_bytes (takeWhile (\<lambda>b. b \<noteq> 0) (drop pos buf)))
      else Inl Out_of_bounds)"

text \<open>The event at a position, and the position behind it.\<close>

definition read_event :: "u8 list \<Rightarrow> nat \<Rightarrow> (file_event \<times> nat) res" where
  "read_event buf pos =
     (if length buf < pos + EVENT_SIZE then Inl Out_of_bounds
      else
        let len = unat (u32_at buf (pos + 12)) in
        res_bind (if 0 < len then c_string_at buf (pos + EVENT_SIZE) else Inr []) (\<lambda>nm.
          Inr (\<lparr>path = nm, mask = u32_at buf (pos + 4)\<rparr>, pos + EVENT_SIZE + len)))"

text \<open>One turn of the inner loop; the name is looked at only for a callback.\<close>

definition next_event :: "bool \<Rightarrow> u8 list \<Rightarrow> nat \<Rightarrow> (file_event list \<times> nat) res" where
  "next_event cb buf pos =
     (if cb then res_bind (read_event buf pos) (\<lambda>(e, pos'). Inr ([e], pos'))
      else if length buf < pos + EVENT_SIZE then Inl Out_of_bounds
      else Inr ([], pos + EVENT_SIZE + unat (u32_at buf (pos + 12))))"

function read_events :: "bool \<Rightarrow> u8 list \<Rightarrow> nat \<Rightarrow> nat \<Rightarrow> file_event list res" where
  "read_events cb buf len pos =
     (if pos < len then
        (case next_event cb buf pos of
           Inl f \<Rightarrow> Inl f
         | Inr (e, pos') \<Rightarrow> res_bind (read_events cb buf len pos') (\<lambda>es. Inr (e @ es)))
      else Inr [])"
  by pat_completeness auto
termination
  by (relation "measure (\<lambda>(cb, buf, len, pos). len - pos)")
    (auto simp: next_event_def read_event_def EVENT_SIZE_def Let_def split: if_splits)

text \<open>One turn of the outer loop: the events the callback is called with.\<close>

definition poll_turn :: "bool \<Rightarrow> int \<Rightarrow> u8 list \<Rightarrow> file_watcher \<Rightarrow> file_event list res" where
  "poll_turn readable len buf fw =
     (if \<not> readable \<or> len \<le> 0 then Inr []
      else read_events (has_callback fw) buf (nat len) 0)"

text \<open>
  The thread, for the sequence of what \<^verbatim>\<open>poll\<close> and \<^verbatim>\<open>read\<close> deliver until \<^verbatim>\<open>running_\<close> is false: nothing within the timeout, an error, or
  bytes, which overwrite the beginning of the buffer.
\<close>

datatype inotify_poll = In_timeout | In_failed | In_bytes "u8 list"

fun poll_loop :: "inotify_poll list \<Rightarrow> u8 list \<Rightarrow> file_watcher \<Rightarrow> file_event list res" where
  "poll_loop [] buf fw = Inr []"
| "poll_loop (p # ps) buf fw =
     (let readable = (p \<noteq> In_timeout);
          bs = (case p of In_bytes bs \<Rightarrow> take BUF_LEN bs | _ \<Rightarrow> []);
          len = (if p = In_failed then - 1 else int (length bs));
          buf' = memcpy_at buf 0 bs in
      res_bind (poll_turn readable len buf' fw) (\<lambda>es. res_bind (poll_loop ps buf' fw) (\<lambda>es'. Inr (es @ es'))))"

subsection \<open>Specification vocabulary\<close>

text \<open>An event as the kernel writes it: the name is followed by \<open>pad\<close> null bytes.\<close>

record raw_event =
  wd :: u32
  ev_mask :: u32
  cookie :: u32
  ev_name :: string
  pad :: nat

definition name_field :: "raw_event \<Rightarrow> u8 list" where
  "name_field e = bytes_of_string (ev_name e) @ replicate (pad e) 0"

definition event_bytes :: "raw_event \<Rightarrow> u8 list" where
  "event_bytes e =
     u32_bytes (wd e) @ u32_bytes (ev_mask e) @ u32_bytes (cookie e) @
     u32_bytes (of_nat (length (name_field e))) @ name_field e"

definition raw_ok :: "raw_event \<Rightarrow> bool" where
  "raw_ok e =
     (CHR 0x00 \<notin> set (ev_name e) \<and> (ev_name e \<noteq> [] \<longrightarrow> 0 < pad e) \<and> length (name_field e) < 2 ^ 32)"

definition seen :: "raw_event \<Rightarrow> file_event" where
  "seen e = \<lparr>path = ev_name e, mask = ev_mask e\<rparr>"

definition demo_events :: "raw_event list" where
  "demo_events =
     [\<lparr>wd = 1, ev_mask = 2, cookie = 0, ev_name = ''a.txt'', pad = 11\<rparr>,
      \<lparr>wd = 1, ev_mask = 256, cookie = 0, ev_name = [], pad = 0\<rparr>]"

section \<open>Lemmas\<close>

declare read_events.simps [simp del]

lemma byte_of_char_nul [simp]: "byte_of_char c = 0 \<longleftrightarrow> c = CHR 0x00"
proof -
  have "byte_of_char (CHR 0x00) = 0" by (simp add: byte_of_char_def)
  then show ?thesis by (metis char_of_byte_of_char)
qed

lemma c_string_name:
  assumes "raw_ok e" "ev_name e \<noteq> [] \<or> 0 < pad e" "drop pos buf = name_field e @ rest"
  shows "c_string_at buf pos = Inr (ev_name e)"
proof -
  obtain k where k: "pad e = Suc k" using assms(1,2) by (cases "pad e") (auto simp: raw_ok_def)
  have "takeWhile (\<lambda>b. b \<noteq> 0) (bytes_of_string (ev_name e) @ 0 # xs) = bytes_of_string (ev_name e)" for xs
    using assms(1) by (subst takeWhile_append2) (auto simp: bytes_of_string_def raw_ok_def)
  then show ?thesis using k by (simp add: c_string_at_def assms(3) name_field_def)
qed

interpretation ie: cursor_codec event_bytes read_event seen raw_ok
proof unfold_locales
  fix e pos buf and rest :: "u8 list"
  assume ok: "raw_ok e" and d: "drop pos buf = event_bytes e @ rest"
  have len: "length (event_bytes e) = 16 + length (name_field e)" by (simp add: event_bytes_def)
  have b: "pos + length (event_bytes e) \<le> length buf"
    using drop_bound [OF d] len by (metis add_is_0 length_0_conv zero_neq_numeral)
  have d4: "drop (pos + 4) buf = u32_bytes (ev_mask e) @ u32_bytes (cookie e) @
      u32_bytes (of_nat (length (name_field e))) @ name_field e @ rest"
    using drop_after [of pos buf "u32_bytes (wd e)"] d by (simp add: event_bytes_def)
  have d8: "drop (pos + 8) buf = u32_bytes (cookie e) @ u32_bytes (of_nat (length (name_field e))) @ name_field e @ rest"
    using drop_after [OF d4] by (simp add: add.commute)
  have d12: "drop (pos + 12) buf = u32_bytes (of_nat (length (name_field e))) @ name_field e @ rest"
    using drop_after [OF d8] by (simp add: add.commute)
  have d16: "drop (pos + 16) buf = name_field e @ rest"
    using drop_after [OF d12] by (simp add: add.commute)
  have n: "unat (u32_at buf (pos + 12)) = length (name_field e)"
    using ok by (simp add: u32_at_enc [OF d12] unat_of_nat raw_ok_def)
  have "(if 0 < length (name_field e) then c_string_at buf (pos + 16) else Inr []) = Inr (ev_name e)"
    using c_string_name [OF ok _ d16] by (auto simp: name_field_def)
  then show "read_event buf pos = Inr (seen e, pos + length (event_bytes e))"
    using b by (auto simp: read_event_def EVENT_SIZE_def Let_def n len seen_def u32_at_enc [OF d4] add.assoc)
qed

lemma read_events_enc:
  assumes "\<forall>e \<in> set evs. raw_ok e" "drop pos buf = concat (map event_bytes evs) @ rest"
    and "len = pos + length (concat (map event_bytes evs))"
  shows "read_events True buf len pos = Inr (map seen evs)"
  using assms
proof (induction evs arbitrary: pos)
  case Nil
  then show ?case by (subst read_events.simps) simp
next
  case (Cons e evs)
  have d: "drop pos buf = event_bytes e @ concat (map event_bytes evs) @ rest" using Cons.prems(2) by simp
  have "read_event buf pos = Inr (seen e, pos + length (event_bytes e))"
    using Cons.prems(1) d by (intro ie.rd_enc) auto
  moreover have "read_events True buf len (pos + length (event_bytes e)) = Inr (map seen evs)"
    using Cons.prems drop_after [OF d] by (intro Cons.IH) auto
  moreover have "pos < len" using Cons.prems(3) by (simp add: event_bytes_def)
  ultimately show ?case by (subst read_events.simps) (simp add: next_event_def)
qed

text \<open>Stopping forgets the descriptor but keeps the watches, so a later stop removes them again.\<close>

lemma stop_keeps_watches: "watch_fds (snd (stop fw)) = watch_fds fw \<and> inotify_fd (snd (stop fw)) < 0"
  by (auto simp: stop_def Let_def)

section \<open>Properties\<close>

text \<open>
  The callback is called once for each event the kernel put into the buffer, in order,
  with its name and mask, whatever padding follows the names and whatever the buffer held
  before; decoding always ends and stays inside the buffer.
\<close>

theorem events_decoded:
  assumes "\<forall>e \<in> set evs. raw_ok e" and "buf = concat (map event_bytes evs) @ stale"
    and "length buf = BUF_LEN" and "has_callback fw"
  shows "poll_turn True (int (length (concat (map event_bytes evs)))) buf fw = Inr (map seen evs)"
proof (cases "evs = []")
  case True
  then show ?thesis by (simp add: poll_turn_def)
next
  case False
  have "read_events True buf (length (concat (map event_bytes evs))) 0 = Inr (map seen evs)"
    using assms(1,2) by (intro read_events_enc) auto
  moreover have "\<not> int (length (concat (map event_bytes evs))) \<le> 0"
    using False by (cases evs) (simp_all add: event_bytes_def)
  ultimately show ?thesis using assms(4) unfolding poll_turn_def by (simp only: nat_int simp_thms if_False)
qed

theorem events_decoded_witness:
  "poll_turn True (int (length (concat (map event_bytes demo_events))))
     (concat (map event_bytes demo_events) @ replicate (BUF_LEN - length (concat (map event_bytes demo_events))) 7)
     (on_change new_file_watcher) =
   Inr [\<lparr>path = ''a.txt'', mask = 2\<rparr>, \<lparr>path = [], mask = 256\<rparr>]"
proof -
  have "length (concat (map event_bytes demo_events)) = 48"
    by (simp add: demo_events_def event_bytes_def name_field_def)
  moreover have "\<forall>e \<in> set demo_events. raw_ok e"
    by (simp add: demo_events_def raw_ok_def name_field_def)
  moreover have "map seen demo_events = [\<lparr>path = ''a.txt'', mask = 2\<rparr>, \<lparr>path = [], mask = 256\<rparr>]"
    by (simp add: demo_events_def seen_def)
  ultimately show ?thesis
    using events_decoded [of demo_events _ "replicate (BUF_LEN - length (concat (map event_bytes demo_events))) 7" "on_change new_file_watcher"]
    by (simp add: BUF_LEN_def EVENT_SIZE_def on_change_def del: length_concat)
qed

text \<open>What the kernel delivers: batches of events, none larger than the buffer.\<close>

fun batches :: "inotify_poll list \<Rightarrow> u8 list list" where
  "batches [] = []"
| "batches (In_bytes bs # ps) = bs # batches ps"
| "batches (p # ps) = batches ps"

definition batch_ok :: "raw_event list \<Rightarrow> bool" where
  "batch_ok evs = ((\<forall>e \<in> set evs. raw_ok e) \<and> length (concat (map event_bytes evs)) \<le> BUF_LEN)"

text \<open>
  C32. Every event reaches the callback. Over the whole life of the thread, whatever batches the kernel delivers and however many timeouts and errors come
  between, the callback is called once for each event, in order, with its name and mask; no byte of an
  earlier batch that is still in the buffer is taken for an event.
\<close>

theorem poll_loop_decodes:
  assumes "has_callback fw"
  shows "length buf = BUF_LEN \<Longrightarrow> list_all batch_ok evss \<Longrightarrow> batches ps = map (\<lambda>evs. concat (map event_bytes evs)) evss \<Longrightarrow>
    poll_loop ps buf fw = Inr (map seen (concat evss))"
proof (induction ps arbitrary: buf evss)
  case (Cons p ps)
  show ?case
  proof (cases p)
    case (In_bytes bs)
    then obtain evs evss' where e: "evss = evs # evss'" "bs = concat (map event_bytes evs)"
      "batches ps = map (\<lambda>evs. concat (map event_bytes evs)) evss'" using Cons.prems(3) by auto
    have "batch_ok evs" and ok': "list_all batch_ok evss'" using Cons.prems(2) by (simp_all add: e(1))
    then have ok: "\<forall>e \<in> set evs. raw_ok e" "length bs \<le> BUF_LEN" by (simp_all add: e(2) batch_ok_def del: length_concat)
    let ?b = "memcpy_at buf 0 bs"
    have b: "?b = concat (map event_bytes evs) @ drop (length bs) buf" "length ?b = BUF_LEN"
      using ok(2) Cons.prems(1) by (simp_all add: memcpy_at_def e(2) del: length_concat)
    have "poll_turn True (int (length bs)) ?b fw = Inr (map seen evs)"
      using events_decoded [OF ok(1) b assms] by (simp add: e(2) del: length_concat)
    with Cons.IH [OF b(2) ok' e(3)] ok(2) show ?thesis by (simp add: In_bytes e(1))
  qed (use Cons in \<open>simp_all add: poll_turn_def memcpy_at_def\<close>)
qed simp

theorem poll_loop_decodes_witness:
  "poll_loop [In_timeout, In_bytes (concat (map event_bytes demo_events)), In_failed, In_bytes (concat (map event_bytes (tl demo_events)))]
     (replicate BUF_LEN 7) (on_change new_file_watcher) =
   Inr [\<lparr>path = ''a.txt'', mask = 2\<rparr>, \<lparr>path = [], mask = 256\<rparr>, \<lparr>path = [], mask = 256\<rparr>]"
proof -
  have d: "map seen (concat [demo_events, tl demo_events]) = [\<lparr>path = ''a.txt'', mask = 2\<rparr>, \<lparr>path = [], mask = 256\<rparr>, \<lparr>path = [], mask = 256\<rparr>]"
    by (simp add: demo_events_def seen_def)
  have "list_all batch_ok [demo_events, tl demo_events]"
    by (simp add: batch_ok_def demo_events_def raw_ok_def name_field_def event_bytes_def BUF_LEN_def EVENT_SIZE_def)
  then show ?thesis
    using poll_loop_decodes [of "on_change new_file_watcher" "replicate BUF_LEN 7" "[demo_events, tl demo_events]"]
    unfolding d [symmetric] by (simp add: on_change_def del: poll_loop.simps replicate.simps)
qed

end
