(* ===== verification/Doubles.thy ===== *)
theory Doubles
  imports Complex_Main "HOL-Library.Log_Nat"
begin

section \<open>Non-negative doubles\<close>

text \<open>
  The fragment of IEEE 754 binary64 arithmetic the code uses: conversion of an unsigned
  integer, division and comparison with a literal. A finite double is the rational it stands
  for; \<open>rnd\<close> rounds a non-negative rational to the nearest double, ties to even. The unit in
  the last place of x is a power of two that leaves 53 significant bits, and at least
  \<open>2 ^ -1074\<close>. Overflow cannot occur: the largest value that is converted is below \<open>2 ^ 64\<close>.
\<close>

definition E_MIN :: nat where "E_MIN = 1074"

definition round_even :: "rat \<Rightarrow> int" where
  "round_even x =
     (let f = \<lfloor>x\<rfloor>; d = x - of_int f in
      if d < 1 / 2 then f else if 1 / 2 < d then f + 1 else if even f then f else f + 1)"

definition ulp_exp :: "rat \<Rightarrow> nat" where
  "ulp_exp x = floorlog 2 (nat \<lfloor>x * 2 ^ E_MIN\<rfloor>) - 53"

definition ulp :: "nat \<Rightarrow> rat" where
  "ulp k = 2 ^ k / 2 ^ E_MIN"

definition rnd :: "rat \<Rightarrow> rat" where
  "rnd x = of_int (round_even (x / ulp (ulp_exp x))) * ulp (ulp_exp x)"

datatype dval = Fin rat | Infinity | NaN

definition double_of_nat :: "nat \<Rightarrow> rat" where
  "double_of_nat n = rnd (of_nat n)"

definition ddiv :: "rat \<Rightarrow> rat \<Rightarrow> dval" where
  "ddiv x y = (if y = 0 then if x = 0 then NaN else Infinity else Fin (rnd (x / y)))"

text \<open>\<open>dgt d c\<close>: the double d exceeds the literal c, itself rounded to a double.\<close>

definition dgt :: "dval \<Rightarrow> rat \<Rightarrow> bool" where
  "dgt d c = (case d of Fin x \<Rightarrow> rnd c < x | Infinity \<Rightarrow> True | NaN \<Rightarrow> False)"

section \<open>Rounding\<close>

lemma round_even_bounds: "x - 1 / 2 \<le> of_int (round_even x)" "of_int (round_even x) \<le> x + 1 / 2"
  unfolding round_even_def Let_def
  by (auto split: if_splits) linarith+

lemma round_even_of_int [simp]: "round_even (of_int n) = n"
  by (simp add: round_even_def)

lemma round_even_mono:
  assumes "x \<le> y" shows "round_even x \<le> round_even y"
proof (cases "\<lfloor>x\<rfloor> = \<lfloor>y\<rfloor>")
  case True
  with assms show ?thesis by (auto simp: round_even_def Let_def)
next
  case False
  with assms have "\<lfloor>x\<rfloor> + 1 \<le> \<lfloor>y\<rfloor>" by (metis add1_zle_eq floor_mono order_le_less)
  moreover have "round_even x \<le> \<lfloor>x\<rfloor> + 1" "\<lfloor>y\<rfloor> \<le> round_even y" by (auto simp: round_even_def Let_def)
  ultimately show ?thesis by linarith
qed

lemma ulp_pos [simp]: "0 < ulp k"
  by (simp add: ulp_def)

lemma scaled_bounds:
  assumes "0 \<le> x"
  shows "x / ulp (ulp_exp x) < 2 ^ 53" "0 < ulp_exp x \<Longrightarrow> 2 ^ 52 \<le> x / ulp (ulp_exp x)"
proof -
  let ?n = "nat \<lfloor>x * 2 ^ E_MIN\<rfloor>"
  have eq: "x / ulp k = x * 2 ^ E_MIN / 2 ^ k" for k by (simp add: ulp_def)
  have n: "of_nat ?n \<le> x * 2 ^ E_MIN" "x * 2 ^ E_MIN < of_nat ?n + 1"
    using assms floor_correct [of "x * 2 ^ E_MIN"] by (simp_all add: of_nat_nat)
  have "?n < 2 ^ floorlog 2 ?n" using floorlog_leD [of 2 ?n "floorlog 2 ?n"] by simp
  also have "\<dots> \<le> 2 ^ (ulp_exp x + 53)" unfolding ulp_exp_def by (intro power_increasing) auto
  finally have "?n + 1 \<le> 2 ^ (ulp_exp x + 53)" by (simp only: Suc_eq_plus1 [symmetric] Suc_le_eq)
  then have "of_nat (?n + 1) \<le> (2 ^ (ulp_exp x + 53) :: rat)"
    by (metis of_nat_le_iff of_nat_numeral of_nat_power)
  with n have "x * 2 ^ E_MIN < 2 ^ (ulp_exp x + 53)" by simp
  then show "x / ulp (ulp_exp x) < 2 ^ 53" by (simp add: eq power_add field_simps)
  assume pos: "0 < ulp_exp x"
  then have "ulp_exp x + 53 \<le> floorlog 2 ?n" by (simp add: ulp_exp_def)
  then have "2 ^ (ulp_exp x + 52) \<le> ?n" using floorlog_geD [of "ulp_exp x + 53" 2 ?n] pos by (simp add: add.commute)
  then have "(2 ^ (ulp_exp x + 52) :: rat) \<le> of_nat ?n"
    by (metis of_nat_le_iff of_nat_numeral of_nat_power)
  with n(1) have "2 ^ (ulp_exp x + 52) \<le> x * 2 ^ E_MIN" by (rule order_trans [rotated])
  then show "2 ^ 52 \<le> x / ulp (ulp_exp x)" by (simp add: eq power_add field_simps)
qed

lemma ulp_exp_mono: "0 \<le> x \<Longrightarrow> x \<le> y \<Longrightarrow> ulp_exp x \<le> ulp_exp y"
  unfolding ulp_exp_def by (intro diff_le_mono floorlog_mono nat_mono floor_mono mult_right_mono) auto

lemma rnd_le: "round_even (x / ulp (ulp_exp x)) \<le> m \<Longrightarrow> rnd x \<le> of_int m * ulp (ulp_exp x)"
  unfolding rnd_def by (intro mult_right_mono) (simp_all add: less_imp_le)

lemma rnd_ge: "m \<le> round_even (x / ulp (ulp_exp x)) \<Longrightarrow> of_int m * ulp (ulp_exp x) \<le> rnd x"
  unfolding rnd_def by (intro mult_right_mono) (simp_all add: less_imp_le)

theorem rnd_mono:
  assumes "0 \<le> x" "x \<le> y" shows "rnd x \<le> rnd y"
proof (cases "ulp_exp x = ulp_exp y")
  case True
  with assms show ?thesis
    by (auto simp: rnd_def intro!: mult_right_mono round_even_mono divide_right_mono less_imp_le [OF ulp_pos])
next
  case False
  with ulp_exp_mono [OF assms] have k: "ulp_exp x + 1 \<le> ulp_exp y" by simp
  have "round_even (x / ulp (ulp_exp x)) \<le> round_even (of_int (2 ^ 53))"
    by (rule round_even_mono) (use scaled_bounds(1) [OF assms(1)] in simp)
  then have "round_even (x / ulp (ulp_exp x)) \<le> 2 ^ 53" by (simp only: round_even_of_int)
  from rnd_le [OF this] have "rnd x \<le> 2 ^ 53 * ulp (ulp_exp x)" by simp
  also have "\<dots> = 2 ^ 52 * ulp (ulp_exp x + 1)" by (simp add: ulp_def)
  also have "\<dots> \<le> 2 ^ 52 * ulp (ulp_exp y)"
    using k unfolding ulp_def by (intro mult_left_mono divide_right_mono power_increasing) auto
  also have "round_even (of_int (2 ^ 52)) \<le> round_even (y / ulp (ulp_exp y))"
    by (rule round_even_mono) (use scaled_bounds(2) [of y] assms k in simp)
  then have "2 ^ 52 \<le> round_even (y / ulp (ulp_exp y))" by (simp only: round_even_of_int)
  from rnd_ge [OF this] have "2 ^ 52 * ulp (ulp_exp y) \<le> rnd y" by simp
  finally show ?thesis .
qed

text \<open>Integers up to \<open>2 ^ 53\<close> are doubles.\<close>

lemma double_of_nat_exact:
  assumes "n < 2 ^ 53" shows "double_of_nat n = of_nat n"
proof -
  have "nat \<lfloor>(of_nat n :: rat) * 2 ^ E_MIN\<rfloor> = n * 2 ^ E_MIN"
    by (metis floor_of_nat nat_int of_nat_mult of_nat_numeral of_nat_power)
  then have "ulp_exp (of_nat n) \<le> E_MIN"
    using assms unfolding ulp_exp_def
    by (auto intro!: floorlog_leI simp: power_add le_diff_conv)
  then have "(of_nat n :: rat) / ulp (ulp_exp (of_nat n)) = of_int (int n * 2 ^ (E_MIN - ulp_exp (of_nat n)))"
    by (simp add: ulp_def field_simps flip: power_add)
  then have "of_int (round_even ((of_nat n :: rat) / ulp (ulp_exp (of_nat n)))) = (of_nat n :: rat) / ulp (ulp_exp (of_nat n))"
    by (simp only: round_even_of_int)
  then show ?thesis unfolding double_of_nat_def rnd_def by (simp add: less_imp_neq [OF ulp_pos, THEN not_sym])
qed

text \<open>
  Between a half and one the unit is \<open>2 ^ -53\<close>, so a quotient that exceeds a literal of that
  range by more than the unit still exceeds it after rounding.
\<close>

lemma ulp_exp_half:
  assumes "1 / 2 \<le> x" "x < 1" shows "ulp (ulp_exp x) = 1 / 2 ^ 53"
proof -
  let ?n = "nat \<lfloor>x * 2 ^ E_MIN\<rfloor>"
  obtain e where e: "E_MIN = Suc e" "52 \<le> e" by (simp add: E_MIN_def)
  have "of_nat (2 ^ e) \<le> x * 2 ^ E_MIN" "x * 2 ^ E_MIN < of_nat (2 ^ E_MIN)"
    using assms unfolding e(1) by (simp_all add: field_simps)
  then have "2 ^ e \<le> ?n" "?n < 2 ^ E_MIN"
    by (simp_all add: le_nat_iff le_floor_iff nat_less_iff floor_less_iff del: of_nat_power)
      (simp_all add: assms)
  then have "floorlog 2 ?n = E_MIN"
    using e by (intro antisym floorlog_leI floorlog_ge_SucI [of _ e, folded e(1)]) auto
  then have "ulp_exp x = E_MIN - 53" by (simp add: ulp_exp_def)
  moreover have "(2 :: rat) ^ E_MIN = 2 ^ (E_MIN - 53) * 2 ^ 53"
    using e by (simp only: power_add [symmetric]) simp
  ultimately show ?thesis by (simp only: ulp_def) simp
qed

theorem rnd_gap:
  assumes "1 / 2 \<le> c" "c + 1 / 2 ^ 53 < 1" "c + 1 / 2 ^ 53 < x" shows "rnd c < rnd x"
proof -
  have p: "(0 :: rat) < 1 / 2 ^ 53" by simp
  then have c1: "c < 1" and x0: "1 / 2 \<le> x" using assms by linarith+
  have hi: "of_int (round_even (c * 2 ^ 53)) \<le> c * 2 ^ 53 + 1 / 2" by (rule round_even_bounds)
  have rc: "rnd c = of_int (round_even (c * 2 ^ 53)) / 2 ^ 53"
    using assms(1) c1 by (simp add: rnd_def ulp_exp_half)
  show ?thesis
  proof (cases "x < 1")
    case True
    have "x * 2 ^ 53 - 1 / 2 \<le> of_int (round_even (x * 2 ^ 53))" by (rule round_even_bounds)
    moreover have "c * 2 ^ 53 + 1 < x * 2 ^ 53" using assms(3) by (simp add: field_simps)
    ultimately have "(of_int (round_even (c * 2 ^ 53)) :: rat) < of_int (round_even (x * 2 ^ 53))"
      using hi by linarith
    then show ?thesis
      using True x0 unfolding rc by (simp add: rnd_def ulp_exp_half divide_strict_right_mono)
  next
    case False
    have "c * 2 ^ 53 + 1 < 2 ^ 53" using assms(2) by (simp add: field_simps)
    then have "rnd c < 1" using hi unfolding rc by simp
    also have "1 = rnd 1" using double_of_nat_exact [of 1] by (simp add: double_of_nat_def)
    also have "\<dots> \<le> rnd x" using False by (intro rnd_mono) auto
    finally show ?thesis .
  qed
qed

text \<open>The comparison of a quotient of integers with p / q is exact for moderate denominators.\<close>

theorem dgt_quotient:
  assumes "a < 2 ^ 53" "0 < b" "q * b < 2 ^ 53" "q \<le> 2 * p" "p < q"
  shows "dgt (ddiv (double_of_nat a) (double_of_nat b)) (of_nat p / of_nat q) \<longleftrightarrow> p * b < q * a"
proof -
  let ?c = "of_nat p / of_nat q :: rat" and ?x = "of_nat a / of_nat b :: rat"
  have q: "0 < q" using assms by simp
  have "b \<le> q * b" "q \<le> q * b" using q assms(2) by simp_all
  with assms(3) have b: "b < 2 ^ 53" and q53: "q < 2 ^ 53" by linarith+
  have d: "dgt (ddiv (double_of_nat a) (double_of_nat b)) ?c \<longleftrightarrow> rnd ?c < rnd ?x"
    using assms(2) by (simp add: double_of_nat_exact [OF assms(1)] double_of_nat_exact [OF b] ddiv_def dgt_def)
  show ?thesis
  proof (cases "p * b < q * a")
    case False
    then have "q * a \<le> p * b" by simp
    then have "(of_nat (q * a) :: rat) \<le> of_nat (p * b)" by (simp only: of_nat_le_iff)
    then have "?x \<le> ?c" using q assms(2) by (simp add: field_simps)
    then have "rnd ?x \<le> rnd ?c" by (intro rnd_mono) auto
    with False d show ?thesis by simp
  next
    case True
    have half: "1 / 2 \<le> ?c"
      using of_nat_mono [OF assms(4), where 'a = rat] q by (simp add: field_simps)
    have inv: "(1 :: rat) / 2 ^ 53 < 1 / of_nat k" if "0 < k" "k < 2 ^ 53" for k :: nat
    proof -
      have "(of_nat k :: rat) < of_nat (2 ^ 53)" using that(2) by (simp only: of_nat_less_iff)
      with that(1) show ?thesis by (intro divide_strict_left_mono) auto
    qed
    have "?c + 1 / of_nat q \<le> 1"
      using of_nat_mono [of "p + 1" q, where 'a = rat] assms(5) q by (simp add: field_simps)
    with inv [OF q q53] have c1: "?c + 1 / 2 ^ 53 < 1" by linarith
    have "(of_nat (p * b + 1) :: rat) \<le> of_nat (q * a)" using True by (simp only: of_nat_le_iff)
    then have "of_nat (p * b + 1) / of_nat (q * b) \<le> (of_nat (q * a) :: rat) / of_nat (q * b)"
      by (rule divide_right_mono) simp
    then have "?c + 1 / of_nat (q * b) \<le> ?x" using q assms(2) by (simp add: add_divide_distrib)
    moreover have "(1 :: rat) / 2 ^ 53 < 1 / of_nat (q * b)" using assms(2,3) q by (intro inv) simp_all
    ultimately have "?c + 1 / 2 ^ 53 < ?x" by linarith
    from rnd_gap [OF half c1 this] True d show ?thesis by simp
  qed
qed

end
