(* ===== verification/Resource_Monitor.thy ===== *)
theory Resource_Monitor
  imports Containers Doubles
begin

section \<open>Resource monitoring\<close>

text \<open>
  \<^verbatim>\<open>sandbox/src/resource_monitor.cpp\<close> and its header: sampling a process through \<^verbatim>\<open>/proc\<close>,
  the bounded history, the alerts, and the manager of the monitors. The files the code reads
  are the record \<open>proc_files\<close> (\<open>None\<close> for a file that cannot be opened); the clock tick rate
  \<open>clk\<close> is what \<^verbatim>\<open>sysconf(_SC_CLK_TCK)\<close> returns. Reading changes the monitor: it stores
  the processor time for the next difference.
\<close>

record resource_limits =
  lim_memory_bytes :: u64
  lim_cpu_percent :: u32
  lim_pids_max :: u32
  lim_disk_bytes :: u64
  lim_network_rx_bps :: u64
  lim_network_tx_bps :: u64

record resource_usage =
  memory_bytes :: u64
  cpu_percent :: u32
  pids_current :: u32
  disk_read_bytes :: u64
  disk_write_bytes :: u64
  network_rx_bytes :: u64
  network_tx_bytes :: u64
  uptime_seconds :: rat

datatype alert_level = INFO | WARNING | CRITICAL

text \<open>The levels in the order of their severity.\<close>

fun level_rank :: "alert_level \<Rightarrow> nat" where
  "level_rank INFO = 0" | "level_rank WARNING = 1" | "level_rank CRITICAL = 2"

instantiation alert_level :: linorder
begin

definition less_eq_alert_level :: "alert_level \<Rightarrow> alert_level \<Rightarrow> bool" where
  "less_eq_alert_level a b = (level_rank a \<le> level_rank b)"

definition less_alert_level :: "alert_level \<Rightarrow> alert_level \<Rightarrow> bool" where
  "less_alert_level a b = (level_rank a < level_rank b)"

instance
proof
  fix a b :: alert_level
  show "a \<le> b \<Longrightarrow> b \<le> a \<Longrightarrow> a = b"
    by (cases a; cases b) (simp_all add: less_eq_alert_level_def)
qed (auto simp: less_eq_alert_level_def less_alert_level_def)

end

record resource_alert =
  level :: alert_level
  resource :: string
  alert_message :: string
  current_value :: rat
  limit_value :: rat
  alert_timestamp :: u64

record history_entry =
  usage :: resource_usage
  hist_timestamp :: rat

record resource_monitor =
  target_pid :: i32
  limits :: resource_limits
  running :: bool
  history :: "history_entry list"
  has_alert_callback :: bool
  prev_cpu_time :: u64

definition new_resource_monitor :: "i32 \<Rightarrow> resource_limits \<Rightarrow> resource_monitor" where
  "new_resource_monitor p lm =
     \<lparr>target_pid = p, limits = lm, running = False, history = [], has_alert_callback = False,
      prev_cpu_time = 0\<rparr>"

definition start :: "resource_monitor \<Rightarrow> bool \<times> resource_monitor" where
  "start m = (if running m then (False, m) else (True, m\<lparr>running := True\<rparr>))"

definition stop :: "resource_monitor \<Rightarrow> bool \<times> resource_monitor" where
  "stop m = (if \<not> running m then (True, m) else (True, m\<lparr>running := False\<rparr>))"

subsection \<open>Reading /proc\<close>

record proc_files =
  proc_status :: "string list option"
  proc_stat :: "string option"
  proc_io :: "string list option"
  proc_uptime :: "string option"

text \<open>Extraction of a \<^verbatim>\<open>uint32_t\<close>, and of a double in the notation of \<^verbatim>\<open>/proc/uptime\<close>.\<close>

definition extract_u32 :: "u32 \<Rightarrow> string \<Rightarrow> u32" where
  "extract_u32 old s =
     (if dropWhile isspace s = [] then old
      else case scan_number s of (neg, ds) \<Rightarrow>
        if ds = [] then 0
        else if 2 ^ 32 \<le> dec_value ds then - 1
        else (if neg then - of_nat (dec_value ds) else of_nat (dec_value ds)))"

definition extract_double :: "string \<Rightarrow> rat" where
  "extract_double s =
     (let t = dropWhile isspace s; ip = takeWhile is_digit t; r = dropWhile is_digit t;
          fp = (case r of [] \<Rightarrow> [] | c # cs \<Rightarrow> if c = CHR ''.'' then takeWhile is_digit cs else []) in
      rnd (of_nat (dec_value (ip @ fp)) / 10 ^ length fp))"

definition read_status_line :: "resource_usage \<Rightarrow> string \<Rightarrow> resource_usage" where
  "read_status_line u line =
     (if take 6 line = ''VmRSS:'' then u\<lparr>memory_bytes := extract_u64 (memory_bytes u) (drop 6 line) * 1024\<rparr>
      else if take 4 line = ''Threads:'' then u\<lparr>pids_current := extract_u32 (pids_current u) (drop 4 line)\<rparr>
      else u)"

definition read_io_line :: "resource_usage \<Rightarrow> string \<Rightarrow> resource_usage" where
  "read_io_line u line =
     (if take 11 line = ''read_bytes:'' then u\<lparr>disk_read_bytes := extract_u64 (disk_read_bytes u) (drop 11 line)\<rparr>
      else if take 12 line = ''write_bytes:'' then u\<lparr>disk_write_bytes := extract_u64 (disk_write_bytes u) (drop 12 line)\<rparr>
      else u)"

text \<open>\<^verbatim>\<open>iss >> token\<close> as often as asked, and what is left of the line.\<close>

fun skip_tokens :: "nat \<Rightarrow> string \<Rightarrow> string" where
  "skip_tokens 0 s = s"
| "skip_tokens (Suc n) s = skip_tokens n (dropWhile (\<lambda>c. \<not> isspace c) (dropWhile isspace s))"

text \<open>\<^verbatim>\<open>iss >> utime >> stime\<close>: the second is not read when the first fails.\<close>

definition read_times :: "string \<Rightarrow> u64 \<times> u64" where
  "read_times s =
     (case scan_number s of (neg, ds) \<Rightarrow>
        if ds = [] \<or> 2 ^ 64 \<le> dec_value ds then (extract_u64 0 s, 0)
        else (extract_u64 0 s,
              extract_u64 0 (drop (length ds + (if neg \<or> hd (dropWhile isspace s) = CHR ''+'' then 1 else 0))
                (dropWhile isspace s))))"

definition no_usage :: resource_usage where
  "no_usage =
     \<lparr>memory_bytes = 0, cpu_percent = 0, pids_current = 0, disk_read_bytes = 0, disk_write_bytes = 0,
      network_rx_bytes = 0, network_tx_bytes = 0, uptime_seconds = 0\<rparr>"

definition total_time :: "string \<Rightarrow> u64" where
  "total_time line = (case read_times (skip_tokens 13 line) of (utime, stime) \<Rightarrow> utime + stime)"

definition read_usage :: "u64 \<Rightarrow> proc_files \<Rightarrow> resource_monitor \<Rightarrow> resource_usage \<times> resource_monitor" where
  "read_usage clk pf m =
     (let u1 = (case proc_status pf of None \<Rightarrow> no_usage | Some ls \<Rightarrow> foldl read_status_line no_usage ls);
          (u2, m2) = (case proc_stat pf of
             None \<Rightarrow> (u1, m)
           | Some line \<Rightarrow>
               let total = total_time line; delta = total - prev_cpu_time m in
               (u1\<lparr>cpu_percent := ucast (delta * 100 div clk)\<rparr>, m\<lparr>prev_cpu_time := total\<rparr>));
          u3 = (case proc_io pf of None \<Rightarrow> u2 | Some ls \<Rightarrow> foldl read_io_line u2 ls);
          u4 = u3\<lparr>network_rx_bytes := 0, network_tx_bytes := 0\<rparr>;
          u5 = (case proc_uptime pf of None \<Rightarrow> u4 | Some s \<Rightarrow> u4\<lparr>uptime_seconds := extract_double s\<rparr>)
      in (u5, m2))"

definition get_usage :: "u64 \<Rightarrow> proc_files \<Rightarrow> resource_monitor \<Rightarrow> resource_usage \<times> resource_monitor" where
  "get_usage clk pf m = read_usage clk pf m"

subsection \<open>Alerts\<close>

definition emit_alert ::
  "u64 \<Rightarrow> resource_monitor \<Rightarrow> alert_level \<Rightarrow> string \<Rightarrow> string \<Rightarrow> nat \<Rightarrow> nat \<Rightarrow> resource_alert list" where
  "emit_alert now m lv res msg current lm =
     (if has_alert_callback m
      then [\<lparr>level = lv, resource = res, alert_message = msg, current_value = double_of_nat current,
             limit_value = double_of_nat lm, alert_timestamp = now\<rparr>]
      else [])"

definition memory_level :: "u64 \<Rightarrow> u64 \<Rightarrow> alert_level" where
  "memory_level used lm =
     (let mem_ratio = ddiv (double_of_nat (unat used)) (double_of_nat (unat lm)) in
      if dgt mem_ratio (9 / 10) then CRITICAL
      else if dgt mem_ratio (3 / 4) then WARNING
      else INFO)"

definition check_alerts :: "u64 \<Rightarrow> resource_usage \<Rightarrow> resource_monitor \<Rightarrow> resource_alert list" where
  "check_alerts now u m =
     (let lm = limits m in
      (case memory_level (memory_bytes u) (lim_memory_bytes lm) of
         CRITICAL \<Rightarrow> emit_alert now m CRITICAL ''memory'' ''Memory usage critical''
                       (unat (memory_bytes u)) (unat (lim_memory_bytes lm))
       | WARNING \<Rightarrow> emit_alert now m WARNING ''memory'' ''Memory usage high''
                       (unat (memory_bytes u)) (unat (lim_memory_bytes lm))
       | INFO \<Rightarrow> []) @
      (if lim_cpu_percent lm < cpu_percent u
       then emit_alert now m WARNING ''cpu'' ''CPU usage exceeded''
              (unat (cpu_percent u)) (unat (lim_cpu_percent lm)) else []) @
      (if lim_pids_max lm < pids_current u
       then emit_alert now m CRITICAL ''pids'' ''Process limit exceeded''
              (unat (pids_current u)) (unat (lim_pids_max lm)) else []))"

definition HISTORY_MAX :: nat where "HISTORY_MAX = 1000"

definition push_history :: "history_entry \<Rightarrow> resource_monitor \<Rightarrow> resource_monitor" where
  "push_history h m =
     (let hs = history m @ [h] in
      m\<lparr>history := (if HISTORY_MAX < length hs then tl hs else hs)\<rparr>)"

text \<open>One turn of the monitor loop.\<close>

definition monitor_turn ::
  "u64 \<Rightarrow> proc_files \<Rightarrow> u64 \<Rightarrow> u64 \<Rightarrow> resource_monitor \<Rightarrow> resource_alert list \<times> resource_monitor" where
  "monitor_turn clk pf pushed_at checked_at m =
     (case read_usage clk pf m of (u, m1) \<Rightarrow>
        let m2 = push_history \<lparr>usage = u, hist_timestamp = double_of_nat (unat pushed_at)\<rparr> m1 in
        (check_alerts checked_at u m2, m2))"

definition on_alert :: "resource_monitor \<Rightarrow> resource_monitor" where
  "on_alert m = m\<lparr>has_alert_callback := True\<rparr>"

definition get_history :: "nat \<Rightarrow> resource_monitor \<Rightarrow> history_entry list" where
  "get_history n m =
     (let start = (if n < length (history m) then length (history m) - n else 0) in
      map (\<lambda>i. history m ! i) [start ..< length (history m)])"

definition exceeds :: "resource_usage \<Rightarrow> resource_limits \<Rightarrow> bool" where
  "exceeds u lm =
     (lim_memory_bytes lm < memory_bytes u \<or> lim_cpu_percent lm < cpu_percent u \<or>
      lim_pids_max lm < pids_current u)"

definition is_over_limit :: "u64 \<Rightarrow> proc_files \<Rightarrow> resource_monitor \<Rightarrow> bool \<times> resource_monitor" where
  "is_over_limit clk pf m = (case read_usage clk pf m of (u, m1) \<Rightarrow> (exceeds u (limits m), m1))"

definition get_violations :: "u64 \<Rightarrow> proc_files \<Rightarrow> resource_monitor \<Rightarrow> resource_alert list \<times> resource_monitor" where
  "get_violations clk pf m =
     (case read_usage clk pf m of (u, m1) \<Rightarrow>
        ((if lim_memory_bytes (limits m) < memory_bytes u
          then [\<lparr>level = CRITICAL, resource = ''memory'', alert_message = ''Memory limit exceeded'',
                 current_value = double_of_nat (unat (memory_bytes u)),
                 limit_value = double_of_nat (unat (lim_memory_bytes (limits m))), alert_timestamp = 0\<rparr>] else []) @
         (if lim_cpu_percent (limits m) < cpu_percent u
          then [\<lparr>level = WARNING, resource = ''cpu'', alert_message = ''CPU limit exceeded'',
                 current_value = double_of_nat (unat (cpu_percent u)),
                 limit_value = double_of_nat (unat (lim_cpu_percent (limits m))), alert_timestamp = 0\<rparr>] else []), m1))"

definition set_limit :: "resource_limits \<Rightarrow> resource_monitor \<Rightarrow> bool \<times> resource_monitor" where
  "set_limit lm m = (True, m\<lparr>limits := lm\<rparr>)"

subsection \<open>The manager\<close>

record resource_manager =
  monitors :: "resource_monitor umap"
  has_global_callback :: bool

definition new_resource_manager :: resource_manager where
  "new_resource_manager = \<lparr>monitors = [], has_global_callback = False\<rparr>"

definition get_monitor :: "resource_manager \<Rightarrow> string \<Rightarrow> resource_monitor option" where
  "get_monitor mgr i = map_of (monitors mgr) i"

definition put_monitor :: "string \<Rightarrow> resource_monitor \<Rightarrow> resource_manager \<Rightarrow> resource_manager" where
  "put_monitor i m mgr = mgr\<lparr>monitors := AList.update i m (monitors mgr)\<rparr>"

definition erase_monitor :: "string \<Rightarrow> resource_manager \<Rightarrow> resource_manager" where
  "erase_monitor i mgr = mgr\<lparr>monitors := AList.delete i (monitors mgr)\<rparr>"

definition add_monitor :: "string \<Rightarrow> i32 \<Rightarrow> resource_limits \<Rightarrow> resource_manager \<Rightarrow> bool \<times> resource_manager" where
  "add_monitor i p lm mgr =
     (case start (on_alert (new_resource_monitor p lm)) of (ok, m) \<Rightarrow> (ok, put_monitor i m mgr))"

definition remove_monitor :: "string \<Rightarrow> resource_manager \<Rightarrow> bool \<times> resource_manager" where
  "remove_monitor i mgr = (if get_monitor mgr i = None then (False, mgr) else (True, erase_monitor i mgr))"

text \<open>The callback \<^verbatim>\<open>add_monitor\<close> installs: it passes an alert on with the id of its sandbox.\<close>

definition forward_alert :: "resource_manager \<Rightarrow> string \<Rightarrow> resource_alert \<Rightarrow> (string \<times> resource_alert) list" where
  "forward_alert mgr i a = (if has_global_callback mgr then [(i, a)] else [])"

definition on_global_alert :: "resource_manager \<Rightarrow> resource_manager" where
  "on_global_alert mgr = mgr\<lparr>has_global_callback := True\<rparr>"

record sandbox_usage =
  su_sandbox_id :: string
  su_usage :: resource_usage
  su_over_limit :: bool

text \<open>Both queries read each process twice; \<open>files id k\<close> is what the k-th reading of a sandbox sees.\<close>

definition sandbox_reading ::
  "u64 \<Rightarrow> (string \<Rightarrow> nat \<Rightarrow> proc_files) \<Rightarrow> string \<times> resource_monitor \<Rightarrow> sandbox_usage \<times> (string \<times> resource_monitor)" where
  "sandbox_reading clk files im =
     (case get_usage clk (files (fst im) 0) (snd im) of (u, m1) \<Rightarrow>
      case is_over_limit clk (files (fst im) 1) m1 of (over, m2) \<Rightarrow>
        (\<lparr>su_sandbox_id = fst im, su_usage = u, su_over_limit = over\<rparr>, (fst im, m2)))"

definition get_all_usage ::
  "u64 \<Rightarrow> (string \<Rightarrow> nat \<Rightarrow> proc_files) \<Rightarrow> resource_manager \<Rightarrow> sandbox_usage list \<times> resource_manager" where
  "get_all_usage clk files mgr =
     (map (fst \<circ> sandbox_reading clk files) (monitors mgr),
      mgr\<lparr>monitors := map (snd \<circ> sandbox_reading clk files) (monitors mgr)\<rparr>)"

record resource_global_stats =
  total_memory_used :: u64
  total_cpu_percent :: u32
  total_pids :: u32
  total_sandboxes :: u64
  sandboxes_over_limit :: u64

definition count_sandbox :: "resource_global_stats \<Rightarrow> sandbox_usage \<Rightarrow> resource_global_stats" where
  "count_sandbox st r =
     (let st1 = st\<lparr>total_memory_used := total_memory_used st + memory_bytes (su_usage r),
                   total_cpu_percent := total_cpu_percent st + cpu_percent (su_usage r),
                   total_pids := total_pids st + pids_current (su_usage r),
                   total_sandboxes := total_sandboxes st + 1\<rparr> in
      if su_over_limit r then st1\<lparr>sandboxes_over_limit := sandboxes_over_limit st1 + 1\<rparr> else st1)"

definition get_resource_global_stats ::
  "u64 \<Rightarrow> (string \<Rightarrow> nat \<Rightarrow> proc_files) \<Rightarrow> resource_manager \<Rightarrow> resource_global_stats \<times> resource_manager" where
  "get_resource_global_stats clk files mgr =
     (foldl count_sandbox
        \<lparr>total_memory_used = 0, total_cpu_percent = 0, total_pids = 0, total_sandboxes = 0, sandboxes_over_limit = 0\<rparr>
        (map (fst \<circ> sandbox_reading clk files) (monitors mgr)),
      mgr\<lparr>monitors := map (snd \<circ> sandbox_reading clk files) (monitors mgr)\<rparr>)"

subsection \<open>Specification vocabulary\<close>

definition demo_limits :: resource_limits where
  "demo_limits = \<lparr>lim_memory_bytes = 4096, lim_cpu_percent = 50, lim_pids_max = 64, lim_disk_bytes = 0,
     lim_network_rx_bps = 0, lim_network_tx_bps = 0\<rparr>"

definition demo_files :: proc_files where
  "demo_files = \<lparr>proc_status = Some [''VmRSS:    2 kB'', ''Threads:  9''],
     proc_stat = Some ''7 (a) S 1 1 1 0 1 0 0 0 0 0 900 100 0'', proc_io = None, proc_uptime = None\<rparr>"

definition demo_monitor :: resource_monitor where
  "demo_monitor = on_alert (new_resource_monitor 7 demo_limits)"

section \<open>Lemmas\<close>

interpretation rg: registry get_monitor put_monitor erase_monitor "\<lambda>mgr. umap_inv (monitors mgr)"
  by unfold_locales
    (auto simp: get_monitor_def put_monitor_def erase_monitor_def update_conv delete_conv intro: inv_intros)

interpretation hl: bounded_log push_history history "\<lambda>_. HISTORY_MAX" "\<lambda>m. length (history m) \<le> HISTORY_MAX"
proof unfold_locales
  fix m :: resource_monitor and e
  assume "length (history m) \<le> HISTORY_MAX"
  then show "history (push_history e m) = last_n HISTORY_MAX (history m @ [e])"
    "length (history (push_history e m)) \<le> HISTORY_MAX"
    by (auto simp: push_history_def Let_def last_n_def drop_Suc not_less_eq_eq le_Suc_eq Suc_diff_le
        simp del: drop_append)
qed simp

interpretation hv: recent_view history get_history
proof unfold_locales
  fix n and m :: resource_monitor
  have "(if n < length (history m) then length (history m) - n else 0) = length (history m) - n" by simp
  then show "get_history n m = last_n n (history m)"
    unfolding get_history_def Let_def by (simp only: last_n_nths)
qed

text \<open>The monitor thread keeps the last thousand samples, and a query returns the latest of them.\<close>

theorem history_window:
  assumes "length (history m) \<le> HISTORY_MAX" and "es \<noteq> []"
  shows "get_history n (fold push_history es m) = last_n n (last_n HISTORY_MAX (history m @ es))"
  using hl.fold_push [OF assms] by (simp add: hv.recent_eq)

subsection \<open>Sampling\<close>

lemma threads_line_never_matches: "take 4 line \<noteq> ''Threads:''"
proof
  assume "take 4 line = ''Threads:''"
  then have "length (take 4 line) = 8" by simp
  then show False by simp
qed

lemma read_status_frame:
  "pids_current (foldl read_status_line u ls) = pids_current u \<and>
   cpu_percent (foldl read_status_line u ls) = cpu_percent u"
  by (induction ls arbitrary: u) (auto simp: read_status_line_def threads_line_never_matches)

lemma read_io_frame:
  "pids_current (foldl read_io_line u ls) = pids_current u \<and> cpu_percent (foldl read_io_line u ls) = cpu_percent u \<and>
   memory_bytes (foldl read_io_line u ls) = memory_bytes u"
  by (induction ls arbitrary: u) (auto simp: read_io_line_def)

lemma read_usage_facts:
  "pids_current (fst (read_usage clk pf m)) = 0"
  "cpu_percent (fst (read_usage clk pf m)) =
     (case proc_stat pf of None \<Rightarrow> 0 | Some line \<Rightarrow> ucast ((total_time line - prev_cpu_time m) * 100 div clk))"
  "memory_bytes (fst (read_usage clk pf m)) =
     (case proc_status pf of None \<Rightarrow> 0 | Some ls \<Rightarrow> memory_bytes (foldl read_status_line no_usage ls))"
  "prev_cpu_time (snd (read_usage clk pf m)) =
     (case proc_stat pf of None \<Rightarrow> prev_cpu_time m | Some line \<Rightarrow> total_time line)"
  "limits (snd (read_usage clk pf m)) = limits m"
  by (auto simp: read_usage_def Let_def read_status_frame read_io_frame no_usage_def split: option.splits)

lemma reading_again:
  "files i 1 = files i 0 \<Longrightarrow>
   su_over_limit (fst (sandbox_reading clk files (i, m))) \<longleftrightarrow>
     lim_memory_bytes (limits m) < memory_bytes (fst (read_usage clk (files i 0) m))"
  by (auto simp: sandbox_reading_def get_usage_def is_over_limit_def exceeds_def read_usage_facts case_prod_unfold
      split: option.splits)

lemma count_over_limit:
  "sandboxes_over_limit (foldl count_sandbox st rs) =
     sandboxes_over_limit st + of_nat (length (filter su_over_limit rs))"
  by (induction rs arbitrary: st) (auto simp: count_sandbox_def Let_def)

subsection \<open>Memory levels\<close>

lemma memory_level_exact:
  assumes "0 < lm" and "lm < 2 ^ 49" and "used < 2 ^ 53"
  shows "memory_level used lm =
    (if 9 * unat lm < 10 * unat used then CRITICAL else if 3 * unat lm < 4 * unat used then WARNING else INFO)"
proof -
  have b: "0 < unat lm" "unat lm < 2 ^ 49" "unat used < 2 ^ 53"
    using assms by (simp_all add: word_less_nat_alt)
  have "dgt (ddiv (double_of_nat (unat used)) (double_of_nat (unat lm))) (of_nat 9 / of_nat 10) \<longleftrightarrow>
      9 * unat lm < 10 * unat used"
    using b by (intro dgt_quotient) auto
  moreover have "dgt (ddiv (double_of_nat (unat used)) (double_of_nat (unat lm))) (of_nat 3 / of_nat 4) \<longleftrightarrow>
      3 * unat lm < 4 * unat used"
    using b by (intro dgt_quotient) auto
  ultimately show ?thesis by (simp add: memory_level_def Let_def)
qed

text \<open>Whatever the rounding does, more memory never lowers the level.\<close>

lemma dgt_mono:
  assumes "a \<le> b" "dgt (ddiv (double_of_nat a) (double_of_nat l)) c"
  shows "dgt (ddiv (double_of_nat b) (double_of_nat l)) c"
proof -
  have m: "double_of_nat a \<le> double_of_nat b" unfolding double_of_nat_def using assms(1) by (intro rnd_mono) auto
  have z: "0 \<le> double_of_nat n" for n
    using rnd_mono [of 0 "of_nat n"] double_of_nat_exact [of 0] by (simp add: double_of_nat_def)
  have "double_of_nat b = 0 \<Longrightarrow> double_of_nat a = 0" using m z [of a] by simp
  moreover have "rnd (double_of_nat a / double_of_nat l) \<le> rnd (double_of_nat b / double_of_nat l)"
    using m z by (intro rnd_mono divide_right_mono) auto
  ultimately show ?thesis using assms(2) by (auto simp: ddiv_def dgt_def split: if_splits)
qed

theorem memory_level_mono: "a \<le> b \<Longrightarrow> memory_level a lm \<le> memory_level b lm"
  using dgt_mono [of "unat a" "unat b" "unat lm"]
  by (auto simp: memory_level_def Let_def less_eq_alert_level_def word_le_nat_alt)

section \<open>Properties\<close>

text \<open>
  C35. The memory alert of a monitor with a callback: CRITICAL exactly above nine tenths of the
  limit, WARNING exactly above three quarters of it, otherwise none, for limits below \<open>2 ^ 49\<close>
  bytes and usages below \<open>2 ^ 53\<close>: the quotient the code rounds to a double never changes the
  answer.
\<close>

theorem memory_alert_thresholds:
  assumes "has_alert_callback m" and "0 < lim_memory_bytes (limits m)"
    and "lim_memory_bytes (limits m) < 2 ^ 49" and "memory_bytes u < 2 ^ 53"
  shows "map level (filter (\<lambda>a. resource a = ''memory'') (check_alerts now u m)) =
    (if 9 * unat (lim_memory_bytes (limits m)) < 10 * unat (memory_bytes u) then [CRITICAL]
     else if 3 * unat (lim_memory_bytes (limits m)) < 4 * unat (memory_bytes u) then [WARNING] else [])"
  using assms by (simp add: check_alerts_def Let_def memory_level_exact emit_alert_def)

theorem memory_alert_thresholds_witness:
  "map level (filter (\<lambda>a. resource a = ''memory'') (check_alerts 5 (no_usage\<lparr>memory_bytes := 3687\<rparr>) demo_monitor)) =
   [CRITICAL]"
  using memory_alert_thresholds [of demo_monitor "no_usage\<lparr>memory_bytes := 3687\<rparr>" 5]
  by (simp add: demo_monitor_def demo_limits_def on_alert_def new_resource_monitor_def)

text \<open>
  The number of processes is never seen: the reader compares four characters of a line with
  an eight-character name, so every sample has \<open>pids_current\<close> zero and no turn of the monitor
  raises an alert about processes, whatever \<^verbatim>\<open>/proc\<close> says and however low the limit is.
\<close>

theorem pids_never_counted:
  "pids_current (fst (read_usage clk pf m)) = 0 \<and>
   list_all (\<lambda>a. resource a \<noteq> ''pids'') (fst (monitor_turn clk pf pushed_at checked_at m))"
  by (auto simp: read_usage_facts monitor_turn_def check_alerts_def emit_alert_def Let_def case_prod_unfold
      split: alert_level.splits)

text \<open>
  The summaries ignore the processor: both take the usage and then ask for the limit, which
  reads the process a second time and measures the processor time since the first. When the
  files have not changed in between, a sandbox is reported over its limit exactly when its memory
  is, at any processor usage.
\<close>

theorem summaries_ignore_cpu:
  assumes "\<forall>i. files i 1 = files i 0"
  shows "map su_over_limit (fst (get_all_usage clk files mgr)) =
      map (\<lambda>(i, m). lim_memory_bytes (limits m) < memory_bytes (fst (read_usage clk (files i 0) m))) (monitors mgr) \<and>
    sandboxes_over_limit (fst (get_resource_global_stats clk files mgr)) =
      of_nat (length (filter (\<lambda>(i, m). lim_memory_bytes (limits m) < memory_bytes (fst (read_usage clk (files i 0) m)))
        (monitors mgr)))"
proof -
  have r: "su_over_limit (fst (sandbox_reading clk files im)) =
      (case im of (i, m) \<Rightarrow> lim_memory_bytes (limits m) < memory_bytes (fst (read_usage clk (files i 0) m)))" for im
    using reading_again [of files "fst im" clk "snd im"] assms by (simp add: case_prod_unfold)
  then show ?thesis
    by (simp add: get_all_usage_def get_resource_global_stats_def count_over_limit filter_map comp_def)
qed

lemma demo_readings:
  "total_time ''7 (a) S 1 1 1 0 1 0 0 0 0 0 900 100 0'' = 1000"
  "memory_bytes (foldl read_status_line no_usage [''VmRSS:    2 kB'', ''Threads:  9'']) = 2048"
proof -
  have "skip_tokens 13 ''7 (a) S 1 1 1 0 1 0 0 0 0 0 900 100 0'' = '' 900 100 0''"
    by (simp add: isspace_def eval_nat_numeral)
  moreover have "read_times '' 900 100 0'' = (900, 100)"
    by (simp add: read_times_def extract_u64_def scan_number_def isspace_def is_digit_def dec_value_def digit_val_def)
  ultimately show "total_time ''7 (a) S 1 1 1 0 1 0 0 0 0 0 900 100 0'' = 1000" by (simp add: total_time_def)
  show "memory_bytes (foldl read_status_line no_usage [''VmRSS:    2 kB'', ''Threads:  9'']) = 2048"
    by (simp add: read_status_line_def extract_u64_def scan_number_def isspace_def is_digit_def dec_value_def
        digit_val_def no_usage_def)
qed

theorem summaries_ignore_cpu_witness:
  "cpu_percent (fst (read_usage 100 demo_files demo_monitor)) = 1000 \<and>
   map su_over_limit (fst (get_all_usage 100 (\<lambda>i k. demo_files)
     \<lparr>monitors = [(''a'', demo_monitor)], has_global_callback = False\<rparr>)) = [False]"
proof -
  have lm: "prev_cpu_time demo_monitor = 0" "lim_memory_bytes (limits demo_monitor) = 4096"
    by (simp_all add: demo_monitor_def on_alert_def new_resource_monitor_def demo_limits_def)
  show ?thesis
    using summaries_ignore_cpu [of "\<lambda>i k. demo_files" 100
        "\<lparr>monitors = [(''a'', demo_monitor)], has_global_callback = False\<rparr>"]
    by (simp add: read_usage_facts demo_files_def demo_readings lm del: foldl_Cons)
qed

end
