(* ===== verification/Job_Loop.thy ===== *)
theory Job_Loop
  imports Redis_Client Security Log_Aggregator Metrics Netns Sandbox_Exec Process_Supervisor Ipc
    Health_Monitor File_Watcher Resource_Monitor
begin

section \<open>The job loop\<close>

text \<open>
  \<^verbatim>\<open>sandbox/src/main.cpp\<close>: the options, the callbacks that tie the components together, and the loop
  that takes jobs from Redis; what is before and behind the loop is in \<open>Worker_Main\<close>. Sleeping is not modelled. The requests a turn makes are a list
  (their replies are ignored by the code, the one to \<^verbatim>\<open>job next\<close> excepted), and so are the
  system calls of the sandboxes. Here every request returns, with a reply or without one; \<open>poll_turn\<close> of \<open>Worker_Main\<close> sends
  them, and there an exception of a request, or the signal of a broken connection, ends the program in the middle of the turn.
\<close>

subsection \<open>Options\<close>

record options =
  opt_host :: string
  opt_port :: u16
  opt_id :: string
  opt_type :: string
  opt_metrics_port :: u16
  opt_watch_path :: string
  opt_use_seccomp :: bool
  opt_security_profile :: string
  opt_enable_netns :: bool
  opt_enable_ipc :: bool
  opt_max_restarts :: u32

definition default_options :: options where
  "default_options =
     \<lparr>opt_host = ''127.0.0.1'', opt_port = 1234, opt_id = ''cpp-sandbox-1'', opt_type = ''local'',
      opt_metrics_port = 9090, opt_watch_path = [], opt_use_seccomp = True, opt_security_profile = ''standard'',
      opt_enable_netns = False, opt_enable_ipc = False, opt_max_restarts = 3\<rparr>"

text \<open>
  One turn of the loop over \<^verbatim>\<open>getopt_long\<close>: the option character and \<^verbatim>\<open>optarg\<close>. The program ends
  with a code, or goes on; a number that does not parse is an exception.
\<close>

definition apply_option :: "char \<times> string \<Rightarrow> options \<Rightarrow> (int + options) res" where
  "apply_option co opts =
     (case co of (c, optarg) \<Rightarrow>
        if c = CHR ''h'' then Inr (Inr (opts\<lparr>opt_host := optarg\<rparr>))
        else if c = CHR ''p'' then res_bind (stoi optarg) (\<lambda>n. Inr (Inr (opts\<lparr>opt_port := of_int n\<rparr>)))
        else if c = CHR ''i'' then Inr (Inr (opts\<lparr>opt_id := optarg\<rparr>))
        else if c = CHR ''t'' then Inr (Inr (opts\<lparr>opt_type := optarg\<rparr>))
        else if c = CHR ''m'' then res_bind (stoi optarg) (\<lambda>n. Inr (Inr (opts\<lparr>opt_metrics_port := of_int n\<rparr>)))
        else if c = CHR ''w'' then Inr (Inr (opts\<lparr>opt_watch_path := optarg\<rparr>))
        else if c = CHR ''n'' then Inr (Inr (opts\<lparr>opt_use_seccomp := False\<rparr>))
        else if c = CHR ''s'' then Inr (Inr (opts\<lparr>opt_security_profile := optarg\<rparr>))
        else if c = CHR ''N'' then Inr (Inr (opts\<lparr>opt_enable_netns := True\<rparr>))
        else if c = CHR ''I'' then Inr (Inr (opts\<lparr>opt_enable_ipc := True\<rparr>))
        else if c = CHR ''r'' then res_bind (stoi optarg) (\<lambda>n. Inr (Inr (opts\<lparr>opt_max_restarts := of_int n\<rparr>)))
        else if c = CHR ''H'' then Inr (Inl 0)
        else Inr (Inl 1))"

fun parse_options :: "(char \<times> string) list \<Rightarrow> options \<Rightarrow> (int + options) res" where
  "parse_options [] opts = Inr (Inr opts)"
| "parse_options (co # rest) opts =
     res_bind (apply_option co opts) (\<lambda>r.
       case r of Inl code \<Rightarrow> Inr (Inl code) | Inr opts' \<Rightarrow> parse_options rest opts')"

definition final_id :: "int \<Rightarrow> options \<Rightarrow> options" where
  "final_id self opts =
     (if opt_id opts = [] then opts\<lparr>opt_id := ''cpp-sandbox-'' @ dec_of_int self\<rparr> else opts)"

subsection \<open>State and callbacks\<close>

record main_state =
  log_agg :: Log_Aggregator.log_agg
  metrics :: "rat Metrics.exporter"
  security_manager :: Security.security_manager
  net_manager :: "Netns.network_manager option"
  jobs_completed :: u64
  jobs_failed :: u64

definition on_ipc_command :: "u64 \<Rightarrow> Ipc.ipc_message \<Rightarrow> main_state \<Rightarrow> main_state" where
  "on_ipc_command now m st =
     st\<lparr>log_agg := Log_Aggregator.push now ''ipc'' ''info'' (''received command: '' @ Ipc.as_string m) (log_agg st)\<rparr>"

definition on_file_event :: "u64 \<Rightarrow> File_Watcher.file_event \<Rightarrow> main_state \<Rightarrow> main_state" where
  "on_file_event now e st =
     st\<lparr>log_agg := Log_Aggregator.push now ''filewatcher'' ''info'' (''file changed: '' @ File_Watcher.path e) (log_agg st),
        metrics := Metrics.counter ''filewatcher.events_total'' 1 [] (metrics st)\<rparr>"

fun event_type_str :: "event_type \<Rightarrow> string" where
  "event_type_str Ev_STARTED = ''STARTED''"
| "event_type_str Ev_STOPPED = ''STOPPED''"
| "event_type_str Ev_CRASHED = ''CRASHED''"
| "event_type_str Ev_RESTARTED = ''RESTARTED''"
| "event_type_str Ev_HEALTH_CHECK_FAILED = ''HEALTH_FAIL''"

definition on_supervisor_event :: "u64 \<Rightarrow> process_event \<Rightarrow> main_state \<Rightarrow> main_state" where
  "on_supervisor_event now e st =
     (let ty = event_type_str (ev_type e) in
      st\<lparr>log_agg := Log_Aggregator.push now ''supervisor'' ty
            (process_name e @ '': pid='' @ dec_of_int (sint (ev_pid e)) @ '' exit='' @ dec_of_int (sint (ev_exit_code e))) (log_agg st),
         metrics := Metrics.counter ''supervisor.events_total'' 1 [(''type'', ty)] (metrics st)\<rparr>)"

definition resources_check :: "resource_global_stats \<Rightarrow> bool \<times> string" where
  "resources_check g =
     (if 0 < sandboxes_over_limit g
      then (False, dec_of_nat (unat (sandboxes_over_limit g)) @ '' sandboxes over limit'')
      else (True, ''ok''))"

subsection \<open>Before the loop\<close>

definition main_netns_config :: Netns.netns_config where
  "main_netns_config =
     \<lparr>ns_name = ''sandbox-netns'', bridge = ''sandbox-br0'', subnet = ''10.100.0.0/24'', next_ip = 2,
      enable_loopback = True, enable_dns = True, dns_servers = [''8.8.8.8'', ''8.8.4.4'']\<rparr>"

definition new_main_state :: main_state where
  "new_main_state =
     \<lparr>log_agg = new_log_agg, metrics = [], security_manager = new_security_manager, net_manager = None,
      jobs_completed = 0, jobs_failed = 0\<rparr>"

subsection \<open>One turn\<close>

text \<open>What one turn meets: the reply to \<^verbatim>\<open>job next\<close>, the clock, the kernel, and the time the run took.\<close>

record turn =
  t_reply :: "response option"
  t_clock :: "nat \<Rightarrow> u64"
  t_kernel :: kernel
  t_duration :: nat

record job =
  job_id :: string
  job_name :: string
  job_target :: string
  job_command :: string

definition parse_job :: "response \<Rightarrow> job option" where
  "parse_job r =
     (if length (arr r) < 5 then None
      else Some \<lparr>job_id = str (arr r ! 0), job_name = str (arr r ! 1), job_target = str (arr r ! 2),
                 job_command = str (arr r ! 3)\<rparr>)"

text \<open>The callback of the sandbox on the pieces of output: the requests, and the log.\<close>

definition output_requests :: "string \<Rightarrow> string list \<Rightarrow> string list list" where
  "output_requests i outs = map (\<lambda>line. cmd_job_log i (take 1000 line)) outs"

fun log_outputs :: "(nat \<Rightarrow> u64) \<Rightarrow> nat \<Rightarrow> string \<Rightarrow> string list \<Rightarrow> Log_Aggregator.log_agg \<Rightarrow> Log_Aggregator.log_agg" where
  "log_outputs clk n i [] la = la"
| "log_outputs clk n i (line # lines) la =
     log_outputs clk (n + 1) i lines (Log_Aggregator.push_raw (clk n) (''sandbox:'' @ i) line la)"

definition open_network ::
  "options \<Rightarrow> 'w shell \<Rightarrow> job \<Rightarrow> main_state \<Rightarrow> 'w Netns.host \<Rightarrow> bool \<times> main_state \<times> 'w Netns.host" where
  "open_network opts sh j st h =
     (if opt_enable_netns opts then
        (case net_manager st of
           None \<Rightarrow> (False, st, h)
         | Some mgr \<Rightarrow>
             (case create_namespace sh (job_id j) mgr h of (ns, mgr', h') \<Rightarrow>
                (ns \<noteq> None, st\<lparr>net_manager := Some mgr'\<rparr>, h')))
      else (False, st, h))"

definition close_network ::
  "'w shell \<Rightarrow> job \<Rightarrow> bool \<Rightarrow> main_state \<Rightarrow> 'w Netns.host \<Rightarrow> main_state \<times> 'w Netns.host" where
  "close_network sh j opened st h =
     (case net_manager st of
        Some mgr \<Rightarrow>
          if opened then
            (case remove_namespace sh (job_id j) mgr h of (_, mgr', h') \<Rightarrow> (st\<lparr>net_manager := Some mgr'\<rparr>, h'))
          else (st, h)
      | None \<Rightarrow> (st, h))"

definition record_result :: "turn \<Rightarrow> nat \<Rightarrow> job \<Rightarrow> exec_result \<Rightarrow> main_state \<Rightarrow> main_state" where
  "record_result t n j res st =
     (let code = Sandbox_Exec.exit_code res; dur = double_of_nat (t_duration t);
          m1 = Metrics.counter ''sandbox.jobs_completed_total'' 1
                 [(''exit_code'', dec_of_int code), (''target'', job_target j)] (metrics st);
          m2 = Metrics.histogram ''sandbox.execution_duration_ms'' dur [] m1;
          st1 = (if code = 0
                 then st\<lparr>jobs_completed := jobs_completed st + 1,
                         log_agg := Log_Aggregator.push (t_clock t n) ''scheduler'' ''info''
                           (''job '' @ job_id j @ '' PASSED ('' @ dec_of_nat (t_duration t) @ ''ms)'') (log_agg st)\<rparr>
                 else st\<lparr>jobs_failed := jobs_failed st + 1,
                         log_agg := Log_Aggregator.push (t_clock t n) ''scheduler'' ''error''
                           (''job '' @ job_id j @ '' FAILED (exit='' @ dec_of_int code @ '')'') (log_agg st)\<rparr>);
          m3 = Metrics.gauge ''sandbox.jobs_completed'' (double_of_nat (unat (jobs_completed st1))) [] m2;
          m4 = Metrics.gauge ''sandbox.jobs_failed'' (double_of_nat (unat (jobs_failed st1))) [] m3 in
      st1\<lparr>metrics := m4\<rparr>)"

definition job_config :: "options \<Rightarrow> job \<Rightarrow> sandbox_config" where
  "job_config opts j =
     default_sandbox_config\<lparr>Sandbox_Exec.id := job_id j, enable_seccomp := opt_use_seccomp opts,
       enable_network := (job_target j = ''network'' \<or> opt_enable_netns opts)\<rparr>"

definition execute_job ::
  "options \<Rightarrow> 'w shell \<Rightarrow> turn \<Rightarrow> job \<Rightarrow> main_state \<Rightarrow> 'w Netns.host \<Rightarrow>
   string list list \<times> parent_call list \<times> main_state \<times> 'w Netns.host" where
  "execute_job opts sh t j st h =
     (case open_network opts sh j st h of (opened, st1, h1) \<Rightarrow>
      case Sandbox_Exec.run (t_kernel t) (job_command j) True (new_sandbox (job_config opts j)) of
        (res, outs, calls, sb) \<Rightarrow>
          let st2 = st1\<lparr>log_agg := log_outputs (t_clock t) 1 (job_id j) outs (log_agg st1)\<rparr>;
              st3 = record_result t (1 + length outs) j res st2;
              (st4, h4) = close_network sh j opened st3 h1 in
          ((if opened then [cmd_job_log (job_id j) ''sandbox: network namespace created''] else []) @
           [cmd_job_log (job_id j) ''sandbox: starting execution''] @
           output_requests (job_id j) outs @
           [cmd_job_result (job_id j) (Sandbox_Exec.exit_code res) (int (t_duration t)),
            cmd_sandbox_release (opt_id opts)],
           calls @ fst (cleanup sb), st4, h4))"

text \<open>A job: announced, claimed, checked against the policy, then refused or executed.\<close>

definition handle_job ::
  "options \<Rightarrow> 'w shell \<Rightarrow> turn \<Rightarrow> job \<Rightarrow> main_state \<Rightarrow> 'w Netns.host \<Rightarrow>
   string list list \<times> parent_call list \<times> main_state \<times> 'w Netns.host" where
  "handle_job opts sh t j st h =
     (let st1 = st\<lparr>log_agg := Log_Aggregator.push (t_clock t 0) ''scheduler'' ''info''
                      (''running job: '' @ job_id j @ '' ('' @ job_name j @ '')'') (log_agg st),
                   metrics := Metrics.counter ''sandbox.jobs_started_total'' 1 [(''target'', job_target j)] (metrics st)\<rparr>;
          claim = cmd_sandbox_claim (opt_id opts) (job_id j) in
      if \<not> allowed (validate_command (job_command j) (opt_security_profile opts) (security_manager st1)) then
        ([claim, cmd_job_log (job_id j) ''SECURITY: command blocked by policy'',
          cmd_job_result (job_id j) 126 0, cmd_sandbox_release (opt_id opts)], [], st1, h)
      else
        (case execute_job opts sh t j st1 h of (reqs, calls, st2, h2) \<Rightarrow> (claim # reqs, calls, st2, h2)))"

definition loop_turn ::
  "options \<Rightarrow> 'w shell \<Rightarrow> turn \<Rightarrow> main_state \<Rightarrow> 'w Netns.host \<Rightarrow>
   string list list \<times> parent_call list \<times> main_state \<times> 'w Netns.host" where
  "loop_turn opts sh t st h =
     (case t_reply t of
        None \<Rightarrow> ([cmd_job_next], [], st, h)
      | Some r \<Rightarrow>
          if is_nil r \<or> is_error r then ([cmd_job_next], [], st, h)
          else (case parse_job r of
                  None \<Rightarrow> ([cmd_job_next], [], st, h)
                | Some j \<Rightarrow>
                    (case handle_job opts sh t j st h of (reqs, calls, st', h') \<Rightarrow>
                       (cmd_job_next # reqs, calls, st', h'))))"

text \<open>The loop on the turns until a signal clears \<^verbatim>\<open>g_running\<close>.\<close>

fun main_loop ::
  "options \<Rightarrow> 'w shell \<Rightarrow> turn list \<Rightarrow> main_state \<Rightarrow> 'w Netns.host \<Rightarrow>
   string list list \<times> parent_call list \<times> main_state \<times> 'w Netns.host" where
  "main_loop opts sh [] st h = ([], [], st, h)"
| "main_loop opts sh (t # ts) st h =
     (case loop_turn opts sh t st h of (reqs, calls, st1, h1) \<Rightarrow>
        (case main_loop opts sh ts st1 h1 of (reqs', calls', st2, h2) \<Rightarrow> (reqs @ reqs', calls @ calls', st2, h2)))"

subsection \<open>Specification vocabulary\<close>

text \<open>
  The protocol between a worker and the server: a worker polls while it is idle, claims a job,
  sends any number of log lines for it, exactly one result, and releases itself.
\<close>

datatype worker = Idle | Claimed string | Finished string

fun protocol_step :: "string \<Rightarrow> worker \<Rightarrow> string list \<Rightarrow> worker option" where
  "protocol_step sb Idle r =
     (if r = cmd_job_next then Some Idle
      else if length r = 3 \<and> r = cmd_sandbox_claim sb (r ! 2) then Some (Claimed (r ! 2))
      else None)"
| "protocol_step sb (Claimed j) r =
     (if length r = 3 \<and> r = cmd_job_log j (r ! 2) then Some (Claimed j)
      else if length r = 4 \<and> take 2 r = [''job result'', j] then Some (Finished j)
      else None)"
| "protocol_step sb (Finished j) r = (if r = cmd_sandbox_release sb then Some Idle else None)"

fun protocol_run :: "string \<Rightarrow> worker \<Rightarrow> string list list \<Rightarrow> worker option" where
  "protocol_run sb w [] = Some w"
| "protocol_run sb w (r # rs) = Option.bind (protocol_step sb w r) (\<lambda>w'. protocol_run sb w' rs)"

text \<open>A system call that respects the policy: a child is created only for a command that is allowed.\<close>

definition respects_policy :: "options \<Rightarrow> Security.security_manager \<Rightarrow> parent_call \<Rightarrow> bool" where
  "respects_policy opts sm c =
     (case c of
        Clone flags a \<Rightarrow> allowed (validate_command (rootfs (Sandbox_Exec.config a)) (opt_security_profile opts) sm) \<and>
          enable_seccomp (Sandbox_Exec.config a) = opt_use_seccomp opts
      | _ \<Rightarrow> True)"

section \<open>Lemmas\<close>

lemma protocol_run_append:
  "protocol_run sb w (rs @ rs') = Option.bind (protocol_run sb w rs) (\<lambda>w'. protocol_run sb w' rs')"
  by (induction rs arbitrary: w) (auto split: Option.bind_splits)

lemma protocol_steps [simp]:
  "protocol_step sb Idle cmd_job_next = Some Idle"
  "protocol_step sb Idle (cmd_sandbox_claim sb j) = Some (Claimed j)"
  "protocol_step sb (Claimed j) (cmd_job_log j line) = Some (Claimed j)"
  "protocol_step sb (Claimed j) (cmd_job_result j code dur) = Some (Finished j)"
  "protocol_step sb (Finished j) (cmd_sandbox_release sb) = Some Idle"
  by (simp_all add: cmd_job_next_def cmd_sandbox_claim_def cmd_job_log_def cmd_job_result_def)

declare protocol_step.simps [simp del]

lemma protocol_logs: "protocol_run sb (Claimed j) (output_requests j outs) = Some (Claimed j)"
  by (induction outs) (auto simp: output_requests_def)

lemma security_manager_frame:
  "security_manager (record_result t n j res st) = security_manager st"
  "open_network opts sh j st h = (b, st1, h1) \<Longrightarrow> security_manager st1 = security_manager st"
  "close_network sh j b st h = (st2, h2) \<Longrightarrow> security_manager st2 = security_manager st"
  by (auto simp: record_result_def open_network_def close_network_def Let_def
      split: if_splits option.splits prod.splits)

lemma run_respects_policy:
  assumes "Sandbox_Exec.run k cmd out (new_sandbox cfg) = (res, outs, calls, sb)"
    and "allowed (validate_command cmd (opt_security_profile opts) sm)" and "enable_seccomp cfg = opt_use_seccomp opts"
  shows "list_all (respects_policy opts sm) (calls @ fst (cleanup sb))"
  using assms by (auto simp: Sandbox_Exec.run_def new_sandbox_def setup_cgroup_def cleanup_def respects_policy_def Let_def
      split: option.splits if_splits)

lemma execute_job_correct:
  assumes "execute_job opts sh t j st h = (reqs, calls, st', h')"
    and "allowed (validate_command (job_command j) (opt_security_profile opts) (security_manager st))"
  shows "protocol_run (opt_id opts) (Claimed (job_id j)) reqs = Some Idle \<and>
    list_all (respects_policy opts (security_manager st)) calls \<and> security_manager st' = security_manager st"
proof -
  obtain opened st1 h1 where o: "open_network opts sh j st h = (opened, st1, h1)" by (metis prod_cases3)
  obtain res outs k sb where r: "Sandbox_Exec.run (t_kernel t) (job_command j) True (new_sandbox (job_config opts j)) =
      (res, outs, k, sb)" by (metis prod_cases4)
  have cfg: "enable_seccomp (job_config opts j) = opt_use_seccomp opts" by (simp add: job_config_def)
  from assms(1) o r have reqs: "reqs =
      (if opened then [cmd_job_log (job_id j) ''sandbox: network namespace created''] else []) @
      [cmd_job_log (job_id j) ''sandbox: starting execution''] @ output_requests (job_id j) outs @
      [cmd_job_result (job_id j) (Sandbox_Exec.exit_code res) (int (t_duration t)), cmd_sandbox_release (opt_id opts)]"
    and calls: "calls = k @ fst (cleanup sb)" and sm: "security_manager st' = security_manager st1"
    by (auto simp: execute_job_def Let_def security_manager_frame split: prod.splits)
  have "protocol_run (opt_id opts) (Claimed (job_id j)) reqs = Some Idle"
    unfolding reqs by (simp add: protocol_run_append protocol_logs)
  then show ?thesis
    using run_respects_policy [OF r assms(2) cfg] calls sm security_manager_frame(2) [OF o] by simp
qed

lemma handle_job_correct:
  assumes "handle_job opts sh t j st h = (reqs, calls, st', h')"
  shows "protocol_run (opt_id opts) Idle reqs = Some Idle \<and>
    list_all (respects_policy opts (security_manager st)) calls \<and> security_manager st' = security_manager st"
proof (cases "allowed (validate_command (job_command j) (opt_security_profile opts) (security_manager st))")
  case False
  with assms show ?thesis by (auto simp: handle_job_def Let_def)
next
  case True
  define st1 where "st1 = st\<lparr>log_agg := Log_Aggregator.push (t_clock t 0) ''scheduler'' ''info''
                      (''running job: '' @ job_id j @ '' ('' @ job_name j @ '')'') (log_agg st),
                   metrics := Metrics.counter ''sandbox.jobs_started_total'' 1 [(''target'', job_target j)] (metrics st)\<rparr>"
  obtain rs cs s2 h2 where e: "execute_job opts sh t j st1 h = (rs, cs, s2, h2)" by (metis prod_cases4)
  have sm: "security_manager st1 = security_manager st" by (simp add: st1_def)
  have "reqs = cmd_sandbox_claim (opt_id opts) (job_id j) # rs" "calls = cs" "st' = s2"
    using assms True e unfolding handle_job_def st1_def [symmetric] by (simp_all add: Let_def sm)
  then show ?thesis using execute_job_correct [OF e] True by (simp add: sm)
qed

lemma loop_turn_correct:
  assumes "loop_turn opts sh t st h = (reqs, calls, st', h')"
  shows "protocol_run (opt_id opts) Idle reqs = Some Idle \<and>
    list_all (respects_policy opts (security_manager st)) calls \<and> security_manager st' = security_manager st"
proof -
  consider "reqs = [cmd_job_next]" "calls = []" "st' = st"
    | j rs where "handle_job opts sh t j st h = (rs, calls, st', h')" "reqs = cmd_job_next # rs"
    using assms by (auto simp: loop_turn_def split: option.splits if_splits prod.splits)
  then show ?thesis by cases (auto dest: handle_job_correct)
qed

lemma main_loop_correct:
  "main_loop opts sh ts st h = (reqs, calls, st', h') \<Longrightarrow>
   protocol_run (opt_id opts) Idle reqs = Some Idle \<and> list_all (respects_policy opts (security_manager st)) calls"
proof (induction ts arbitrary: st h reqs calls)
  case (Cons t ts)
  obtain r1 c1 s1 h1 where t: "loop_turn opts sh t st h = (r1, c1, s1, h1)" by (metis prod_cases4)
  obtain r2 c2 s2 h2 where m: "main_loop opts sh ts s1 h1 = (r2, c2, s2, h2)" by (metis prod_cases4)
  from Cons.prems t m have "reqs = r1 @ r2" "calls = c1 @ c2" "s2 = st'" "h2 = h'" by auto
  with Cons.IH [of s1 h1 r2 c2] m loop_turn_correct [OF t] show ?case by (simp add: protocol_run_append)
qed simp

end
