(* ===== verification/Rust_Prims.thy ===== *)
theory Rust_Prims
  imports Containers
begin

section \<open>The Rust standard library of the server\<close>

text \<open>
  What the server under \<^verbatim>\<open>redisdb/src\<close> uses of the Rust standard library: panics as values,
  \<^verbatim>\<open>i64\<close> arithmetic with and without overflow checks (debug and release builds), number parsing,
  the string operations, and \<^verbatim>\<open>slice::binary_search_by\<close>. A \<^verbatim>\<open>String\<close> is the HOL string of its
  UTF-8 bytes, as in the rest of the development.
\<close>

subsection \<open>Panics and integers\<close>

datatype panic = Overflow | Index_out_of_range | Unwrap_failed

type_synonym 'a run = "panic + 'a"

fun run_bind :: "'a run \<Rightarrow> ('a \<Rightarrow> 'b run) \<Rightarrow> 'b run" where
  "run_bind (Inl p) f = Inl p"
| "run_bind (Inr x) f = f x"

definition i64_range :: "int \<Rightarrow> bool" where
  "i64_range v = (- (2 ^ 63) \<le> v \<and> v < 2 ^ 63)"

definition wrap_i64 :: "int \<Rightarrow> int" where
  "wrap_i64 v = (v + 2 ^ 63) mod 2 ^ 64 - 2 ^ 63"

text \<open>
  The value of an \<^verbatim>\<open>i64\<close> expression: with overflow checks a result that does not fit is a panic,
  without them it wraps. The same for \<^verbatim>\<open>u32\<close>, \<^verbatim>\<open>usize\<close> (64 bits) and the amount of a shift.
\<close>

definition i64_op :: "bool \<Rightarrow> int \<Rightarrow> int run" where
  "i64_op checked v = (if i64_range v then Inr v else if checked then Inl Overflow else Inr (wrap_i64 v))"

definition u32_op :: "bool \<Rightarrow> nat \<Rightarrow> nat run" where
  "u32_op checked v = (if v < 2 ^ 32 then Inr v else if checked then Inl Overflow else Inr (v mod 2 ^ 32))"

definition usize_op :: "bool \<Rightarrow> nat \<Rightarrow> nat run" where
  "usize_op checked v = (if v < 2 ^ 64 then Inr v else if checked then Inl Overflow else Inr (v mod 2 ^ 64))"

definition shift_amount :: "bool \<Rightarrow> nat \<Rightarrow> nat run" where
  "shift_amount checked i = (if i < 64 then Inr i else if checked then Inl Overflow else Inr (i mod 64))"

text \<open>\<^verbatim>\<open>v as usize\<close> of an \<^verbatim>\<open>i64\<close>.\<close>

definition as_usize :: "int \<Rightarrow> nat" where
  "as_usize v = nat (v mod 2 ^ 64)"

subsection \<open>Parsing numbers\<close>

definition parse_i64 :: "string \<Rightarrow> int option" where
  "parse_i64 s =
     (let (neg, ds) = (case s of
            [] \<Rightarrow> (False, [])
          | c # cs \<Rightarrow> if c = CHR ''-'' then (True, cs) else if c = CHR ''+'' then (False, cs) else (False, s));
          v = (if neg then - int (dec_value ds) else int (dec_value ds)) in
      if ds = [] \<or> \<not> list_all is_digit ds \<or> \<not> i64_range v then None else Some v)"

definition parse_uint :: "nat \<Rightarrow> string \<Rightarrow> nat option" where
  "parse_uint w s =
     (let ds = (case s of c # cs \<Rightarrow> if c = CHR ''+'' then cs else s | [] \<Rightarrow> []) in
      if ds = [] \<or> \<not> list_all is_digit ds \<or> 2 ^ w \<le> dec_value ds then None else Some (dec_value ds))"

subsection \<open>Strings\<close>

text \<open>
  \<^verbatim>\<open>to_lowercase\<close>, up to what its results are compared with: the server compares them with ASCII
  literals only. The one character outside ASCII with an ASCII lower case is the Kelvin sign
  (U+212A, the bytes E2 84 AA); every other keeps a character outside ASCII, here itself.
\<close>

definition ascii_lower :: "char \<Rightarrow> char" where
  "ascii_lower c =
     (if 65 \<le> (of_char c :: nat) \<and> (of_char c :: nat) \<le> 90 then char_of (of_char c + 32 :: nat) else c)"

fun to_lowercase :: "string \<Rightarrow> string" where
  "to_lowercase (a # b # c # cs) =
     (if a = CHR 0xE2 \<and> b = CHR 0x84 \<and> c = CHR 0xAA then CHR ''k'' # to_lowercase cs
      else ascii_lower a # to_lowercase (b # c # cs))"
| "to_lowercase cs = map ascii_lower cs"

fun splitn :: "nat \<Rightarrow> char \<Rightarrow> string \<Rightarrow> string list" where
  "splitn 0 c s = []"
| "splitn (Suc 0) c s = [s]"
| "splitn (Suc (Suc n)) c s =
     (if c \<in> set s then takeWhile (\<lambda>d. d \<noteq> c) s # splitn (Suc n) c (tl (dropWhile (\<lambda>d. d \<noteq> c) s)) else [s])"

definition split_once :: "char \<Rightarrow> string \<Rightarrow> (string \<times> string) option" where
  "split_once c s =
     (if c \<in> set s then Some (takeWhile (\<lambda>d. d \<noteq> c) s, tl (dropWhile (\<lambda>d. d \<noteq> c) s)) else None)"

fun join :: "string \<Rightarrow> string list \<Rightarrow> string" where
  "join sep [] = []"
| "join sep [x] = x"
| "join sep (x # y # ys) = x @ sep @ join sep (y # ys)"

definition strip_prefix :: "string \<Rightarrow> string \<Rightarrow> string option" where
  "strip_prefix p s = (if prefix p s then Some (drop (length p) s) else None)"

definition str_contains :: "string \<Rightarrow> string \<Rightarrow> bool" where
  "str_contains pat s = (str_find pat s \<noteq> None)"

subsection \<open>Binary search\<close>

datatype ordering = Less | Equal | Greater

text \<open>
  \<^verbatim>\<open>slice::binary_search_by\<close>: the loop halves \<open>size\<close> and moves \<open>base\<close> up unless the probe is greater;
  the last probe decides. \<open>Inr i\<close> is \<^verbatim>\<open>Ok(i)\<close>, \<open>Inl i\<close> is \<^verbatim>\<open>Err(i)\<close>.
\<close>

function bs_loop :: "('a \<Rightarrow> ordering) \<Rightarrow> 'a list \<Rightarrow> nat \<Rightarrow> nat \<Rightarrow> nat" where
  "bs_loop f xs sz base =
     (if 1 < sz then
        let half = sz div 2; mid = base + half in
        bs_loop f xs (sz - half) (if f (xs ! mid) = Greater then base else mid)
      else base)"
  by pat_completeness auto
termination by (relation "measure (\<lambda>(f, xs, sz, base). sz)") auto

definition binary_search_by :: "('a \<Rightarrow> ordering) \<Rightarrow> 'a list \<Rightarrow> nat + nat" where
  "binary_search_by f xs =
     (if xs = [] then Inl 0
      else let base = bs_loop f xs (length xs) 0; c = f (xs ! base) in
        if c = Equal then Inr base else Inl (base + (if c = Less then 1 else 0)))"

section \<open>Lemmas\<close>

lemma run_bind_eq_Inr [simp]: "run_bind r f = Inr y \<longleftrightarrow> (\<exists>x. r = Inr x \<and> f x = Inr y)"
  by (cases r) auto

lemma i64_op_in [simp]: "i64_range v \<Longrightarrow> i64_op ck v = Inr v"
  by (simp add: i64_op_def)

lemma u32_op_in [simp]: "v < 2 ^ 32 \<Longrightarrow> u32_op ck v = Inr v"
  by (simp add: u32_op_def)

lemma usize_op_in [simp]: "v < 2 ^ 64 \<Longrightarrow> usize_op ck v = Inr v"
  by (simp add: usize_op_def)

lemma shift_amount_in [simp]: "i < 64 \<Longrightarrow> shift_amount ck i = Inr i"
  by (simp add: shift_amount_def)

lemma as_usize_nonneg: "0 \<le> v \<Longrightarrow> v < 2 ^ 64 \<Longrightarrow> as_usize v = nat v"
  by (simp add: as_usize_def)

subsection \<open>Printing and parsing\<close>

lemma dec_of_nat_parts: "dec_of_nat n \<noteq> []" "list_all is_digit (dec_of_nat n)" "dec_value (dec_of_nat n) = n"
  using dec_of_nat_digits dec_value_dec_of_nat by (auto simp: list_all_iff)

lemma parse_i64_dec:
  assumes "i64_range v" shows "parse_i64 (dec_of_int v) = Some v"
proof -
  obtain c cs where c: "dec_of_nat (nat v) = c # cs" by (cases "dec_of_nat (nat v)") simp_all
  then have "c \<noteq> CHR ''-''" "c \<noteq> CHR ''+''"
    using dec_of_nat_parts(2) [of "nat v"] digit_not_sign by auto
  moreover have "dec_of_nat (nat (- v)) \<noteq> []" by simp
  ultimately show ?thesis
    using assms c dec_of_nat_parts [of "nat v"] dec_of_nat_parts [of "nat (- v)"]
    by (auto simp: parse_i64_def dec_of_int_def Let_def)
qed

lemma parse_uint_dec: "n < 2 ^ w \<Longrightarrow> parse_uint w (dec_of_nat n) = Some n"
proof -
  assume n: "n < 2 ^ w"
  obtain c cs where c: "dec_of_nat n = c # cs" by (cases "dec_of_nat n") simp_all
  then have "c \<noteq> CHR ''+''" using dec_of_nat_parts(2) [of n] digit_not_sign by auto
  with n c dec_of_nat_parts [of n] show ?thesis by (auto simp: parse_uint_def Let_def)
qed

subsection \<open>Fields\<close>

lemma splitn_field:
  "c \<notin> set x \<Longrightarrow> splitn (Suc (Suc n)) c (x @ c # rest) = x # splitn (Suc n) c rest"
proof -
  assume x: "c \<notin> set x"
  then have "takeWhile (\<lambda>d. d \<noteq> c) (x @ c # rest) = x" "dropWhile (\<lambda>d. d \<noteq> c) (x @ c # rest) = c # rest"
    by (auto simp: takeWhile_append dropWhile_append)
  then show ?thesis by simp
qed

lemma length_splitn_le: "length (splitn n c s) \<le> n"
  by (induction n c s rule: splitn.induct) auto

subsection \<open>Binary search\<close>

declare bs_loop.simps [simp del]

lemma bs_loop_partition:
  assumes "\<And>i. i < length xs \<Longrightarrow> f (xs ! i) = (if i < k then Less else Greater)"
    and "0 < sz" "base + sz \<le> length xs" "base = 0 \<or> base < k" "k \<le> base + sz"
  shows "let b = bs_loop f xs sz base in b < length xs \<and> (b = 0 \<or> b < k) \<and> k \<le> b + 1"
  using assms(2-5)
proof (induction sz arbitrary: base rule: less_induct)
  case (less sz)
  show ?case
  proof (cases "1 < sz")
    case True
    let ?mid = "base + sz div 2"
    have mid: "f (xs ! ?mid) = (if ?mid < k then Less else Greater)"
      using less.prems True by (intro assms(1)) simp
    have smaller: "sz - sz div 2 < sz" "0 < sz - sz div 2" using True by simp_all
    have "let b = bs_loop f xs (sz - sz div 2) (if f (xs ! ?mid) = Greater then base else ?mid) in
        b < length xs \<and> (b = 0 \<or> b < k) \<and> k \<le> b + 1"
    proof (rule less.IH [OF smaller], goal_cases)
      case 3
      then show ?case using less.prems True by (auto simp: mid not_less)
    qed (use less.prems True in \<open>auto simp: mid\<close>)
    then show ?thesis using True by (subst bs_loop.simps) (simp add: Let_def)
  next
    case False
    with less.prems show ?thesis by (subst bs_loop.simps) (auto simp: Let_def)
  qed
qed

text \<open>On a partitioned slice the search ends at the border, and never reports a match.\<close>

lemma binary_search_partition:
  assumes "\<And>i. i < length xs \<Longrightarrow> f (xs ! i) = (if i < k then Less else Greater)" and "k \<le> length xs"
  shows "binary_search_by f xs = Inl k"
proof (cases "xs = []")
  case True
  with assms(2) show ?thesis by (simp add: binary_search_by_def)
next
  case False
  let ?b = "bs_loop f xs (length xs) 0"
  have "?b < length xs \<and> (?b = 0 \<or> ?b < k) \<and> k \<le> ?b + 1"
    using bs_loop_partition [of xs f k "length xs" 0] assms False by (simp add: Let_def)
  moreover from this have "f (xs ! ?b) = (if ?b < k then Less else Greater)" by (intro assms(1)) simp
  ultimately show ?thesis using False by (auto simp: binary_search_by_def Let_def)
qed

lemma takeWhile_partition:
  assumes "sorted_wrt R xs" and "\<And>a b. a \<in> set xs \<Longrightarrow> b \<in> set xs \<Longrightarrow> R a b \<Longrightarrow> P b \<Longrightarrow> P a" and "i < length xs"
  shows "P (xs ! i) \<longleftrightarrow> i < length (takeWhile P xs)"
proof
  assume "P (xs ! i)"
  show "i < length (takeWhile P xs)"
  proof (rule ccontr)
    let ?k = "length (takeWhile P xs)"
    assume "\<not> i < ?k"
    then have k: "?k \<le> i" by simp
    with assms(3) have "\<not> P (xs ! ?k)" by (simp add: nth_length_takeWhile)
    moreover have "?k = i \<or> R (xs ! ?k) (xs ! i)"
      using k assms(1,3) by (auto simp: sorted_wrt_iff_nth_less le_less)
    ultimately show False
      using \<open>P (xs ! i)\<close> assms(2) [of "xs ! ?k" "xs ! i"] assms(3) k by auto
  qed
next
  assume "i < length (takeWhile P xs)"
  then show "P (xs ! i)" using nth_mem set_takeWhileD takeWhile_nth by metis
qed

text \<open>A comparison that never says \<open>Equal\<close> never finds anything, on any slice.\<close>

lemma binary_search_no_match:
  assumes "\<And>x. f x \<noteq> Equal" shows "binary_search_by f xs \<noteq> Inr i"
  using assms by (auto simp: binary_search_by_def Let_def)

end
