(* ===== verification/Server_ZSet.thy ===== *)
theory Server_ZSet
  imports Rust_Prims Doubles "HOL-Library.Multiset"
begin

section \<open>Sorted sets of the server\<close>

text \<open>
  \<^verbatim>\<open>redisdb/src/zset/mod.rs\<close>. An \<^verbatim>\<open>f64\<close> is its bit pattern; comparison is that of IEEE 754 (a NaN
  compares with nothing, the two zeros are equal), read off the pattern as sign and magnitude. The
  difference in \<^verbatim>\<open>add\<close> is rounded as in \<open>Doubles\<close>.
\<close>

subsection \<open>Comparing doubles\<close>

definition f_mag :: "u64 \<Rightarrow> nat" where
  "f_mag w = unat w mod 2 ^ 63"

definition f_neg :: "u64 \<Rightarrow> bool" where
  "f_neg w = (2 ^ 63 \<le> unat w)"

definition F_INF :: nat where "F_INF = 2047 * 2 ^ 52"

definition f_nan :: "u64 \<Rightarrow> bool" where
  "f_nan w = (F_INF < f_mag w)"

definition f_key :: "u64 \<Rightarrow> int" where
  "f_key w = (if f_neg w then - int (f_mag w) else int (f_mag w))"

definition f_lt :: "u64 \<Rightarrow> u64 \<Rightarrow> bool" where
  "f_lt a b = (\<not> f_nan a \<and> \<not> f_nan b \<and> f_key a < f_key b)"

definition f_eq :: "u64 \<Rightarrow> u64 \<Rightarrow> bool" where
  "f_eq a b = (\<not> f_nan a \<and> \<not> f_nan b \<and> f_key a = f_key b)"

definition f_rat :: "u64 \<Rightarrow> rat" where
  "f_rat w =
     (let e = f_mag w div 2 ^ 52; m = f_mag w mod 2 ^ 52;
          x = (if e = 0 then of_nat m * ulp 0 else of_nat (2 ^ 52 + m) * ulp (e - 1)) in
      if f_neg w then - x else x)"

text \<open>\<^verbatim>\<open>(a - b).abs() < f64::EPSILON\<close>: false for infinities and NaN, whose difference is not small.\<close>

definition f_near :: "u64 \<Rightarrow> u64 \<Rightarrow> bool" where
  "f_near a b = (f_mag a < F_INF \<and> f_mag b < F_INF \<and> rnd \<bar>f_rat a - f_rat b\<bar> < 1 / 2 ^ 52)"

subsection \<open>The set\<close>

record zentry =
  z_name :: string
  z_score :: u64

definition zless :: "zentry \<Rightarrow> zentry \<Rightarrow> bool" where
  "zless a b = (if \<not> f_eq (z_score a) (z_score b) then f_lt (z_score a) (z_score b) else z_name a < z_name b)"

record zset =
  by_name :: "u64 umap"
  zsorted :: "zentry list"

definition new_zset :: zset where
  "new_zset = \<lparr>by_name = [], zsorted = []\<rparr>"

definition zprobe :: "zentry \<Rightarrow> zentry \<Rightarrow> ordering" where
  "zprobe key e = (if zless e key then Less else Greater)"

definition zposition :: "zentry \<Rightarrow> zset \<Rightarrow> nat" where
  "zposition key z = (case binary_search_by (zprobe key) (zsorted z) of Inl i \<Rightarrow> i | Inr i \<Rightarrow> i)"

definition zremove :: "string \<Rightarrow> zset \<Rightarrow> bool \<times> zset" where
  "zremove name z =
     (case map_of (by_name z) name of
        None \<Rightarrow> (False, z)
      | Some score \<Rightarrow>
          let z1 = z\<lparr>by_name := AList.delete name (by_name z)\<rparr>;
              key = \<lparr>z_name = name, z_score = score\<rparr> in
          (True,
           case binary_search_by (zprobe key) (zsorted z1) of
             Inl _ \<Rightarrow> z1
           | Inr i \<Rightarrow>
               if i < length (zsorted z1) \<and> z_name (zsorted z1 ! i) = name
               then z1\<lparr>zsorted := take i (zsorted z1) @ drop (i + 1) (zsorted z1)\<rparr> else z1))"

definition zinsert :: "zentry \<Rightarrow> zset \<Rightarrow> zset" where
  "zinsert e z =
     (let z1 = z\<lparr>by_name := AList.update (z_name e) (z_score e) (by_name z)\<rparr>; i = zposition e z1 in
      z1\<lparr>zsorted := take i (zsorted z1) @ e # drop i (zsorted z1)\<rparr>)"

definition zadd :: "string \<Rightarrow> u64 \<Rightarrow> zset \<Rightarrow> bool \<times> zset" where
  "zadd name score z =
     (case map_of (by_name z) name of
        Some old \<Rightarrow>
          if f_near old score then (False, z)
          else (True, zinsert \<lparr>z_name = name, z_score = score\<rparr> (snd (zremove name z)))
      | None \<Rightarrow> (True, zinsert \<lparr>z_name = name, z_score = score\<rparr> z))"

definition zscore :: "string \<Rightarrow> zset \<Rightarrow> u64 option" where
  "zscore name z = map_of (by_name z) name"

text \<open>\<^verbatim>\<open>pos.saturating_add_signed(offset as isize)\<close>.\<close>

definition saturating_add_signed :: "nat \<Rightarrow> int \<Rightarrow> nat" where
  "saturating_add_signed p d = (if int p + d < 0 then 0 else min (2 ^ 64 - 1) (nat (int p + d)))"

definition zquery :: "bool \<Rightarrow> u64 \<Rightarrow> string \<Rightarrow> int \<Rightarrow> int \<Rightarrow> zset \<Rightarrow> zentry list run" where
  "zquery checked min_score min_name offset limit z =
     (if limit \<le> 0 then Inr []
      else
        let pos = saturating_add_signed (zposition \<lparr>z_name = min_name, z_score = min_score\<rparr> z) offset in
        run_bind (usize_op checked (pos + as_usize limit)) (\<lambda>sum.
          let end_pos = min sum (length (zsorted z)) in
          Inr (if end_pos \<le> pos then [] else take (end_pos - pos) (drop pos (zsorted z)))))"

subsection \<open>Specification vocabulary\<close>

datatype zop = ZAdd string u64 | ZRem string

fun zstep :: "zop \<Rightarrow> zset \<Rightarrow> zset" where
  "zstep (ZAdd n s) z = snd (zadd n s z)"
| "zstep (ZRem n) z = snd (zremove n z)"

definition zrun :: "zop list \<Rightarrow> zset" where
  "zrun ops = fold zstep ops new_zset"

text \<open>The entries that the additions of a history put into the set, whatever was removed since.\<close>

fun zput :: "zop \<Rightarrow> zset \<Rightarrow> zentry list" where
  "zput (ZAdd n s) z = (if fst (zadd n s z) then [\<lparr>z_name = n, z_score = s\<rparr>] else [])"
| "zput (ZRem n) z = []"

fun zlog :: "zop list \<Rightarrow> zset \<Rightarrow> zentry list" where
  "zlog [] z = []"
| "zlog (x # ops) z = zput x z @ zlog ops (zstep x z)"

fun zop_ok :: "zop \<Rightarrow> bool" where
  "zop_ok (ZAdd n s) = (\<not> f_nan s)"
| "zop_ok (ZRem n) = True"

definition zle :: "zentry \<Rightarrow> zentry \<Rightarrow> bool" where
  "zle a b = (\<not> zless b a)"

definition zinv :: "zset \<Rightarrow> bool" where
  "zinv z = (sorted_wrt zle (zsorted z) \<and> (\<forall>e \<in> set (zsorted z). \<not> f_nan (z_score e)))"

section \<open>Lemmas\<close>

lemma zless_iff:
  "\<not> f_nan (z_score a) \<Longrightarrow> \<not> f_nan (z_score b) \<Longrightarrow>
   zless a b \<longleftrightarrow> f_key (z_score a) < f_key (z_score b) \<or>
     f_key (z_score a) = f_key (z_score b) \<and> z_name a < z_name b"
  by (auto simp: zless_def f_eq_def f_lt_def)

lemma zle_trans:
  assumes "\<not> f_nan (z_score a)" "\<not> f_nan (z_score b)" "\<not> f_nan (z_score c)" "zle a b" "zle b c"
  shows "zle a c"
  using assms by (auto simp: zle_def zless_iff)

lemma zle_total:
  assumes "\<not> f_nan (z_score a)" "\<not> f_nan (z_score b)" shows "zle a b \<or> zle b a"
  using assms by (auto simp: zle_def zless_iff)

lemma zposition_eq:
  assumes "zinv z" "\<not> f_nan (z_score key)"
  shows "zposition key z = length (takeWhile (\<lambda>e. zless e key) (zsorted z))"
proof -
  let ?P = "\<lambda>e. zless e key" and ?xs = "zsorted z"
  have "?P (?xs ! i) \<longleftrightarrow> i < length (takeWhile ?P ?xs)" if "i < length ?xs" for i
  proof (rule takeWhile_partition [of zle])
    fix a b
    assume "a \<in> set ?xs" "b \<in> set ?xs" "zle a b" "zless b key"
    with assms zle_trans [of key a b] show "zless a key" by (auto simp: zinv_def zle_def)
  qed (use assms that in \<open>auto simp: zinv_def\<close>)
  then have "binary_search_by (zprobe key) ?xs = Inl (length (takeWhile ?P ?xs))"
    by (intro binary_search_partition) (simp_all add: zprobe_def length_takeWhile_le)
  then show ?thesis by (simp add: zposition_def)
qed

text \<open>The search in \<open>zremove\<close> never reports a match, so the sorted list keeps the entry.\<close>

lemma zremove_keeps: "zsorted (snd (zremove n z)) = zsorted z"
  using binary_search_no_match [of "zprobe _"]
  by (auto simp: zremove_def Let_def zprobe_def split: option.splits sum.splits)

lemma zinv_zremove [inv_intros]: "zinv z \<Longrightarrow> zinv (snd (zremove n z))"
  by (simp add: zinv_def zremove_keeps)

lemma zsorted_zinsert:
  assumes "zinv z" "\<not> f_nan (z_score e)"
  shows "zsorted (zinsert e z) =
    takeWhile (\<lambda>x. zless x e) (zsorted z) @ e # dropWhile (\<lambda>x. zless x e) (zsorted z)"
proof -
  have "zposition e (z\<lparr>by_name := b\<rparr>) = length (takeWhile (\<lambda>x. zless x e) (zsorted z))" for b
    using assms zposition_eq [of "z\<lparr>by_name := b\<rparr>" e] by (simp add: zinv_def)
  then show ?thesis
    by (simp add: zinsert_def Let_def takeWhile_eq_take [symmetric] dropWhile_eq_drop [symmetric])
qed

lemma zinv_zinsert [inv_intros]:
  assumes "zinv z" "\<not> f_nan (z_score e)" shows "zinv (zinsert e z)"
proof -
  let ?P = "\<lambda>x. zless x e" and ?xs = "zsorted z"
  have srt: "sorted_wrt zle (takeWhile ?P ?xs @ dropWhile ?P ?xs)" and nn: "\<forall>x \<in> set ?xs. \<not> f_nan (z_score x)"
    using assms(1) by (simp_all add: zinv_def)
  have "zle x e" if "x \<in> set (takeWhile ?P ?xs)" for x
    using that set_takeWhileD [OF that] assms(2) nn by (auto simp: zle_def zless_iff)
  moreover have "zle e y" if y: "y \<in> set (dropWhile ?P ?xs)" for y
  proof -
    from y obtain d ds where d: "dropWhile ?P ?xs = d # ds" by (cases "dropWhile ?P ?xs") auto
    have "zle e d" using hd_dropWhile [of ?P ?xs] d by (simp add: zle_def)
    moreover have "y = d \<or> zle d y" using srt d y by (auto simp: sorted_wrt_append)
    moreover have "d \<in> set ?xs" "y \<in> set ?xs" using d y set_dropWhileD by (metis list.set_intros(1), metis)
    ultimately show ?thesis using zle_trans [of e d y] nn assms(2) by auto
  qed
  ultimately show ?thesis
    using srt nn assms(2) set_takeWhileD [of _ ?P ?xs] set_dropWhileD [of _ ?P ?xs]
    by (auto simp: zinv_def zsorted_zinsert [OF assms] sorted_wrt_append
        intro: zle_trans)
qed

lemma zadd_cases:
  "zadd n s z = (False, z) \<or>
   (\<exists>z1. zadd n s z = (True, zinsert \<lparr>z_name = n, z_score = s\<rparr> z1) \<and> zsorted z1 = zsorted z)"
  by (auto simp: zadd_def zremove_keeps split: option.splits)

lemma zstep_log:
  assumes "zinv z" "zop_ok x"
  shows "zinv (zstep x z) \<and> mset (zsorted (zstep x z)) = mset (zsorted z) + mset (zput x z)"
proof (cases x)
  case (ZAdd n s)
  show ?thesis
  proof (rule disjE [OF zadd_cases [of n s z]])
    assume "zadd n s z = (False, z)"
    with ZAdd assms show ?thesis by simp
  next
    assume "\<exists>z1. zadd n s z = (True, zinsert \<lparr>z_name = n, z_score = s\<rparr> z1) \<and> zsorted z1 = zsorted z"
    then obtain z1 where z1: "zadd n s z = (True, zinsert \<lparr>z_name = n, z_score = s\<rparr> z1)" "zsorted z1 = zsorted z"
      by blast
    have inv: "zinv z1" using assms(1) z1(2) by (simp add: zinv_def)
    have "mset (takeWhile P xs) + mset (dropWhile P xs) = mset xs" for P and xs :: "zentry list"
      by (metis mset_append takeWhile_dropWhile_id)
    with inv ZAdd z1 assms(2) zinv_zinsert [OF inv] show ?thesis
      by (simp add: zsorted_zinsert)
  qed
next
  case (ZRem n)
  with assms show ?thesis by (simp add: zremove_keeps inv_intros)
qed

lemma zrun_log:
  assumes "list_all zop_ok ops" "zinv z"
  shows "zinv (fold zstep ops z) \<and> mset (zsorted (fold zstep ops z)) = mset (zsorted z) + mset (zlog ops z)"
  using assms
proof (induction ops arbitrary: z)
  case (Cons x ops)
  with zstep_log [of z x] Cons.IH [of "zstep x z"] show ?case by (simp add: add.assoc)
qed simp

lemma zinv_new [simp]: "zinv new_zset"
  by (simp add: zinv_def new_zset_def)

lemma zquery_eq:
  assumes "zinv z" "\<not> f_nan s" "0 \<le> offset" "0 < limit" "int (length (zsorted z)) + offset + limit < 2 ^ 63"
  shows "zquery ck s n offset limit z =
    Inr (take (nat limit) (drop (nat offset) (filter (\<lambda>e. zle \<lparr>z_name = n, z_score = s\<rparr> e) (zsorted z))))"
proof -
  let ?key = "\<lparr>z_name = n, z_score = s\<rparr>"
  let ?P = "\<lambda>e. zless e ?key" and ?xs = "zsorted z"
  have dw: "dropWhile ?P ?xs = filter (\<lambda>e. zle ?key e) ?xs"
  proof -
    have "\<forall>e \<in> set (dropWhile ?P ?xs). zle ?key e"
    proof
      fix y
      assume y: "y \<in> set (dropWhile ?P ?xs)"
      then obtain d ds where d: "dropWhile ?P ?xs = d # ds" by (cases "dropWhile ?P ?xs") auto
      have "sorted_wrt zle (dropWhile ?P ?xs)"
        using assms(1) by (metis sorted_wrt_append takeWhile_dropWhile_id zinv_def)
      moreover have "zle ?key d" using hd_dropWhile [of ?P ?xs] d by (simp add: zle_def)
      moreover have "d \<in> set ?xs" "y \<in> set ?xs" using d y set_dropWhileD by (metis list.set_intros(1), metis)
      ultimately show "zle ?key y"
        using d y assms(1,2) zle_trans [of ?key d y] by (auto simp: zinv_def)
    qed
    moreover have "\<forall>e \<in> set (takeWhile ?P ?xs). \<not> zle ?key e" by (auto simp: zle_def dest: set_takeWhileD)
    ultimately have "filter (\<lambda>e. zle ?key e) (takeWhile ?P ?xs @ dropWhile ?P ?xs) = dropWhile ?P ?xs"
      by (simp only: filter_append) (simp add: filter_empty_conv)
    then show ?thesis by simp
  qed
  let ?k = "length (takeWhile ?P ?xs)"
  have k: "zposition ?key z = ?k" "?k \<le> length ?xs"
    using zposition_eq [OF assms(1), of ?key] assms(2) by (simp_all add: length_takeWhile_le)
  have pos: "saturating_add_signed ?k offset = ?k + nat offset"
    using k(2) assms(3,4,5) by (simp add: saturating_add_signed_def nat_add_distrib)
  have lim: "as_usize limit = nat limit" using assms(3,4,5) by (intro as_usize_nonneg) simp_all
  have "int (?k + nat offset + nat limit) < 2 ^ 63" using k(2) assms(3,4,5) by simp
  moreover have "int m < 2 ^ 63 \<Longrightarrow> m < 2 ^ 64" for m by simp
  ultimately have sum: "?k + nat offset + nat limit < 2 ^ 64" by blast
  have "(if min (?k + nat offset + nat limit) (length ?xs) \<le> ?k + nat offset then []
       else take (min (?k + nat offset + nat limit) (length ?xs) - (?k + nat offset)) (drop (?k + nat offset) ?xs)) =
      take (nat limit) (drop (nat offset) (dropWhile ?P ?xs))"
    using assms(4) by (auto simp: dropWhile_eq_drop add.commute min_def)
  then show ?thesis
    unfolding zquery_def Let_def k(1) pos lim usize_op_in [OF sum] run_bind.simps
    using assms(4) by (simp add: dw)
qed

section \<open>Properties\<close>

text \<open>
  C20. A sorted set never forgets. After any sequence of additions (of scores that are not NaN) and
  removals, a range query from a key returns, in order of score and name, the entries that are
  not below the key among all that were ever added, those removed or given another score
  since included; at most \<open>limit\<close> of them behind the first \<open>offset\<close>.
\<close>

theorem zset_never_forgets:
  assumes "list_all zop_ok ops" "\<not> f_nan s" "0 \<le> offset" "0 < limit"
    and "int (length (zlog ops new_zset)) + offset + limit < 2 ^ 63"
  shows "\<exists>es. mset es = mset (zlog ops new_zset) \<and> sorted_wrt zle es \<and>
    zquery ck s n offset limit (zrun ops) =
      Inr (take (nat limit) (drop (nat offset) (filter (\<lambda>e. zle \<lparr>z_name = n, z_score = s\<rparr> e) es)))"
proof -
  have r: "zinv (zrun ops)" "mset (zsorted (zrun ops)) = mset (zlog ops new_zset)"
    using zrun_log [OF assms(1), of new_zset] by (simp_all add: zrun_def) (simp add: new_zset_def)
  then have len: "length (zsorted (zrun ops)) = length (zlog ops new_zset)" by (rule_tac mset_eq_length)
  show ?thesis
    using r zquery_eq [OF r(1) assms(2-4)] assms(5) len
    by (intro exI [of _ "zsorted (zrun ops)"]) (simp add: zinv_def)
qed

theorem zset_never_forgets_witness:
  "zquery True 0 [] 0 10 (zrun [ZAdd ''a'' 0x3FF0000000000000, ZRem ''a'']) =
     Inr [\<lparr>z_name = ''a'', z_score = 0x3FF0000000000000\<rparr>] \<and>
   zscore ''a'' (zrun [ZAdd ''a'' 0x3FF0000000000000, ZRem ''a'']) = None"
proof -
  let ?ops = "[ZAdd ''a'' 0x3FF0000000000000, ZRem ''a'']" and ?e = "\<lparr>z_name = ''a'', z_score = 0x3FF0000000000000\<rparr>"
  have nan: "\<not> f_nan 0x3FF0000000000000" "\<not> f_nan 0" by (simp_all add: f_nan_def f_mag_def F_INF_def)
  have log: "zlog ?ops new_zset = [?e]" by (simp add: zadd_def new_zset_def)
  have le: "zle \<lparr>z_name = [], z_score = 0\<rparr> ?e"
    using nan by (simp add: zle_def zless_iff f_key_def f_neg_def f_mag_def)
  obtain es where es: "mset es = mset (zlog ?ops new_zset)"
    "zquery True 0 [] 0 10 (zrun ?ops) =
       Inr (take (nat 10) (drop (nat 0) (filter (\<lambda>e. zle \<lparr>z_name = [], z_score = 0\<rparr> e) es)))"
    using zset_never_forgets [of ?ops 0 0 10 True "[]"] nan log by auto
  from es(1) log have "es = [?e]" by simp
  moreover have "zscore ''a'' (zrun ?ops) = None"
    by (auto simp: zscore_def zrun_def zadd_def zremove_def zinsert_def new_zset_def Let_def
        split: sum.splits)
  ultimately show ?thesis using es(2) le by simp
qed

end
