(* ===== verification/Server_Store.thy ===== *)
theory Server_Store
  imports Server_ZSet Redis_Proto
begin

unbundle bit_operations_syntax

section \<open>The key-value store of the server\<close>

text \<open>
  \<^verbatim>\<open>redisdb/src/store/mod.rs\<close>. The \<^verbatim>\<open>HashMap\<close> is an association list with distinct keys (its order
  stands for the iteration order); the locks make every operation one step. Instants are
  nanoseconds, and the operations that look at the clock take the instant as an argument. An operation that
  can panic returns a \<open>run\<close>.
\<close>

datatype svalue = VStr string | VBytes "u8 list" | VZSet zset | VList "string list"

record sentry =
  e_typ :: svalue
  exp_at :: "nat option"

type_synonym store = "sentry umap"

definition expired :: "nat \<Rightarrow> sentry \<Rightarrow> bool" where
  "expired now e = (case exp_at e of None \<Rightarrow> False | Some t \<Rightarrow> t \<le> now)"

definition new_store :: store where "new_store = []"

text \<open>One tick of the task that \<^verbatim>\<open>new_with_expiry\<close> spawns.\<close>

definition sweep :: "nat \<Rightarrow> store \<Rightarrow> store" where
  "sweep now st = filter (\<lambda>(k, e). case exp_at e of Some t \<Rightarrow> now < t | None \<Rightarrow> True) st"

definition store_len :: "store \<Rightarrow> nat" where
  "store_len st = length st"

subsection \<open>Strings\<close>

text \<open>
  \<^verbatim>\<open>String::from_utf8_lossy\<close>: the number of bytes the decoder takes at the front of its input, and
  whether they are a character; what is not becomes U+FFFD.
\<close>

definition utf8_chunk :: "u8 list \<Rightarrow> nat \<times> bool" where
  "utf8_chunk bs =
     (let byt = (\<lambda>i. if i < length bs then unat (bs ! i) else 0);
          cont = (\<lambda>i. 128 \<le> byt i \<and> byt i \<le> 191);
          n = byt 0 in
      if n < 128 then (1, True)
      else if 194 \<le> n \<and> n \<le> 223 then (if cont 1 then (2, True) else (1, False))
      else if 224 \<le> n \<and> n \<le> 239 then
        (if \<not> cont 1 \<or> (n = 224 \<and> byt 1 < 160) \<or> (n = 237 \<and> 159 < byt 1) then (1, False)
         else if cont 2 then (3, True) else (2, False))
      else if 240 \<le> n \<and> n \<le> 244 then
        (if \<not> cont 1 \<or> (n = 240 \<and> byt 1 < 144) \<or> (n = 244 \<and> 143 < byt 1) then (1, False)
         else if \<not> cont 2 then (2, False)
         else if cont 3 then (4, True) else (3, False))
      else (1, False))"

definition REPLACEMENT :: string where
  "REPLACEMENT = [CHR 0xEF, CHR 0xBF, CHR 0xBD]"

function from_utf8_lossy :: "u8 list \<Rightarrow> string" where
  "from_utf8_lossy bs =
     (if bs = [] then []
      else case utf8_chunk bs of (n, ok) \<Rightarrow>
        (if ok then string_of_bytes (take n bs) else REPLACEMENT) @ from_utf8_lossy (drop n bs))"
  by pat_completeness auto
termination
  by (relation "measure length")
    (auto simp: utf8_chunk_def Let_def neq_Nil_conv split: if_splits)

definition get_str :: "nat \<Rightarrow> string \<Rightarrow> store \<Rightarrow> string option \<times> bool" where
  "get_str now key st =
     (case map_of st key of
        None \<Rightarrow> (None, False)
      | Some e \<Rightarrow>
          if expired now e then (None, False)
          else (case e_typ e of
                  VStr s \<Rightarrow> (Some s, False)
                | VBytes b \<Rightarrow> (Some (from_utf8_lossy b), False)
                | _ \<Rightarrow> (None, True)))"

definition set_str :: "string \<Rightarrow> string \<Rightarrow> store \<Rightarrow> store" where
  "set_str key val st = AList.update key \<lparr>e_typ = VStr val, exp_at = None\<rparr> st"

definition sdel :: "string \<Rightarrow> store \<Rightarrow> bool \<times> store" where
  "sdel key st = (map_of st key \<noteq> None, AList.delete key st)"

definition skeys :: "nat \<Rightarrow> store \<Rightarrow> string list" where
  "skeys now st = map fst (filter (\<lambda>(k, e). case exp_at e of None \<Rightarrow> True | Some t \<Rightarrow> now < t) st)"

subsection \<open>Expiry\<close>

text \<open>\<^verbatim>\<open>ms as u64\<close> makes a negative number of milliseconds a very large one.\<close>

definition expire :: "nat \<Rightarrow> string \<Rightarrow> int \<Rightarrow> store \<Rightarrow> bool \<times> store" where
  "expire now key ms st =
     (case map_of st key of
        None \<Rightarrow> (False, st)
      | Some e \<Rightarrow> (True, AList.update key (e\<lparr>exp_at := Some (now + as_usize ms * 1000000)\<rparr>) st))"

definition ttl_ms :: "nat \<Rightarrow> string \<Rightarrow> store \<Rightarrow> int" where
  "ttl_ms now key st =
     (case map_of st key of
        None \<Rightarrow> - 2
      | Some e \<Rightarrow>
          (case exp_at e of
             None \<Rightarrow> - 1
           | Some t \<Rightarrow> wrap_i64 (int ((t - now) div 1000000))))"

subsection \<open>Sorted sets\<close>

definition put_value :: "string \<Rightarrow> svalue \<Rightarrow> store \<Rightarrow> store" where
  "put_value key v st =
     (case map_of st key of
        None \<Rightarrow> AList.update key \<lparr>e_typ = v, exp_at = None\<rparr> st
      | Some e \<Rightarrow> AList.update key (e\<lparr>e_typ := v\<rparr>) st)"

definition z_add :: "string \<Rightarrow> string \<Rightarrow> u64 \<Rightarrow> store \<Rightarrow> (bool \<times> bool) \<times> store" where
  "z_add key name score st =
     (case map_option e_typ (map_of st key) of
        None \<Rightarrow> ((True, False), put_value key (VZSet (snd (zadd name score new_zset))) st)
      | Some (VZSet z) \<Rightarrow> ((fst (zadd name score z), False), put_value key (VZSet (snd (zadd name score z))) st)
      | Some _ \<Rightarrow> ((False, True), st))"

definition z_rem :: "string \<Rightarrow> string \<Rightarrow> store \<Rightarrow> (bool \<times> bool) \<times> store" where
  "z_rem key name st =
     (case map_option e_typ (map_of st key) of
        None \<Rightarrow> ((False, False), st)
      | Some (VZSet z) \<Rightarrow> ((fst (zremove name z), False), put_value key (VZSet (snd (zremove name z))) st)
      | Some _ \<Rightarrow> ((False, True), st))"

definition z_score_of :: "string \<Rightarrow> string \<Rightarrow> store \<Rightarrow> u64 option \<times> bool" where
  "z_score_of key name st =
     (case map_option e_typ (map_of st key) of
        None \<Rightarrow> (None, False)
      | Some (VZSet z) \<Rightarrow> (zscore name z, False)
      | Some _ \<Rightarrow> (None, True))"

definition z_query :: "bool \<Rightarrow> string \<Rightarrow> u64 \<Rightarrow> string \<Rightarrow> int \<Rightarrow> int \<Rightarrow> store \<Rightarrow> (zentry list \<times> bool) run" where
  "z_query checked key min_score min_name offset limit st =
     (case map_option e_typ (map_of st key) of
        None \<Rightarrow> Inr ([], False)
      | Some (VZSet z) \<Rightarrow> run_bind (zquery checked min_score min_name offset limit z) (\<lambda>es. Inr (es, False))
      | Some _ \<Rightarrow> Inr ([], True))"

subsection \<open>Lists\<close>

definition lpush :: "string \<Rightarrow> string \<Rightarrow> store \<Rightarrow> store" where
  "lpush key val st =
     (case map_option e_typ (map_of st key) of
        None \<Rightarrow> put_value key (VList [val]) st
      | Some (VList xs) \<Rightarrow> put_value key (VList (val # xs)) st
      | Some _ \<Rightarrow> st)"

definition rpop :: "string \<Rightarrow> store \<Rightarrow> string option \<times> store" where
  "rpop key st =
     (case map_option e_typ (map_of st key) of
        Some (VList xs) \<Rightarrow> if xs = [] then (None, st) else (Some (last xs), put_value key (VList (butlast xs)) st)
      | _ \<Rightarrow> (None, st))"

definition lpop :: "string \<Rightarrow> store \<Rightarrow> string option \<times> store" where
  "lpop key st =
     (case map_option e_typ (map_of st key) of
        Some (VList xs) \<Rightarrow> (case xs of [] \<Rightarrow> (None, st) | x # xs' \<Rightarrow> (Some x, put_value key (VList xs') st))
      | _ \<Rightarrow> (None, st))"

definition lpush_all :: "string \<Rightarrow> string list \<Rightarrow> store \<Rightarrow> store" where
  "lpush_all key vals st =
     (case map_option e_typ (map_of st key) of
        None \<Rightarrow> put_value key (VList vals) st
      | Some (VList xs) \<Rightarrow> put_value key (VList (foldl (\<lambda>l v. v # l) xs (rev vals))) st
      | Some _ \<Rightarrow> st)"

text \<open>The bounds of \<^verbatim>\<open>lrange\<close>: negative ones cnt from the end; \<^verbatim>\<open>stop + 1\<close> can overflow.\<close>

definition list_slice :: "bool \<Rightarrow> int \<Rightarrow> int \<Rightarrow> string list \<Rightarrow> string list run" where
  "list_slice checked start stop xs =
     (let len = int (length xs); s = as_usize (if start < 0 then max (len + start) 0 else start) in
      run_bind (if stop < 0 then Inr (max (len + stop + 1) 0)
                else run_bind (i64_op checked (stop + 1)) (\<lambda>v. Inr (min v len))) (\<lambda>e0.
        let e = as_usize e0 in
        if e \<le> s then Inr []
        else if length xs < e then Inl Index_out_of_range
        else Inr (take (e - s) (drop s xs))))"

definition lrange :: "bool \<Rightarrow> string \<Rightarrow> int \<Rightarrow> int \<Rightarrow> store \<Rightarrow> string list run" where
  "lrange checked key start stop st =
     (case map_option e_typ (map_of st key) of
        Some (VList xs) \<Rightarrow> list_slice checked start stop xs
      | _ \<Rightarrow> Inr [])"

definition lindex :: "string \<Rightarrow> int \<Rightarrow> store \<Rightarrow> string option" where
  "lindex key idx st =
     (case map_option e_typ (map_of st key) of
        Some (VList xs) \<Rightarrow>
          let i = (if idx < 0 then int (length xs) + idx else idx) in
          if 0 \<le> i \<and> nat i < length xs then Some (xs ! nat i) else None
      | _ \<Rightarrow> None)"

definition llen :: "string \<Rightarrow> store \<Rightarrow> int" where
  "llen key st =
     (case map_option e_typ (map_of st key) of
        None \<Rightarrow> 0
      | Some (VList xs) \<Rightarrow> int (length xs)
      | Some _ \<Rightarrow> - 1)"

text \<open>\<^verbatim>\<open>retain\<close> with a budget of \<open>n\<close> removals from the front.\<close>

fun retain_first :: "nat \<Rightarrow> string \<Rightarrow> string list \<Rightarrow> nat \<times> string list" where
  "retain_first n v [] = (0, [])"
| "retain_first n v (x # xs) =
     (if x = v \<and> 0 < n then (case retain_first (n - 1) v xs of (r, ys) \<Rightarrow> (r + 1, ys))
      else (case retain_first n v xs of (r, ys) \<Rightarrow> (r, x # ys)))"

text \<open>The loop from the end: \<open>i\<close> counts down, at most \<open>n\<close> elements are removed.\<close>

fun remove_last :: "nat \<Rightarrow> int \<Rightarrow> string \<Rightarrow> int \<Rightarrow> string list \<Rightarrow> int \<times> string list" where
  "remove_last 0 n v r xs = (r, xs)"
| "remove_last (Suc i) n v r xs =
     (if r < n then
        if xs ! i = v then remove_last i n v (r + 1) (take i xs @ drop (i + 1) xs)
        else remove_last i n v r xs
      else (r, xs))"

definition lrem_list :: "bool \<Rightarrow> int \<Rightarrow> string \<Rightarrow> string list \<Rightarrow> (int \<times> string list) run" where
  "lrem_list checked cnt v xs =
     (if cnt = 0 then
        let ys = filter (\<lambda>x. x \<noteq> v) xs in Inr (int (length xs) - int (length ys), ys)
      else if 0 < cnt then
        (case retain_first (nat cnt) v xs of (r, ys) \<Rightarrow> Inr (int r, ys))
      else
        run_bind (i64_op checked (- cnt)) (\<lambda>n. Inr (remove_last (length xs) (wrap_i64 (int (as_usize n))) v 0 xs)))"

definition lrem :: "bool \<Rightarrow> string \<Rightarrow> int \<Rightarrow> string \<Rightarrow> store \<Rightarrow> int run \<times> store" where
  "lrem checked key cnt val st =
     (case map_option e_typ (map_of st key) of
        Some (VList xs) \<Rightarrow>
          (case lrem_list checked cnt val xs of
             Inl p \<Rightarrow> (Inl p, st)
           | Inr (r, ys) \<Rightarrow> (Inr r, put_value key (VList ys) st))
      | _ \<Rightarrow> (Inr 0, st))"

subsection \<open>Bit fields\<close>

definition set_byte_bit :: "nat \<Rightarrow> bool \<Rightarrow> u8 \<Rightarrow> u8" where
  "set_byte_bit i on b = (if on then b OR push_bit i 1 else b AND NOT (push_bit i 1))"

definition set_bit_in :: "nat \<Rightarrow> bool \<Rightarrow> u8 list \<Rightarrow> u8 list" where
  "set_bit_in n on bs =
     (let byte = n div 8;
          bs1 = (if length bs \<le> byte then bs @ replicate (byte + 1 - length bs) 0 else bs) in
      bs1[byte := set_byte_bit (n mod 8) on (bs1 ! byte)])"

definition set_bit_key :: "string \<Rightarrow> nat \<Rightarrow> bool \<Rightarrow> store \<Rightarrow> store" where
  "set_bit_key key n on st =
     (case map_option e_typ (map_of st key) of
        None \<Rightarrow> put_value key (VBytes (set_bit_in n on (replicate (n div 8 + 1) 0))) st
      | Some (VBytes b) \<Rightarrow> put_value key (VBytes (set_bit_in n on b)) st
      | Some (VStr s) \<Rightarrow> put_value key (VBytes (set_bit_in n on (bytes_of_string s))) st
      | Some _ \<Rightarrow> st)"

definition bit_in :: "nat \<Rightarrow> u8 list \<Rightarrow> bool" where
  "bit_in n bs = (n div 8 < length bs \<and> drop_bit (n mod 8) (bs ! (n div 8)) AND 1 = 1)"

text \<open>The bytes the reading operations look at: none of an expired entry.\<close>

definition bytes_at :: "nat \<Rightarrow> string \<Rightarrow> store \<Rightarrow> u8 list option" where
  "bytes_at now key st =
     (case map_of st key of
        None \<Rightarrow> None
      | Some e \<Rightarrow>
          if expired now e then None
          else (case e_typ e of VBytes b \<Rightarrow> Some b | VStr s \<Rightarrow> Some (bytes_of_string s) | _ \<Rightarrow> None))"

definition get_bit :: "nat \<Rightarrow> string \<Rightarrow> nat \<Rightarrow> store \<Rightarrow> bool" where
  "get_bit now key n st = (case bytes_at now key st of None \<Rightarrow> False | Some bs \<Rightarrow> bit_in n bs)"

definition count_ones :: "u8 \<Rightarrow> nat" where
  "count_ones b = length (filter (\<lambda>i. bit b i) [0..<8])"

definition bitcount :: "nat \<Rightarrow> string \<Rightarrow> store \<Rightarrow> nat" where
  "bitcount now key st =
     (case bytes_at now key st of None \<Rightarrow> 0 | Some bs \<Rightarrow> sum_list (map count_ones bs))"

text \<open>The loops over \<open>0..width\<close>: the next index and how many are left.\<close>

fun bf_read :: "bool \<Rightarrow> u8 list \<Rightarrow> nat \<Rightarrow> nat \<Rightarrow> nat \<Rightarrow> u64 \<Rightarrow> u64 run" where
  "bf_read checked bs offset i 0 acc = Inr acc"
| "bf_read checked bs offset i (Suc n) acc =
     run_bind (u32_op checked (offset + i)) (\<lambda>k.
       if bit_in k bs
       then run_bind (shift_amount checked i) (\<lambda>a. bf_read checked bs offset (i + 1) n (acc OR push_bit a 1))
       else bf_read checked bs offset (i + 1) n acc)"

definition bitfield_get :: "bool \<Rightarrow> nat \<Rightarrow> string \<Rightarrow> nat \<Rightarrow> nat \<Rightarrow> store \<Rightarrow> u64 run" where
  "bitfield_get checked now key offset width st =
     (case bytes_at now key st of None \<Rightarrow> Inr 0 | Some bs \<Rightarrow> bf_read checked bs offset 0 width 0)"

fun bf_write :: "bool \<Rightarrow> string \<Rightarrow> nat \<Rightarrow> u64 \<Rightarrow> nat \<Rightarrow> nat \<Rightarrow> store \<Rightarrow> unit run \<times> store" where
  "bf_write checked key offset val i 0 st = (Inr (), st)"
| "bf_write checked key offset val i (Suc n) st =
     (case run_bind (u32_op checked (offset + i)) (\<lambda>k. run_bind (shift_amount checked i) (\<lambda>a. Inr (k, a))) of
        Inl p \<Rightarrow> (Inl p, st)
      | Inr (k, a) \<Rightarrow> bf_write checked key offset val (i + 1) n (set_bit_key key k (drop_bit a val AND 1 = 1) st))"

definition bitfield_set :: "bool \<Rightarrow> string \<Rightarrow> nat \<Rightarrow> nat \<Rightarrow> u64 \<Rightarrow> store \<Rightarrow> unit run \<times> store" where
  "bitfield_set checked key offset width val st = bf_write checked key offset val 0 width st"

subsection \<open>Specification vocabulary\<close>

text \<open>A key that holds a list or nothing, and the list.\<close>

definition list_at :: "string \<Rightarrow> store \<Rightarrow> string list" where
  "list_at key st = (case map_option e_typ (map_of st key) of Some (VList xs) \<Rightarrow> xs | _ \<Rightarrow> [])"

definition list_key :: "string \<Rightarrow> store \<Rightarrow> bool" where
  "list_key key st =
     (umap_inv st \<and> (case map_option e_typ (map_of st key) of None \<Rightarrow> True | Some (VList _) \<Rightarrow> True | _ \<Rightarrow> False))"

text \<open>A key whose bits can be written and read back.\<close>

definition bits_key :: "nat \<Rightarrow> string \<Rightarrow> store \<Rightarrow> bool" where
  "bits_key now key st =
     (case map_of st key of
        None \<Rightarrow> True
      | Some e \<Rightarrow> \<not> expired now e \<and> (case e_typ e of VBytes _ \<Rightarrow> True | VStr _ \<Rightarrow> True | _ \<Rightarrow> False))"

section \<open>Lemmas\<close>

declare from_utf8_lossy.simps [simp del]

lemma map_of_put [simp]:
  "map_of (put_value key v st) k =
     (if k = key then Some (case map_of st key of None \<Rightarrow> \<lparr>e_typ = v, exp_at = None\<rparr> | Some e \<Rightarrow> e\<lparr>e_typ := v\<rparr>)
      else map_of st k)"
  by (auto simp: put_value_def update_conv' split: option.splits)

lemma umap_inv_put [inv_intros]: "umap_inv st \<Longrightarrow> umap_inv (put_value key v st)"
  by (auto simp: put_value_def inv_intros split: option.splits)

lemma put_value_eq: "e_typ (case map_of st key of None \<Rightarrow> \<lparr>e_typ = v, exp_at = None\<rparr> | Some e \<Rightarrow> e\<lparr>e_typ := v\<rparr>) = v"
  by (simp split: option.splits)

subsection \<open>Strings and lists\<close>

interpretation ss: registry "\<lambda>st k. fst (get_str now k st)" set_str "\<lambda>k st. snd (sdel k st)" umap_inv for now
  by unfold_locales
    (auto simp: get_str_def set_str_def sdel_def expired_def update_conv' delete_conv' inv_intros)

lemma list_at_put [simp]: "list_at k (put_value key (VList xs) st) = (if k = key then xs else list_at k st)"
  by (auto simp: list_at_def split: option.splits)

lemma list_keyE:
  assumes "list_key key st"
  obtains "map_of st key = None" "list_at key st = []"
    | e where "map_of st key = Some e" "e_typ e = VList (list_at key st)"
  using assms by (auto simp: list_key_def list_at_def split: option.splits svalue.splits)

lemma lpush_list:
  assumes "list_key key st"
  shows "lpush key x st = put_value key (VList (x # list_at key st)) st"
  using assms by (rule list_keyE) (simp_all add: lpush_def)

lemma rpop_list:
  assumes "list_key key st"
  shows "rpop key st =
    (if list_at key st = [] then (None, st)
     else (Some (last (list_at key st)), put_value key (VList (butlast (list_at key st))) st))"
  using assms by (rule list_keyE) (simp_all add: rpop_def)

lemma list_key_put [inv_intros]: "list_key k st \<Longrightarrow> list_key k (put_value key (VList xs) st)"
  by (auto simp: list_key_def inv_intros split: option.splits)

interpretation lq: fifo "lpush key" "rpop key" "\<lambda>st. rev (list_at key st)" "list_key key" for key
proof unfold_locales
  fix st x
  assume k: "list_key key st"
  show "rev (list_at key (lpush key x st)) = rev (list_at key st) @ [x]" "list_key key (lpush key x st)"
    using k by (simp_all add: lpush_list inv_intros)
  show "fst (rpop key st) = (case rev (list_at key st) of [] \<Rightarrow> None | x # _ \<Rightarrow> Some x)"
    "rev (list_at key (snd (rpop key st))) = tl (rev (list_at key st))"
    using k by (cases "list_at key st" rule: rev_cases; simp add: rpop_list)+
  show "list_key key (snd (rpop key st))" using k by (simp add: rpop_list inv_intros)
qed

text \<open>The loop from the end is the removal from the front of the reversed list.\<close>

lemma retain_first_none: "retain_first 0 v xs = (0, xs)"
  by (induction xs) simp_all

lemma remove_last_rev:
  "r \<le> n \<Longrightarrow> remove_last (length ys) n v r (ys @ zs) =
     (case retain_first (nat (n - r)) v (rev ys) of (k, us) \<Rightarrow> (r + int k, rev us @ zs))"
proof (induction ys arbitrary: r zs rule: rev_induct)
  case (snoc y ys)
  show ?case
  proof (cases "r < n")
    case True
    then have "0 < nat (n - r)" "nat (n - r) - 1 = nat (n - (r + 1))" by auto
    with True snoc.IH [of "r + 1" zs] snoc.IH [of r "y # zs"] show ?thesis
      by (auto simp: nth_append split: prod.splits)
  next
    case False
    then show ?thesis using snoc.prems by (simp add: retain_first_none)
  qed
qed simp

lemma take_drop_nths: "take (e - s) (drop s xs) = nths xs {s..<e}"
proof -
  have "(+) s ` {..<e - s} = {s..<e}" by (auto simp: image_iff) (metis add_diff_inverse_nat diff_less_mono lessThan_iff not_less)
  then show ?thesis by (simp flip: nths_upt_eq_take add: nths_drop)
qed

lemma list_slice_spec:
  assumes "i64_range start" "stop < 2 ^ 63 - 1" "i64_range stop" "length xs < 2 ^ 62"
  shows "list_slice ck start stop xs =
    Inr (nths xs {i. (if start < 0 then int (length xs) + start else start) \<le> int i \<and>
                     int i \<le> (if stop < 0 then int (length xs) + stop else stop)})"
proof -
  let ?len = "int (length xs)"
  define s where "s = nat (if start < 0 then ?len + start else start)"
  define e where "e = nat (if stop < 0 then ?len + stop + 1 else min (stop + 1) ?len)"
  have len: "?len < 2 ^ 62" using assms(4) by simp
  have s: "as_usize (if start < 0 then max (?len + start) 0 else start) = s"
    unfolding s_def using assms(1) len by (subst as_usize_nonneg) (auto simp: i64_range_def)
  have e: "as_usize (if stop < 0 then max (?len + stop + 1) 0 else min (stop + 1) ?len) = e"
    unfolding e_def using assms(3) len by (subst as_usize_nonneg) (auto simp: i64_range_def)
  have op: "i64_op ck (stop + 1) = Inr (stop + 1)" using assms(2,3) by (simp add: i64_op_def i64_range_def)
  have "e \<le> length xs" unfolding e_def by auto
  moreover have "run_bind (if stop < 0 then Inr (max (?len + stop + 1) 0)
      else run_bind (i64_op ck (stop + 1)) (\<lambda>v. Inr (min v ?len))) f =
      f (if stop < 0 then max (?len + stop + 1) 0 else min (stop + 1) ?len)" for f :: "int \<Rightarrow> string list run"
    by (simp add: op)
  ultimately have "list_slice ck start stop xs = Inr (take (e - s) (drop s xs))"
    unfolding list_slice_def Let_def s by (simp only: e) auto
  also have "take (e - s) (drop s xs) = nths xs {s..<e}" by (rule take_drop_nths)
  also have "\<dots> = nths xs {i. (if start < 0 then ?len + start else start) \<le> int i \<and>
                     int i \<le> (if stop < 0 then ?len + stop else stop)}"
    unfolding nths_def by (rule arg_cong [where f = "map fst"], rule filter_cong [OF refl])
      (auto simp: s_def e_def set_zip)
  finally show ?thesis .
qed

lemma list_slice_max:
  assumes "i64_range start" "length xs < 2 ^ 62" shows "\<exists>p. list_slice ck start (2 ^ 63 - 1) xs = Inl p"
proof (cases ck)
  case True
  then show ?thesis by (simp add: list_slice_def i64_op_def i64_range_def Let_def)
next
  case False
  have "as_usize (if start < 0 then max (int (length xs) + start) 0 else start) < 2 ^ 63"
    using assms by (subst as_usize_nonneg) (auto simp: i64_range_def)
  with False assms(2) show ?thesis
    by (auto simp: list_slice_def i64_op_def i64_range_def wrap_i64_def as_usize_def Let_def min_def)
qed

subsection \<open>Bits\<close>

lemma bit_set_byte_bit: "i < 8 \<Longrightarrow> bit (set_byte_bit i on b) j = (if j = i then on else bit b j)"
  by (auto simp: set_byte_bit_def bit_simps bit_1_iff dest: bit_imp_le_length)

lemma bit_in_iff: "bit_in n bs \<longleftrightarrow> n div 8 < length bs \<and> bit (bs ! (n div 8)) (n mod 8)"
  by (simp add: bit_in_def bit_iff_and_drop_bit_eq_1)

lemma same_bit: "m div 8 = n div 8 \<Longrightarrow> m mod 8 = n mod 8 \<Longrightarrow> m = (n :: nat)"
  by (metis div_mult_mod_eq)

lemma bit_in_set: "bit_in m (set_bit_in n on bs) = (if m = n then on else bit_in m bs)"
proof -
  define bs1 where "bs1 = (if length bs \<le> n div 8 then bs @ replicate (n div 8 + 1 - length bs) 0 else bs)"
  have "bit_in m bs1 = bit_in m bs" for m
    by (auto simp: bs1_def bit_in_iff nth_append)
  moreover have "n div 8 < length bs1" by (auto simp: bs1_def)
  moreover have "set_bit_in n on bs = bs1[n div 8 := set_byte_bit (n mod 8) on (bs1 ! (n div 8))]"
    by (simp add: set_bit_in_def bs1_def Let_def)
  moreover have "bit_in m (bs1[n div 8 := set_byte_bit (n mod 8) on (bs1 ! (n div 8))]) = (if m = n then on else bit_in m bs1)"
    if n: "n div 8 < length bs1"
  proof (cases "m div 8 = n div 8")
    case True
    with n same_bit [OF True] show ?thesis by (auto simp: bit_in_iff bit_set_byte_bit)
  next
    case False
    then have "m \<noteq> n" by blast
    with False show ?thesis by (simp add: bit_in_iff)
  qed
  ultimately show ?thesis by simp
qed

lemma bit_in_zeros [simp]: "\<not> bit_in n (replicate k 0)" "\<not> bit_in n (0 # replicate k 0)"
proof -
  show zeros: "\<not> bit_in n (replicate k 0)" for k by (auto simp: bit_in_iff)
  show "\<not> bit_in n (0 # replicate k 0)" using zeros [of "Suc k"] by simp
qed

lemma get_bit_put:
  "get_bit now k m (put_value key v st) =
     (if k = key then
        (case map_of st key of Some e \<Rightarrow> expired now e | None \<Rightarrow> False) = False \<and>
        (case v of VBytes b \<Rightarrow> bit_in m b | VStr s \<Rightarrow> bit_in m (bytes_of_string s) | _ \<Rightarrow> False)
      else get_bit now k m st)"
  by (auto simp: get_bit_def bytes_at_def expired_def split: option.splits svalue.splits)

lemma set_bit_key_bits:
  assumes "bits_key now key st"
  shows "get_bit now k m (set_bit_key key n on st) = (if k = key \<and> m = n then on else get_bit now k m st)"
    and "bits_key now key (set_bit_key key n on st)"
  using assms
  by (auto simp: bits_key_def set_bit_key_def get_bit_put bit_in_set expired_def split: option.splits svalue.splits)
    (auto simp: get_bit_def bytes_at_def expired_def split: option.splits)

lemma bf_write_bits:
  assumes "bits_key now key st" "offset + i + n \<le> 2 ^ 32" "i + n \<le> 64"
  shows "fst (bf_write ck key offset val i n st) = Inr () \<and>
    bits_key now key (snd (bf_write ck key offset val i n st)) \<and>
    (\<forall>k m. get_bit now k m (snd (bf_write ck key offset val i n st)) =
       (if k = key \<and> offset + i \<le> m \<and> m < offset + i + n then bit val (m - offset) else get_bit now k m st))"
  using assms
proof (induction n arbitrary: i st)
  case (Suc n)
  let ?st = "set_bit_key key (offset + i) (drop_bit i val AND 1 = 1) st"
  have ops: "u32_op ck (offset + i) = Inr (offset + i)" "shift_amount ck i = Inr i"
    using Suc.prems by (simp_all add: u32_op_def shift_amount_def)
  have inv: "bits_key now key ?st" using set_bit_key_bits(2) [OF Suc.prems(1)] .
  have rec: "bf_write ck key offset val i (Suc n) st = bf_write ck key offset val (i + 1) n ?st"
    by (simp add: ops)
  have "offset + (i + 1) + n \<le> 2 ^ 32" "i + 1 + n \<le> 64" using Suc.prems by simp_all
  note ih = Suc.IH [OF inv this]
  have "get_bit now k m ?st = (if k = key \<and> m = offset + i then bit val i else get_bit now k m st)" for k m
    by (simp add: set_bit_key_bits(1) [OF Suc.prems(1)] bit_iff_and_drop_bit_eq_1)
  with ih show ?case unfolding rec by (auto simp: le_Suc_eq)
qed auto

lemma bf_read_bits:
  assumes "offset + i + n \<le> 2 ^ 32" "i + n \<le> 64"
  shows "\<exists>w. bf_read ck bs offset i n acc = Inr w \<and>
    (\<forall>j. bit w j \<longleftrightarrow> bit acc j \<or> i \<le> j \<and> j < i + n \<and> bit_in (offset + j) bs)"
  using assms
proof (induction n arbitrary: i acc)
  case (Suc n)
  have ops: "u32_op ck (offset + i) = Inr (offset + i)" "shift_amount ck i = Inr i"
    using Suc.prems by (simp_all add: u32_op_def shift_amount_def)
  let ?acc = "if bit_in (offset + i) bs then acc OR push_bit i 1 else acc"
  have "offset + (i + 1) + n \<le> 2 ^ 32" "i + 1 + n \<le> 64" using Suc.prems by simp_all
  from Suc.IH [OF this, of ?acc] obtain w where
    w: "bf_read ck bs offset (i + 1) n ?acc = Inr w"
    "\<And>j. bit w j \<longleftrightarrow> bit ?acc j \<or> i + 1 \<le> j \<and> j < i + 1 + n \<and> bit_in (offset + j) bs" by blast
  have "bf_read ck bs offset i (Suc n) acc = Inr w" using w(1) by (simp add: ops split: if_splits)
  moreover have "bit ?acc j \<longleftrightarrow> bit acc j \<or> j = i \<and> bit_in (offset + i) bs" for j
    using Suc.prems by (auto simp: bit_simps bit_1_iff)
  ultimately show ?case using w(2) by (intro exI [of _ w]) (auto simp: le_less Suc_le_eq simp del: bf_read.simps)
qed auto

section \<open>Properties\<close>

text \<open>
  C16. A bit field is read back as it was written. For a field of at most 64 bits inside the 32-bit
  range of positions, on a key that is free or holds text or bytes and has not expired: writing
  succeeds in both builds, reading returns the low \<open>width\<close> bits of the value, and every bit of
  every key outside the field keeps its value.
\<close>

theorem bitfield_roundtrip:
  assumes "bits_key now key st" "offset + width \<le> 2 ^ 32" "width \<le> 64" "0 < width"
  shows "\<exists>st'. bitfield_set ck key offset width val st = (Inr (), st') \<and>
    bitfield_get ck now key offset width st' = Inr (take_bit width val) \<and>
    (\<forall>k m. k \<noteq> key \<or> m < offset \<or> offset + width \<le> m \<longrightarrow> get_bit now k m st' = get_bit now k m st)"
proof -
  obtain st' where st': "bitfield_set ck key offset width val st = (Inr (), st')"
    and inv: "bits_key now key st'"
    and bits: "\<And>k m. get_bit now k m st' =
       (if k = key \<and> offset \<le> m \<and> m < offset + width then bit val (m - offset) else get_bit now k m st)"
    using bf_write_bits [OF assms(1), of offset 0 width ck val] assms(2,3)
    by (cases "bf_write ck key offset val 0 width st") (auto simp: bitfield_set_def)
  have "bitfield_get ck now key offset width st' = Inr (take_bit width val)"
  proof (cases "bytes_at now key st'")
    case None
    then have "\<not> bit val j" if "j < width" for j
      using bits [of key "offset + j"] that by (simp add: get_bit_def)
    then have "take_bit width val = 0" by (intro bit_word_eqI) (auto simp: bit_simps)
    with None show ?thesis by (simp add: bitfield_get_def)
  next
    case (Some bs)
    from bf_read_bits [of offset 0 width ck bs 0] assms(2,3) obtain w where
      w: "bf_read ck bs offset 0 width 0 = Inr w" "\<And>j. bit w j \<longleftrightarrow> j < width \<and> bit_in (offset + j) bs" by auto
    have "bit w j \<longleftrightarrow> j < width \<and> bit val j" for j
      using w(2) [of j] bits [of key "offset + j"] Some by (auto simp: get_bit_def)
    then have "w = take_bit width val" by (intro bit_word_eqI) (auto simp: bit_simps)
    with Some w(1) show ?thesis by (simp add: bitfield_get_def)
  qed
  with st' bits show ?thesis by auto
qed

theorem bitfield_roundtrip_witness:
  "\<exists>st'. bitfield_set True ''f'' 4294967288 8 511 (set_str ''f'' ''x'' []) = (Inr (), st') \<and>
    bitfield_get True 0 ''f'' 4294967288 8 st' = Inr 255 \<and> get_bit 0 ''f'' 6 st'"
proof -
  have "bits_key 0 ''f'' (set_str ''f'' ''x'' [])" by (simp add: bits_key_def set_str_def expired_def)
  from bitfield_roundtrip [OF this, of 4294967288 8 True 511] obtain st' where
    st': "bitfield_set True ''f'' 4294967288 8 511 (set_str ''f'' ''x'' []) = (Inr (), st')"
    "bitfield_get True 0 ''f'' 4294967288 8 st' = Inr (take_bit 8 511)"
    "get_bit 0 ''f'' 6 st' = get_bit 0 ''f'' 6 (set_str ''f'' ''x'' [])" by auto
  have "get_bit 0 ''f'' 6 (set_str ''f'' ''x'' [])"
    by (simp add: get_bit_def bytes_at_def set_str_def expired_def bit_in_iff bytes_of_string_def byte_of_char_def)
  with st' show ?thesis by simp
qed

text \<open>
  What \<^verbatim>\<open>lrange\<close> returns. On a list of fewer than \<open>2 ^ 62\<close> elements, and in both builds, the elements
  at the positions from \<open>start\<close> to \<open>stop\<close>, both included and negative ones counted from the end, in
  order, for every \<open>stop\<close> below the largest \<^verbatim>\<open>i64\<close>; and with the largest \<^verbatim>\<open>i64\<close> as \<open>stop\<close> it panics, whatever the
  list holds.
\<close>

theorem lrange_exact:
  assumes "map_of st key = Some e" "e_typ e = VList xs" "length xs < 2 ^ 62" "i64_range start" "i64_range stop"
  shows "(stop < 2 ^ 63 - 1 \<longrightarrow> lrange ck key start stop st =
      Inr (nths xs {i. (if start < 0 then int (length xs) + start else start) \<le> int i \<and>
                       int i \<le> (if stop < 0 then int (length xs) + stop else stop)})) \<and>
    (stop = 2 ^ 63 - 1 \<longrightarrow> (\<exists>p. lrange ck key start stop st = Inl p))"
  using assms list_slice_spec [OF assms(4) _ assms(5) assms(3)] list_slice_max [OF assms(4) assms(3)]
  by (simp add: lrange_def)

theorem lrange_exact_witness:
  "lrange True ''k'' (- 2) (- 1) (lpush ''k'' ''c'' (lpush ''k'' ''b'' (lpush ''k'' ''a'' []))) = Inr [''b'', ''a''] \<and>
   (\<exists>p. lrange False ''k'' 0 (2 ^ 63 - 1) (lpush ''k'' ''a'' []) = Inl p)"
proof
  have "map_of (lpush ''k'' ''c'' (lpush ''k'' ''b'' (lpush ''k'' ''a'' []))) ''k'' =
      Some \<lparr>e_typ = VList [''c'', ''b'', ''a''], exp_at = None\<rparr>"
    by (simp add: lpush_def)
  from lrange_exact [OF this, of "[''c'', ''b'', ''a'']" "- 2" "- 1" True]
  show "lrange True ''k'' (- 2) (- 1) (lpush ''k'' ''c'' (lpush ''k'' ''b'' (lpush ''k'' ''a'' []))) = Inr [''b'', ''a'']"
    by (simp add: i64_range_def nths_Cons)
  have "map_of (lpush ''k'' ''a'' []) ''k'' = Some \<lparr>e_typ = VList [''a''], exp_at = None\<rparr>" by (simp add: lpush_def)
  from lrange_exact [OF this, of "[''a'']" 0 "2 ^ 63 - 1" False]
  show "\<exists>p. lrange False ''k'' 0 (2 ^ 63 - 1) (lpush ''k'' ''a'' []) = Inl p" by (simp add: i64_range_def)
qed

text \<open>
  Removing from the end mirrors removing from the front: with a negative number \<^verbatim>\<open>lrem\<close> takes out of a list
  what it takes out of the reversed list with the positive number, and returns the same count,
  in both builds. The smallest \<^verbatim>\<open>i64\<close> has no positive counterpart: it is a panic with overflow
  checks, and removes nothing without them.
\<close>

theorem lrem_mirror:
  assumes "0 < cnt" "cnt \<le> 2 ^ 63"
  shows "lrem_list ck (- cnt) v xs =
    (if cnt < 2 ^ 63 then map_sum (\<lambda>p. p) (map_prod (\<lambda>r. r) rev) (lrem_list ck cnt v (rev xs))
     else if ck then Inl Overflow else Inr (0, xs))"
proof (cases "cnt < 2 ^ 63")
  case True
  then have "i64_op ck cnt = Inr cnt" "wrap_i64 (int (as_usize cnt)) = cnt"
    using assms by (simp_all add: i64_op_def i64_range_def wrap_i64_def as_usize_def)
  with True assms remove_last_rev [of 0 cnt xs v "[]"] show ?thesis
    by (simp add: lrem_list_def split: prod.splits)
next
  case False
  with assms have "cnt = 2 ^ 63" by simp
  moreover have "remove_last n (- (2 ^ 63)) v 0 xs = (0, xs)" for n by (cases n) simp_all
  ultimately show ?thesis
    by (simp add: lrem_list_def i64_op_def i64_range_def wrap_i64_def as_usize_def)
qed

theorem lrem_mirror_witness:
  "lrem_list True (- 2) ''x'' [''x'', ''a'', ''x'', ''b'', ''x''] = Inr (2, [''x'', ''a'', ''b'']) \<and>
   lrem_list False (- (2 ^ 63)) ''x'' [''x''] = Inr (0, [''x''])"
  using lrem_mirror [of 2 True "''x''" "[''x'', ''a'', ''x'', ''b'', ''x'']"] lrem_mirror [of "2 ^ 63" False "''x''" "[''x'']"]
  by (simp add: lrem_list_def eval_nat_numeral)

end
