(* ===== verification/Server_Handler.thy ===== *)
theory Server_Handler
  imports Server_Store
begin

section \<open>The commands of the server\<close>

text \<open>
  \<^verbatim>\<open>redisdb/src/handler.rs\<close>: one definition per command of \<^verbatim>\<open>dispatch\<close>, each the whole branch with its
  argument checks, composed by the table of names. What a command finds outside the store is the
  record \<open>senv\<close>: the instants it reads one after another, the wall clock (none when it is before the epoch), whether the build checks
  overflow, and the text of an \<^verbatim>\<open>f64\<close>. A command returns its response, or panics, and the store as it
  left it. The connection loop of \<^verbatim>\<open>server.rs\<close> and the counters of \<^verbatim>\<open>stats.rs\<close> follow.
\<close>

record senv =
  clk :: "nat \<Rightarrow> nat"
  wall_ms :: "nat option"
  checked :: bool
  f_parse :: "string \<Rightarrow> u64 option"
  f_show :: "u64 \<Rightarrow> string"
  f_of_ms :: "nat \<Rightarrow> u64"

record auth_config =
  password :: "string option"
  tls_cert :: "string option"
  tls_key :: "string option"

definition new_auth_config :: auth_config where
  "new_auth_config = \<lparr>password = None, tls_cert = None, tls_key = None\<rparr>"

type_synonym answer = "sresponse run \<times> store"
type_synonym scommand = "senv \<Rightarrow> string list \<Rightarrow> store \<Rightarrow> answer"

definition ERR_UNKNOWN :: i32 where "ERR_UNKNOWN = 1"
definition ERR_TYPE :: i32 where "ERR_TYPE = 3"
definition ERR_ARG :: i32 where "ERR_ARG = 4"

definition err_arg :: sresponse where "err_arg = SErr ERR_ARG ''wrong number of arguments''"
definition err_arg_msg :: "string \<Rightarrow> sresponse" where "err_arg_msg m = SErr ERR_ARG m"
definition err_type :: "string \<Rightarrow> sresponse" where "err_type m = SErr ERR_TYPE m"
definition err_unknown :: "string \<Rightarrow> sresponse" where "err_unknown m = SErr ERR_UNKNOWN m"

definition reply :: "sresponse \<Rightarrow> store \<Rightarrow> answer" where
  "reply r st = (Inr r, st)"

definition reply_int :: "int \<Rightarrow> store \<Rightarrow> answer" where
  "reply_int v st = reply (SInt (of_int v)) st"

definition str_or_nil :: "string option \<Rightarrow> sresponse" where
  "str_or_nil v = (case v of Some s \<Rightarrow> SStr s | None \<Rightarrow> SNil)"

text \<open>A read-only step that may panic, and its response.\<close>

definition reply_run :: "'a run \<Rightarrow> ('a \<Rightarrow> sresponse) \<Rightarrow> store \<Rightarrow> answer" where
  "reply_run r f st = (case r of Inl p \<Rightarrow> (Inl p, st) | Inr x \<Rightarrow> (Inr (f x), st))"

subsection \<open>Keys and strings\<close>

definition do_keys :: scommand where
  "do_keys env args st =
     (if length args \<noteq> 1 then reply err_arg st else reply (SArr (map SStr (skeys (clk env 0) st))) st)"

definition do_get :: scommand where
  "do_get env args st =
     (if length args \<noteq> 2 then reply err_arg st
      else case get_str (clk env 0) (args ! 1) st of (v, wrong_type) \<Rightarrow>
        if wrong_type then reply (err_type ''expect string type'') st else reply (str_or_nil v) st)"

definition do_set :: scommand where
  "do_set env args st =
     (if length args \<noteq> 3 then reply err_arg st else reply SNil (set_str (args ! 1) (args ! 2) st))"

definition do_del :: scommand where
  "do_del env args st =
     (if length args \<noteq> 2 then reply err_arg st
      else case sdel (args ! 1) st of (ok, st') \<Rightarrow> reply_int (if ok then 1 else 0) st')"

definition do_pexpire :: scommand where
  "do_pexpire env args st =
     (if length args \<noteq> 3 then reply err_arg st
      else case parse_i64 (args ! 2) of
        None \<Rightarrow> reply (err_arg_msg ''expect int64'') st
      | Some ms \<Rightarrow> (case expire (clk env 0) (args ! 1) ms st of (ok, st') \<Rightarrow> reply_int (if ok then 1 else 0) st'))"

definition do_pttl :: scommand where
  "do_pttl env args st =
     (if length args \<noteq> 2 then reply err_arg st else reply_int (ttl_ms (clk env 0) (args ! 1) st) st)"

subsection \<open>Sorted sets\<close>

definition do_zadd :: scommand where
  "do_zadd env args st =
     (if length args \<noteq> 4 then reply err_arg st
      else case f_parse env (args ! 2) of
        None \<Rightarrow> reply (err_arg_msg ''expect fp number'') st
      | Some score \<Rightarrow>
          (case z_add (args ! 1) (args ! 3) score st of ((added, wrong_type), st') \<Rightarrow>
             if wrong_type then reply (err_type ''expect zset'') st' else reply_int (if added then 1 else 0) st'))"

definition do_zrem :: scommand where
  "do_zrem env args st =
     (if length args \<noteq> 3 then reply err_arg st
      else case z_rem (args ! 1) (args ! 2) st of ((removed, wrong_type), st') \<Rightarrow>
        if wrong_type then reply (err_type ''expect zset'') st' else reply_int (if removed then 1 else 0) st')"

definition do_zscore :: scommand where
  "do_zscore env args st =
     (if length args \<noteq> 3 then reply err_arg st
      else case z_score_of (args ! 1) (args ! 2) st of (score, wrong_type) \<Rightarrow>
        if wrong_type then reply (err_type ''expect zset'') st
        else reply (case score of Some v \<Rightarrow> SDbl v | None \<Rightarrow> SNil) st)"

definition do_zquery :: scommand where
  "do_zquery env args st =
     (if length args \<noteq> 6 then reply err_arg st
      else case f_parse env (args ! 2) of
        None \<Rightarrow> reply (err_arg_msg ''expect fp number'') st
      | Some score \<Rightarrow>
          (case parse_i64 (args ! 4) of
             None \<Rightarrow> reply (err_arg_msg ''expect int'') st
           | Some offset \<Rightarrow>
               (case parse_i64 (args ! 5) of
                  None \<Rightarrow> reply (err_arg_msg ''expect int'') st
                | Some limit \<Rightarrow>
                    reply_run (z_query (checked env) (args ! 1) score (args ! 3) offset limit st)
                      (\<lambda>(entries, wrong_type).
                         if wrong_type then err_type ''expect zset''
                         else SArr (concat (map (\<lambda>e. [SStr (z_name e), SDbl (z_score e)]) entries))) st)))"

subsection \<open>Lists\<close>

text \<open>The branches of \<^verbatim>\<open>lpush\<close> and \<^verbatim>\<open>rpush\<close> are the same.\<close>

definition do_lpush :: scommand where
  "do_lpush env args st =
     (if length args \<noteq> 3 then reply err_arg st else reply_int 1 (lpush (args ! 1) (args ! 2) st))"

definition do_rpush :: scommand where
  "do_rpush env args st =
     (if length args \<noteq> 3 then reply err_arg st else reply_int 1 (lpush (args ! 1) (args ! 2) st))"

definition do_lpop :: scommand where
  "do_lpop env args st =
     (if length args \<noteq> 2 then reply err_arg st
      else case lpop (args ! 1) st of (v, st') \<Rightarrow> reply (str_or_nil v) st')"

definition do_rpop :: scommand where
  "do_rpop env args st =
     (if length args \<noteq> 2 then reply err_arg st
      else case rpop (args ! 1) st of (v, st') \<Rightarrow> reply (str_or_nil v) st')"

definition do_lrange :: scommand where
  "do_lrange env args st =
     (if length args \<noteq> 4 then reply err_arg st
      else case parse_i64 (args ! 2) of
        None \<Rightarrow> reply (err_arg_msg ''expect int'') st
      | Some start \<Rightarrow>
          (case parse_i64 (args ! 3) of
             None \<Rightarrow> reply (err_arg_msg ''expect int'') st
           | Some stop \<Rightarrow> reply_run (lrange (checked env) (args ! 1) start stop st) (\<lambda>vals. SArr (map SStr vals)) st))"

definition do_lindex :: scommand where
  "do_lindex env args st =
     (if length args \<noteq> 3 then reply err_arg st
      else case parse_i64 (args ! 2) of
        None \<Rightarrow> reply (err_arg_msg ''expect int'') st
      | Some idx \<Rightarrow> reply (str_or_nil (lindex (args ! 1) idx st)) st)"

definition do_llen :: scommand where
  "do_llen env args st =
     (if length args \<noteq> 2 then reply err_arg st else reply_int (llen (args ! 1) st) st)"

definition do_lrem :: scommand where
  "do_lrem env args st =
     (if length args \<noteq> 4 then reply err_arg st
      else case parse_i64 (args ! 2) of
        None \<Rightarrow> reply (err_arg_msg ''expect int'') st
      | Some cnt \<Rightarrow>
          (case lrem (checked env) (args ! 1) cnt (args ! 3) st of
             (Inl p, st') \<Rightarrow> (Inl p, st')
           | (Inr removed, st') \<Rightarrow> reply_int removed st'))"

subsection \<open>Bit fields\<close>

definition do_setbit :: "bool \<Rightarrow> scommand" where
  "do_setbit on env args st =
     (if length args \<noteq> 3 then reply err_arg st
      else case parse_uint 32 (args ! 2) of
        None \<Rightarrow> reply (err_arg_msg ''expect uint'') st
      | Some n \<Rightarrow> reply_int 1 (set_bit_key (args ! 1) n on st))"

definition do_getbit :: scommand where
  "do_getbit env args st =
     (if length args \<noteq> 3 then reply err_arg st
      else case parse_uint 32 (args ! 2) of
        None \<Rightarrow> reply (err_arg_msg ''expect uint'') st
      | Some n \<Rightarrow> reply_int (if get_bit (clk env 0) (args ! 1) n st then 1 else 0) st)"

definition do_bitcount :: scommand where
  "do_bitcount env args st =
     (if length args \<noteq> 2 then reply err_arg st
      else reply_int (int (bitcount (clk env 0) (args ! 1) st)) st)"

definition do_bfget :: scommand where
  "do_bfget env args st =
     (if length args \<noteq> 4 then reply err_arg st
      else case (parse_uint 32 (args ! 2), parse_uint 32 (args ! 3)) of
        (Some offset, Some width) \<Rightarrow>
          reply_run (bitfield_get (checked env) (clk env 0) (args ! 1) offset width st) SInt st
      | _ \<Rightarrow> reply (err_arg_msg ''expect uint'') st)"

definition do_bfset :: scommand where
  "do_bfset env args st =
     (if length args \<noteq> 5 then reply err_arg st
      else case (parse_uint 32 (args ! 2), parse_uint 32 (args ! 3), parse_uint 64 (args ! 4)) of
        (Some offset, Some width, Some val) \<Rightarrow>
          (case bitfield_set (checked env) (args ! 1) offset width (of_nat val) st of
             (Inl p, st') \<Rightarrow> (Inl p, st')
           | (Inr _, st') \<Rightarrow> reply_int 1 st')
      | _ \<Rightarrow> reply (err_arg_msg ''expect uint'') st)"

subsection \<open>Jobs\<close>

definition QUEUE :: string where "QUEUE = ''devops:queue''"
definition RESULTS :: string where "RESULTS = ''devops:results''"

definition job_key :: "string \<Rightarrow> string" where "job_key i = ''devops:job:'' @ i"
definition status_key :: "string \<Rightarrow> string" where "status_key i = ''devops:job:'' @ i @ '':status''"
definition result_key :: "string \<Rightarrow> string" where "result_key i = ''devops:job:'' @ i @ '':result''"
definition log_key :: "string \<Rightarrow> string" where "log_key i = ''devops:job:'' @ i @ '':log''"

definition job_payload :: "string \<Rightarrow> string \<Rightarrow> string \<Rightarrow> string \<Rightarrow> string list \<Rightarrow> string" where
  "job_payload i name target command job_args =
     i @ ''|'' @ name @ ''|'' @ target @ ''|'' @ command @ ''|'' @ join '','' job_args"

definition job_submit :: scommand where
  "job_submit env args st =
     (if length args < 5 then reply (err_arg_msg ''JOB SUBMIT <id> <name> <target> <command> [args...]'') st
      else
        let payload = job_payload (args ! 1) (args ! 2) (args ! 3) (args ! 4) (drop 5 args);
            st1 = lpush QUEUE payload st;
            st2 = set_str (job_key (args ! 1)) payload st1;
            st3 = set_str (status_key (args ! 1)) ''queued'' st2 in
        reply (SStr (args ! 1)) st3)"

definition job_next :: scommand where
  "job_next env args st =
     (case rpop QUEUE st of
        (None, st1) \<Rightarrow> reply SNil st1
      | (Some payload, st1) \<Rightarrow>
          let parts = splitn 5 (CHR ''|'') payload in
          if length parts < 5 then reply (err_unknown ''malformed job payload'') st1
          else reply (SArr (map SStr parts)) (set_str (status_key (parts ! 0)) ''running'' st1))"

definition job_status :: scommand where
  "job_status env args st =
     (if length args \<noteq> 2 then reply err_arg st
      else reply (str_or_nil (fst (get_str (clk env 0) (status_key (args ! 1)) st))) st)"

definition verdict :: "int \<Rightarrow> string" where
  "verdict exit_code = (if exit_code = 0 then ''passed'' else ''failed'')"

definition result_text :: "int \<Rightarrow> int \<Rightarrow> string" where
  "result_text exit_code duration_ms = ''exit_code='' @ dec_of_int exit_code @ '',duration_ms='' @ dec_of_int duration_ms"

definition result_entry :: "string \<Rightarrow> int \<Rightarrow> int \<Rightarrow> string" where
  "result_entry i exit_code duration_ms = i @ ''|'' @ verdict exit_code @ ''|'' @ dec_of_int duration_ms"

definition job_result :: scommand where
  "job_result env args st =
     (if length args \<noteq> 4 then reply err_arg st
      else case (parse_i64 (args ! 2), parse_i64 (args ! 3)) of
        (Some exit_code, Some duration_ms) \<Rightarrow>
          let st1 = set_str (status_key (args ! 1)) (verdict exit_code) st;
              st2 = set_str (result_key (args ! 1)) (result_text exit_code duration_ms) st1;
              st3 = lpush RESULTS (result_entry (args ! 1) exit_code duration_ms) st2 in
          reply (SStr (verdict exit_code)) st3
      | _ \<Rightarrow> reply (err_arg_msg ''expect int'') st)"

text \<open>The list is read, deleted and pushed again, one element after another.\<close>

definition job_log :: scommand where
  "job_log env args st =
     (if length args < 3 then reply err_arg st
      else
        let line = join '' '' (drop 2 args); key = log_key (args ! 1) in
        case lrange (checked env) key 0 (- 1) st of
          Inl p \<Rightarrow> (Inl p, st)
        | Inr vals \<Rightarrow> reply_int 1 (fold (lpush key) (vals @ [line]) (snd (sdel key st))))"

fun job_list_loop :: "(nat \<Rightarrow> nat) \<Rightarrow> nat \<Rightarrow> string option \<Rightarrow> string list \<Rightarrow> store \<Rightarrow> string list" where
  "job_list_loop c n flt [] st = []"
| "job_list_loop c n flt (k # ks) st =
     (case strip_prefix ''devops:job:'' k of
        None \<Rightarrow> job_list_loop c n flt ks st
      | Some i \<Rightarrow>
          if suffix '':status'' i \<or> suffix '':result'' i \<or> suffix '':log'' i then job_list_loop c n flt ks st
          else (case fst (get_str (c n) (status_key i) st) of
                  None \<Rightarrow> []
                | Some status \<Rightarrow>
                    if (case flt of None \<Rightarrow> True | Some f \<Rightarrow> f = status) then [i @ '':'' @ status] else [])
               @ job_list_loop c (n + 1) flt ks st)"

definition job_list :: scommand where
  "job_list env args st =
     reply (SArr (map SStr (job_list_loop (clk env) 1 (if 2 \<le> length args then Some (args ! 1) else None)
       (skeys (clk env 0) st) st))) st"

subsection \<open>Metrics\<close>

definition METRICS :: string where "METRICS = ''devops:metrics''"

definition metric_record :: scommand where
  "metric_record env args st =
     (if length args < 3 then reply err_arg st
      else case f_parse env (args ! 2) of
        None \<Rightarrow> reply (err_arg_msg ''expect float'') st
      | Some value \<Rightarrow>
          (case wall_ms env of
             None \<Rightarrow> (Inl Unwrap_failed, st)
           | Some ts \<Rightarrow>
               let e = dec_of_nat ts @ ''|'' @ args ! 1 @ ''|'' @ f_show env value @ ''|'' @ join '','' (drop 3 args);
                   st1 = lpush METRICS e st in
               reply_int 1 (snd (z_add (METRICS @ '':ts'') e (f_of_ms env ts) st1))))"

definition metric_query :: scommand where
  "metric_query env args st =
     (if length args < 2 then reply err_arg st
      else
        let limit = (if 3 \<le> length args then case parse_i64 (args ! 2) of Some v \<Rightarrow> v | None \<Rightarrow> 100 else 100) in
        reply_run (run_bind (i64_op (checked env) (limit - 1)) (\<lambda>stop. lrange (checked env) METRICS 0 stop st))
          (\<lambda>vals. SArr (map SStr (filter (str_contains (''|'' @ args ! 1 @ ''|'')) vals))) st)"

fun count_jobs :: "(nat \<Rightarrow> nat) \<Rightarrow> nat \<Rightarrow> string list \<Rightarrow> store \<Rightarrow> nat \<times> nat \<times> nat \<Rightarrow> nat \<times> nat \<times> nat" where
  "count_jobs c n [] st acc = acc"
| "count_jobs c n (k # ks) st (passed, failed, queued) =
     (case strip_prefix ''devops:job:'' k of
        None \<Rightarrow> count_jobs c n ks st (passed, failed, queued)
      | Some i \<Rightarrow>
          let s = fst (get_str (c n) (status_key i) st) in
          count_jobs c (n + 1) ks st
            (if s = Some ''passed'' then (passed + 1, failed, queued)
             else if s = Some ''failed'' then (passed, failed + 1, queued)
             else if s = Some ''queued'' \<or> s = Some ''running'' then (passed, failed, queued + 1)
             else (passed, failed, queued)))"

definition metric_summary :: scommand where
  "metric_summary env args st =
     (case lrange (checked env) METRICS 0 (- 1) st of
        Inl p \<Rightarrow> (Inl p, st)
      | Inr vals \<Rightarrow>
          let job_keys = filter (\<lambda>k. prefix ''devops:job:'' k \<and> \<not> str_contains '':'' k) (skeys (clk env 0) st) in
          case count_jobs (clk env) 1 job_keys st (0, 0, 0) of (passed, failed, queued) \<Rightarrow>
            reply (SStr (''metrics='' @ dec_of_nat (length vals) @ '',jobs='' @ dec_of_nat (length job_keys) @
              '',passed='' @ dec_of_nat passed @ '',failed='' @ dec_of_nat failed @ '',queued='' @ dec_of_nat queued @
              '',queue_depth='' @ dec_of_int (llen QUEUE st))) st)"

subsection \<open>Sandboxes\<close>

definition sandbox_key :: "string \<Rightarrow> string" where "sandbox_key i = ''devops:sandbox:'' @ i"
definition sandbox_status_key :: "string \<Rightarrow> string" where "sandbox_status_key i = ''devops:sandbox:'' @ i @ '':status''"
definition sandbox_job_key :: "string \<Rightarrow> string" where "sandbox_job_key i = ''devops:sandbox:'' @ i @ '':job''"

definition sandbox_status :: scommand where
  "sandbox_status env args st =
     reply (SArr (map SStr (List.map_filter (strip_prefix ''devops:sandbox:'')
       (filter (prefix ''devops:sandbox:'') (skeys (clk env 0) st))))) st"

definition sandbox_register :: scommand where
  "sandbox_register env args st =
     (if length args \<noteq> 4 then reply err_arg st
      else
        let st1 = set_str (sandbox_key (args ! 1)) (args ! 2 @ ''|'' @ args ! 3) st;
            st2 = set_str (sandbox_status_key (args ! 1)) ''idle'' st1 in
        reply (SStr (args ! 1)) st2)"

definition sandbox_claim :: scommand where
  "sandbox_claim env args st =
     (if length args \<noteq> 3 then reply err_arg st
      else
        let st1 = set_str (sandbox_status_key (args ! 1)) ''busy'' st;
            st2 = set_str (sandbox_job_key (args ! 1)) (args ! 2) st1 in
        reply_int 1 st2)"

definition sandbox_release :: scommand where
  "sandbox_release env args st =
     (if length args \<noteq> 2 then reply err_arg st
      else
        let st1 = set_str (sandbox_status_key (args ! 1)) ''idle'' st in
        reply_int 1 (snd (sdel (sandbox_job_key (args ! 1)) st1)))"

subsection \<open>Time series\<close>

definition ts_key :: "string \<Rightarrow> string" where "ts_key name = ''ts:'' @ name"

text \<open>The labels go through a \<^verbatim>\<open>HashMap\<close>: a later value replaces an earlier one; the order is the map's.\<close>

definition ts_labels :: "string list \<Rightarrow> string umap" where
  "ts_labels ls = fold (\<lambda>l m. case split_once (CHR ''='') l of Some (k, v) \<Rightarrow> AList.update k v m | None \<Rightarrow> m) ls []"

definition ts_add :: scommand where
  "ts_add env args st =
     (if length args < 4 then reply (err_arg_msg ''TS.ADD <series> <timestamp_ms> <value> [label1=val1 ...]'') st
      else case parse_uint 64 (args ! 2) of
        None \<Rightarrow> reply (err_arg_msg ''expect uint64 timestamp'') st
      | Some ts \<Rightarrow>
          (case f_parse env (args ! 3) of
             None \<Rightarrow> reply (err_arg_msg ''expect float value'') st
           | Some val \<Rightarrow>
               let labels = map (\<lambda>(k, v). k @ ''='' @ v) (ts_labels (drop 4 args));
                   e = dec_of_nat ts @ ''|'' @ args ! 1 @ ''|'' @ f_show env val @ ''|'' @ join '','' labels;
                   st1 = lpush (ts_key (args ! 1)) e st;
                   st2 = set_str (''ts:meta:'' @ args ! 1 @ '':last'') (f_show env val) st1;
                   st3 = set_str (''ts:meta:'' @ args ! 1 @ '':count'') (dec_of_int (llen (ts_key (args ! 1)) st2)) st2 in
               reply_int 1 st3))"

definition ts_in_range :: "nat \<Rightarrow> nat \<Rightarrow> string \<Rightarrow> bool" where
  "ts_in_range start stop v =
     (let parts = splitn 4 (CHR ''|'') v in
      3 \<le> length parts \<and> (case parse_uint 64 (parts ! 0) of None \<Rightarrow> False | Some ts \<Rightarrow> start \<le> ts \<and> ts \<le> stop))"

definition ts_range :: scommand where
  "ts_range env args st =
     (if length args < 4 then reply (err_arg_msg ''TS.RANGE <series> <start_ms> <end_ms> [limit]'') st
      else case (parse_uint 64 (args ! 2), parse_uint 64 (args ! 3)) of
        (Some start, Some stop) \<Rightarrow>
          let limit = (if 5 \<le> length args then case parse_i64 (args ! 4) of Some v \<Rightarrow> v | None \<Rightarrow> 1000 else 1000) in
          reply_run (run_bind (i64_op (checked env) (limit - 1)) (\<lambda>e. lrange (checked env) (ts_key (args ! 1)) 0 e st))
            (\<lambda>vals. SArr (map SStr (filter (ts_in_range start stop) vals))) st
      | _ \<Rightarrow> reply (err_arg_msg ''expect uint64 timestamp'') st)"

definition ts_info :: scommand where
  "ts_info env args st =
     (if length args \<noteq> 2 then reply err_arg st
      else
        let last_value = (case fst (get_str (clk env 0) (''ts:meta:'' @ args ! 1 @ '':last'') st) of Some v \<Rightarrow> v | None \<Rightarrow> []) in
        reply (SStr (''name='' @ args ! 1 @ '',points='' @ dec_of_int (llen (ts_key (args ! 1)) st) @
          '',last_value='' @ last_value)) st)"

definition ts_list :: scommand where
  "ts_list env args st =
     reply (SArr (map (\<lambda>k. SStr (drop 3 k))
       (filter (\<lambda>k. prefix ''ts:'' k \<and> \<not> prefix ''ts:meta:'' k) (skeys (clk env 0) st)))) st"

subsection \<open>Dispatch\<close>

definition commands :: "(string \<times> scommand) list" where
  "commands =
     [(''keys'', do_keys), (''get'', do_get), (''set'', do_set), (''del'', do_del), (''pexpire'', do_pexpire), (''pttl'', do_pttl),
      (''zadd'', do_zadd), (''zrem'', do_zrem), (''zscore'', do_zscore), (''zquery'', do_zquery),
      (''lpush'', do_lpush), (''rpush'', do_rpush), (''lpop'', do_lpop), (''rpop'', do_rpop), (''lrange'', do_lrange),
      (''lindex'', do_lindex), (''llen'', do_llen), (''lrem'', do_lrem),
      (''setbit'', do_setbit True), (''clearbit'', do_setbit False), (''getbit'', do_getbit), (''bitcount'', do_bitcount),
      (''bfget'', do_bfget), (''bfset'', do_bfset),
      (''job submit'', job_submit), (''job next'', job_next), (''job status'', job_status), (''job result'', job_result),
      (''job log'', job_log), (''job list'', job_list),
      (''metric record'', metric_record), (''metric query'', metric_query), (''metric summary'', metric_summary),
      (''sandbox status'', sandbox_status), (''sandbox register'', sandbox_register),
      (''sandbox claim'', sandbox_claim), (''sandbox release'', sandbox_release),
      (''ts.add'', ts_add), (''ts.range'', ts_range), (''ts.info'', ts_info), (''ts.list'', ts_list)]"

definition do_auth :: "string list \<Rightarrow> auth_config \<Rightarrow> sresponse" where
  "do_auth args au =
     (if length args \<noteq> 2 then err_arg
      else case password au of
        Some pw \<Rightarrow> if pw = args ! 1 then SStr ''OK'' else err_type ''invalid password''
      | None \<Rightarrow> SStr ''OK'')"

definition do_config :: "string list \<Rightarrow> auth_config \<Rightarrow> sresponse \<times> auth_config" where
  "do_config args au =
     (if length args < 3 then (err_arg, au)
      else
        let sub = to_lowercase (args ! 1); key = to_lowercase (args ! 2) in
        if sub = ''set'' then
          if length args \<noteq> 4 then (err_arg, au)
          else if key = ''tls-cert'' then (SStr ''OK'', au\<lparr>tls_cert := Some (args ! 3)\<rparr>)
          else if key = ''tls-key'' then (SStr ''OK'', au\<lparr>tls_key := Some (args ! 3)\<rparr>)
          else (err_unknown ''unknown config key'', au)
        else if sub = ''get'' then
          if key = ''tls-cert'' then (SStr (case tls_cert au of Some v \<Rightarrow> v | None \<Rightarrow> []), au)
          else if key = ''tls-key'' then (SStr (case tls_key au of Some v \<Rightarrow> v | None \<Rightarrow> []), au)
          else (err_unknown ''unknown config key'', au)
        else (err_unknown ''unknown config command'', au))"

record server =
  db :: store
  auth :: auth_config

definition respond :: "senv \<Rightarrow> string list \<Rightarrow> server \<Rightarrow> sresponse run \<times> server" where
  "respond env args srv =
     (if args = [] then (Inr (err_unknown ''empty command''), srv)
      else
        let cmd = to_lowercase (args ! 0) in
        if cmd = ''auth'' then (Inr (do_auth args (auth srv)), srv)
        else if cmd = ''config'' then
          (case do_config args (auth srv) of (r, au) \<Rightarrow> (Inr r, srv\<lparr>auth := au\<rparr>))
        else (case map_of commands cmd of
                None \<Rightarrow> (Inr (err_unknown ''unknown command''), srv)
              | Some f \<Rightarrow> (case f env args (db srv) of (r, st) \<Rightarrow> (r, srv\<lparr>db := st\<rparr>))))"

definition dispatch :: "senv \<Rightarrow> string list \<Rightarrow> server \<Rightarrow> u8 list run \<times> server" where
  "dispatch env args srv = (case respond env args srv of (r, srv') \<Rightarrow> (map_sum id encode r, srv'))"

subsection \<open>Connections\<close>

record stats =
  total_connections :: u64
  active_connections :: i64
  total_commands :: u64
  last_cmds :: "string list"

definition new_stats :: stats where
  "new_stats = \<lparr>total_connections = 0, active_connections = 0, total_commands = 0, last_cmds = []\<rparr>"

definition inc_conn :: "stats \<Rightarrow> stats" where
  "inc_conn s = s\<lparr>total_connections := total_connections s + 1, active_connections := active_connections s + 1\<rparr>"

definition dec_conn :: "stats \<Rightarrow> stats" where
  "dec_conn s = s\<lparr>active_connections := active_connections s - 1\<rparr>"

definition inc_cmd :: "string \<Rightarrow> stats \<Rightarrow> stats" where
  "inc_cmd cmd s =
     s\<lparr>total_commands := total_commands s + 1,
       last_cmds := (if 64 \<le> length (last_cmds s) then tl (last_cmds s) else last_cmds s) @ [cmd]\<rparr>"

text \<open>How the loop of \<^verbatim>\<open>handle_conn\<close> leaves a turn.\<close>

datatype conn = Open | Closed | Panicked panic

text \<open>
  One turn of \<^verbatim>\<open>handle_conn\<close> on the bytes that have arrived (a peer that sends nothing more, or too
  little before the timeout, ends the connection): what is written back, what is left to read.
\<close>

definition conn_turn ::
  "senv \<Rightarrow> u8 list \<Rightarrow> server \<Rightarrow> stats \<Rightarrow> conn \<times> u8 list \<times> u8 list \<times> server \<times> stats" where
  "conn_turn env stream srv s =
     (case read_request stream of
        Inl _ \<Rightarrow> (Closed, [], stream, srv, s)
      | Inr (args, rest) \<Rightarrow>
          let s1 = inc_cmd (case args of [] \<Rightarrow> [] | a # _ \<Rightarrow> a) s in
          case dispatch env args srv of
            (Inl p, srv') \<Rightarrow> (Panicked p, [], rest, srv', s1)
          | (Inr payload, srv') \<Rightarrow> (Open, write_response payload, rest, srv', s1))"

subsection \<open>Specification vocabulary\<close>

text \<open>Requests one after another, each at its own time; a panic ends only its own request.\<close>

fun serve :: "(senv \<times> string list) list \<Rightarrow> server \<Rightarrow> sresponse run list \<times> server" where
  "serve [] srv = ([], srv)"
| "serve ((env, args) # rs) srv =
     (case respond env args srv of (r, srv1) \<Rightarrow> (case serve rs srv1 of (out, srv2) \<Rightarrow> (r # out, srv2)))"

record sjob =
  sj_id :: string
  sj_name :: string
  sj_target :: string
  sj_command :: string
  sj_args :: "string list"

definition submit_request :: "sjob \<Rightarrow> string list" where
  "submit_request j = [''job submit'', sj_id j, sj_name j, sj_target j, sj_command j] @ sj_args j"

definition sj_payload :: "sjob \<Rightarrow> string" where
  "sj_payload j = job_payload (sj_id j) (sj_name j) (sj_target j) (sj_command j) (sj_args j)"

definition no_bar :: "string \<Rightarrow> bool" where
  "no_bar s = (CHR ''|'' \<notin> set s)"

definition sj_ok :: "sjob \<Rightarrow> bool" where
  "sj_ok j = (no_bar (sj_id j) \<and> no_bar (sj_name j) \<and> no_bar (sj_target j) \<and> no_bar (sj_command j))"

definition job_reply :: "sjob \<Rightarrow> sresponse" where
  "job_reply j = SArr [SStr (sj_id j), SStr (sj_name j), SStr (sj_target j), SStr (sj_command j), SStr (join '','' (sj_args j))]"

text \<open>Every second element, counted from the last one, and the others.\<close>

definition every_other :: "'a list \<Rightarrow> 'a list" where
  "every_other xs = nths xs {i. even (length xs - 1 - i)}"

definition the_others :: "'a list \<Rightarrow> 'a list" where
  "the_others xs = nths xs {i. odd (length xs - 1 - i)}"

definition demo_env :: senv where
  "demo_env = \<lparr>clk = (\<lambda>n. n), wall_ms = Some 0, checked = True, f_parse = (\<lambda>s. None), f_show = (\<lambda>x. []), f_of_ms = (\<lambda>n. 0)\<rparr>"

definition new_server :: server where
  "new_server = \<lparr>db = new_store, auth = new_auth_config\<rparr>"

definition demo_jobs :: "sjob list" where
  "demo_jobs =
     [\<lparr>sj_id = ''1'', sj_name = ''build'', sj_target = ''local'', sj_command = ''make'', sj_args = [''-j'', ''all'']\<rparr>,
      \<lparr>sj_id = ''2'', sj_name = ''test'', sj_target = ''network'', sj_command = ''ctest'', sj_args = []\<rparr>]"

section \<open>Lemmas\<close>

lemma lookup_commands:
  "map_of commands ''job submit'' = Some job_submit" "map_of commands ''job next'' = Some job_next"
  "map_of commands ''job result'' = Some job_result" "map_of commands ''job log'' = Some job_log"
  "map_of commands ''job status'' = Some job_status" "map_of commands ''metric summary'' = Some metric_summary"
  "map_of commands ''sandbox claim'' = Some sandbox_claim" "map_of commands ''sandbox release'' = Some sandbox_release"
  "map_of commands ''sandbox register'' = Some sandbox_register"
  by (simp_all add: commands_def)

lemma lower_commands:
  "to_lowercase ''job submit'' = ''job submit''" "to_lowercase ''job next'' = ''job next''"
  "to_lowercase ''job result'' = ''job result''" "to_lowercase ''job log'' = ''job log''"
  "to_lowercase ''job status'' = ''job status''" "to_lowercase ''metric summary'' = ''metric summary''"
  "to_lowercase ''sandbox claim'' = ''sandbox claim''" "to_lowercase ''sandbox release'' = ''sandbox release''"
  "to_lowercase ''sandbox register'' = ''sandbox register''"
  by (simp_all add: ascii_lower_def)

lemma respond_command:
  assumes "to_lowercase c = c" "map_of commands c = Some f" "c \<noteq> ''auth''" "c \<noteq> ''config''"
  shows "respond env (c # args) srv = (fst (f env (c # args) (db srv)), srv\<lparr>db := snd (f env (c # args) (db srv))\<rparr>)"
  using assms by (simp add: respond_def case_prod_unfold)

lemma respond_commands:
  "respond env (''job submit'' # args) srv =
     (fst (job_submit env (''job submit'' # args) (db srv)), srv\<lparr>db := snd (job_submit env (''job submit'' # args) (db srv))\<rparr>)"
  "respond env (''job next'' # args) srv =
     (fst (job_next env (''job next'' # args) (db srv)), srv\<lparr>db := snd (job_next env (''job next'' # args) (db srv))\<rparr>)"
  "respond env (''job result'' # args) srv =
     (fst (job_result env (''job result'' # args) (db srv)), srv\<lparr>db := snd (job_result env (''job result'' # args) (db srv))\<rparr>)"
  "respond env (''job log'' # args) srv =
     (fst (job_log env (''job log'' # args) (db srv)), srv\<lparr>db := snd (job_log env (''job log'' # args) (db srv))\<rparr>)"
  "respond env (''job status'' # args) srv =
     (fst (job_status env (''job status'' # args) (db srv)), srv\<lparr>db := snd (job_status env (''job status'' # args) (db srv))\<rparr>)"
  "respond env (''metric summary'' # args) srv =
     (fst (metric_summary env (''metric summary'' # args) (db srv)), srv\<lparr>db := snd (metric_summary env (''metric summary'' # args) (db srv))\<rparr>)"
  "respond env (''sandbox claim'' # args) srv =
     (fst (sandbox_claim env (''sandbox claim'' # args) (db srv)), srv\<lparr>db := snd (sandbox_claim env (''sandbox claim'' # args) (db srv))\<rparr>)"
  "respond env (''sandbox release'' # args) srv =
     (fst (sandbox_release env (''sandbox release'' # args) (db srv)), srv\<lparr>db := snd (sandbox_release env (''sandbox release'' # args) (db srv))\<rparr>)"
  "respond env (''sandbox register'' # args) srv =
     (fst (sandbox_register env (''sandbox register'' # args) (db srv)), srv\<lparr>db := snd (sandbox_register env (''sandbox register'' # args) (db srv))\<rparr>)"
  by (rule respond_command, rule lower_commands, rule lookup_commands, simp, simp)+

subsection \<open>The queue\<close>

lemma list_key_set_str [inv_intros]: "k \<noteq> key \<Longrightarrow> list_key k st \<Longrightarrow> list_key k (set_str key v st)"
  by (simp add: list_key_def set_str_def update_conv' inv_intros)

lemma list_at_set_str [simp]: "k \<noteq> key \<Longrightarrow> list_at k (set_str key v st) = list_at k st"
  by (simp add: list_at_def set_str_def update_conv')

lemma key_neq [simp]:
  "QUEUE \<noteq> job_key i" "QUEUE \<noteq> status_key i" "QUEUE \<noteq> result_key i" "QUEUE \<noteq> log_key i"
  "RESULTS \<noteq> job_key i" "RESULTS \<noteq> status_key i" "RESULTS \<noteq> result_key i" "RESULTS \<noteq> log_key i"
  "QUEUE \<noteq> RESULTS" "QUEUE \<noteq> sandbox_status_key i" "QUEUE \<noteq> sandbox_job_key i"
  "RESULTS \<noteq> sandbox_status_key i" "RESULTS \<noteq> sandbox_job_key i"
  by (simp_all add: QUEUE_def RESULTS_def job_key_def status_key_def result_key_def log_key_def
      sandbox_status_key_def sandbox_job_key_def)

lemma split_payload:
  assumes "sj_ok j"
  shows "splitn 5 (CHR ''|'') (sj_payload j) = [sj_id j, sj_name j, sj_target j, sj_command j, join '','' (sj_args j)]"
  using assms by (simp add: sj_payload_def job_payload_def sj_ok_def no_bar_def eval_nat_numeral splitn_field del: splitn.simps(3))

lemma submit_queue:
  assumes "list_key QUEUE (db srv)"
  shows "fst (respond env (submit_request j) srv) = Inr (SStr (sj_id j))"
    and "list_at QUEUE (db (snd (respond env (submit_request j) srv))) = sj_payload j # list_at QUEUE (db srv)"
    and "list_key QUEUE (db (snd (respond env (submit_request j) srv)))"
  using assms
  by (simp_all add: submit_request_def respond_commands job_submit_def reply_def Let_def sj_payload_def
      lpush_list inv_intros)

lemma next_queue:
  assumes "list_key QUEUE st" "list_at QUEUE st = xs @ [sj_payload j]" "sj_ok j"
  shows "job_next env args st =
    (Inr (job_reply j), set_str (status_key (sj_id j)) ''running'' (put_value QUEUE (VList xs) st))"
  using assms by (simp add: job_next_def rpop_list reply_def Let_def split_payload job_reply_def)

lemma next_empty:
  assumes "list_key QUEUE st" "list_at QUEUE st = []" shows "job_next env args st = (Inr SNil, st)"
  using assms by (simp add: job_next_def rpop_list reply_def)

lemma serve_append:
  "serve (rs @ rs') srv =
     (case serve rs srv of (o1, srv1) \<Rightarrow> (case serve rs' srv1 of (o2, srv2) \<Rightarrow> (o1 @ o2, srv2)))"
  by (induction rs srv rule: serve.induct) (auto split: prod.splits)

lemma serve_submits:
  assumes "list_key QUEUE (db srv)"
  shows "list_key QUEUE (db (snd (serve (map (\<lambda>(env, j). (env, submit_request j)) js) srv))) \<and>
    list_at QUEUE (db (snd (serve (map (\<lambda>(env, j). (env, submit_request j)) js) srv))) =
      rev (map (sj_payload \<circ> snd) js) @ list_at QUEUE (db srv)"
  using assms
proof (induction js arbitrary: srv)
  case (Cons ej js)
  obtain env j where ej: "ej = (env, j)" by fastforce
  from Cons.IH [OF submit_queue(3) [OF Cons.prems]] submit_queue(2) [OF Cons.prems] show ?case
    by (simp add: ej case_prod_unfold)
qed simp

lemma serve_nexts:
  assumes "list_key QUEUE (db srv)" "list_at QUEUE (db srv) = rev (map sj_payload js)" "list_all sj_ok js"
    and "length envs = length js"
  shows "fst (serve (map (\<lambda>env. (env, [''job next''])) envs) srv) = map (\<lambda>j. Inr (job_reply j)) js \<and>
    list_key QUEUE (db (snd (serve (map (\<lambda>env. (env, [''job next''])) envs) srv))) \<and>
    list_at QUEUE (db (snd (serve (map (\<lambda>env. (env, [''job next''])) envs) srv))) = []"
  using assms
proof (induction js arbitrary: srv envs)
  case (Cons j js)
  then obtain env es where envs: "envs = env # es" by (cases envs) auto
  have "list_at QUEUE (db srv) = rev (map sj_payload js) @ [sj_payload j]" "sj_ok j" using Cons.prems by simp_all
  note n = next_queue [OF Cons.prems(1) this, of env]
  let ?srv = "srv\<lparr>db := set_str (status_key (sj_id j)) ''running'' (put_value QUEUE (VList (rev (map sj_payload js))) (db srv))\<rparr>"
  have r: "respond env [''job next''] srv = (Inr (job_reply j), ?srv)" by (simp add: respond_commands n)
  have "list_key QUEUE (db ?srv)" "list_at QUEUE (db ?srv) = rev (map sj_payload js)"
    using Cons.prems(1) by (simp_all add: inv_intros)
  from Cons.IH [OF this] Cons.prems(3,4) show ?case by (simp add: envs r case_prod_unfold)
qed simp

subsection \<open>The log of a job\<close>

lemma every_other_snoc: "every_other (xs @ [x]) = the_others xs @ [x]"
proof -
  have "nths xs {i. even (length xs - i)} = nths xs {i. odd (length xs - 1 - i)}"
    unfolding nths_def by (rule arg_cong [where f = "map fst"], rule filter_cong [OF refl]) (auto simp: set_zip)
  then show ?thesis by (simp add: every_other_def the_others_def nths_append)
qed

lemma the_others_snoc: "the_others (xs @ [x]) = every_other xs"
proof -
  have "nths xs {i. odd (length xs - i)} = nths xs {i. even (length xs - 1 - i)}"
    unfolding nths_def by (rule arg_cong [where f = "map fst"], rule filter_cong [OF refl]) (auto simp: set_zip)
  then show ?thesis by (simp add: every_other_def the_others_def nths_append)
qed

lemma list_key_sdel: "list_key key st \<Longrightarrow> list_key k (snd (sdel k st))"
  by (simp add: list_key_def sdel_def delete_conv' inv_intros)

lemma list_at_sdel: "list_at key (snd (sdel key st)) = []"
  by (simp add: list_at_def sdel_def delete_conv')

lemma lrange_all:
  assumes "list_key key st" "length (list_at key st) < 2 ^ 62"
  shows "lrange ck key 0 (- 1) st = Inr (list_at key st)"
  using assms(1)
proof (rule list_keyE)
  fix e
  assume e: "map_of st key = Some e" "e_typ e = VList (list_at key st)"
  have "list_slice ck 0 (- 1) (list_at key st) = Inr (nths (list_at key st) {i. int i \<le> int (length (list_at key st)) - 1})"
    using list_slice_spec [of 0 "- 1" "list_at key st" ck] assms(2) by (simp add: i64_range_def)
  also have "nths (list_at key st) {i. int i \<le> int (length (list_at key st)) - 1} = list_at key st"
    by (rule nths_all) auto
  finally show ?thesis using e by (simp add: lrange_def)
qed (simp add: lrange_def)

lemma fold_lpush:
  "list_key key st \<Longrightarrow> list_at key (fold (lpush key) xs st) = rev xs @ list_at key st \<and> list_key key (fold (lpush key) xs st)"
  using lq.contents_fold_enq [of key st xs] by (metis rev_append rev_rev_ident)

lemma job_log_list:
  assumes "list_key (log_key i) st" "length (list_at (log_key i) st) < 2 ^ 62"
  shows "fst (job_log env [''job log'', i, line] st) = Inr (SInt 1)"
    and "list_at (log_key i) (snd (job_log env [''job log'', i, line] st)) = line # rev (list_at (log_key i) st)"
    and "list_key (log_key i) (snd (job_log env [''job log'', i, line] st))"
proof -
  let ?k = "log_key i" and ?d = "snd (sdel (log_key i) st)"
  let ?vals = "list_at ?k st @ [line]"
  have d: "list_key ?k ?d" "list_at ?k ?d = []" using assms(1) by (auto intro: list_key_sdel list_at_sdel)
  have "job_log env [''job log'', i, line] st = (Inr (SInt 1), fold (lpush ?k) ?vals ?d)"
    using lrange_all [OF assms] by (simp add: job_log_def reply_int_def reply_def Let_def)
  then show "fst (job_log env [''job log'', i, line] st) = Inr (SInt 1)"
    "list_at ?k (snd (job_log env [''job log'', i, line] st)) = line # rev (list_at ?k st)"
    "list_key ?k (snd (job_log env [''job log'', i, line] st))"
    using fold_lpush [OF d(1), of ?vals] d(2) by simp_all
qed

lemma serve_logs:
  assumes "list_key (log_key i) (db srv)" "list_at (log_key i) (db srv) = []" "length envs = length lines" "length lines < 2 ^ 62"
  shows "list_key (log_key i) (db (snd (serve (map2 (\<lambda>env line. (env, [''job log'', i, line])) envs lines) srv))) \<and>
    list_at (log_key i) (db (snd (serve (map2 (\<lambda>env line. (env, [''job log'', i, line])) envs lines) srv))) =
      rev (every_other lines) @ the_others lines"
  using assms(3,4)
proof (induction lines arbitrary: envs rule: rev_induct)
  case Nil
  then show ?case using assms(1,2) by (simp add: every_other_def the_others_def)
next
  case (snoc l ls)
  then obtain es e where envs: "envs = es @ [e]" "length es = length ls" by (cases envs rule: rev_cases) auto
  let ?srv = "snd (serve (map2 (\<lambda>env line. (env, [''job log'', i, line])) es ls) srv)"
  have ih: "list_key (log_key i) (db ?srv)" "list_at (log_key i) (db ?srv) = rev (every_other ls) @ the_others ls"
    using snoc.IH [OF envs(2)] snoc.prems(2) by simp_all
  have "length (every_other ls) + length (the_others ls) = length ls"
    by (simp add: every_other_def the_others_def length_nths card_Un_disjoint [symmetric])
      (subst card_Un_disjoint [symmetric], auto intro: arg_cong [where f = card, of _ "{..<length ls}", simplified])
  then have "length (list_at (log_key i) (db ?srv)) < 2 ^ 62" using ih(2) snoc.prems(2) by simp
  note l = job_log_list [OF ih(1) this, of e l]
  show ?case
    using l ih(2) envs by (simp add: serve_append case_prod_unfold respond_commands every_other_snoc the_others_snoc)
qed

subsection \<open>Keys\<close>

lemma map_of_set_str [simp]:
  "map_of (set_str k v st) k' = (if k' = k then Some \<lparr>e_typ = VStr v, exp_at = None\<rparr> else map_of st k')"
  by (simp add: set_str_def update_conv')

lemma map_of_sdel [simp]: "map_of (snd (sdel k st)) k' = (if k' = k then None else map_of st k')"
  by (simp add: sdel_def delete_conv')

lemma list_at_sdel_other [simp]: "k \<noteq> key \<Longrightarrow> list_at k (snd (sdel key st)) = list_at k st"
  by (simp add: list_at_def)

lemma list_key_sdel_other [inv_intros]: "list_key k st \<Longrightarrow> list_key k (snd (sdel key st))"
  by (simp add: list_key_def sdel_def delete_conv' inv_intros split: option.splits)

lemma map_of_lpush_other: "k \<noteq> key \<Longrightarrow> map_of (lpush key x st) k = map_of st k"
  by (auto simp: lpush_def split: option.splits svalue.splits)

lemma map_of_fold_lpush_other: "k \<noteq> key \<Longrightarrow> map_of (fold (lpush key) xs st) k = map_of st k"
  by (induction xs arbitrary: st) (simp_all add: map_of_lpush_other)

lemma job_keys_neq [simp]:
  "status_key i \<noteq> result_key i'" "result_key i \<noteq> status_key i'" "status_key i \<noteq> log_key i'" "log_key i \<noteq> status_key i'"
  "result_key i \<noteq> log_key i'" "log_key i \<noteq> result_key i'" "sandbox_status_key b \<noteq> sandbox_job_key b'"
  "sandbox_job_key b \<noteq> sandbox_status_key b'"
  by (auto simp: status_key_def result_key_def log_key_def sandbox_status_key_def sandbox_job_key_def
      dest: arg_cong [where f = rev])

lemma job_sandbox_keys_neq [simp]:
  "status_key i \<noteq> sandbox_status_key b" "status_key i \<noteq> sandbox_job_key b" "result_key i \<noteq> sandbox_status_key b"
  "result_key i \<noteq> sandbox_job_key b" "log_key i \<noteq> sandbox_status_key b" "log_key i \<noteq> sandbox_job_key b"
  "sandbox_status_key b \<noteq> status_key i" "sandbox_job_key b \<noteq> status_key i" "sandbox_status_key b \<noteq> result_key i"
  "sandbox_job_key b \<noteq> result_key i" "sandbox_status_key b \<noteq> log_key i" "sandbox_job_key b \<noteq> log_key i"
  by (simp_all add: status_key_def result_key_def log_key_def sandbox_status_key_def sandbox_job_key_def)

lemmas key_neq_sym [simp] = key_neq [symmetric]

lemma status_key_inj [simp]: "status_key i = status_key i' \<longleftrightarrow> i = i'" "result_key i = result_key i' \<longleftrightarrow> i = i'"
    "log_key i = log_key i' \<longleftrightarrow> i = i'"
  by (simp_all add: status_key_def result_key_def log_key_def)

text \<open>List keys and their lists depend only on the binding of the key.\<close>

lemma list_at_cong: "map_of st k = map_of st' k \<Longrightarrow> list_at k st = list_at k st'"
  by (simp add: list_at_def)

lemma list_key_cong: "map_of st k = map_of st' k \<Longrightarrow> umap_inv st' \<Longrightarrow> list_key k st \<Longrightarrow> list_key k st'"
  by (simp add: list_key_def)

lemma list_key_umap: "list_key k st \<Longrightarrow> umap_inv st"
  by (simp add: list_key_def)

section \<open>Properties\<close>

text \<open>
  Jobs are handed out in the order of their submission, each with exactly the fields it was submitted
  with: when any number of jobs whose id, name, target and command contain no bar are submitted to
  an empty queue, as many requests for the next job return them one by one, first in first out, and
  the queue is empty again.
\<close>

theorem jobs_first_in_first_out:
  assumes "list_key QUEUE (db srv)" "list_at QUEUE (db srv) = []"
    and "list_all (sj_ok \<circ> snd) js" "length envs = length js"
  shows "fst (serve (map (\<lambda>env. (env, [''job next''])) envs)
      (snd (serve (map (\<lambda>(env, j). (env, submit_request j)) js) srv))) = map (\<lambda>(env, j). Inr (job_reply j)) js"
proof -
  let ?srv = "snd (serve (map (\<lambda>(env, j). (env, submit_request j)) js) srv)"
  have "list_key QUEUE (db ?srv)" "list_at QUEUE (db ?srv) = rev (map sj_payload (map snd js))"
    using serve_submits [OF assms(1), of js] assms(2) by simp_all
  moreover have "list_all sj_ok (map snd js)" "length envs = length (map snd js)"
    using assms(3,4) by (simp_all add: list_all_iff)
  ultimately have "fst (serve (map (\<lambda>env. (env, [''job next''])) envs) ?srv) = map (\<lambda>j. Inr (job_reply j)) (map snd js)"
    by (intro conjunct1 [OF serve_nexts])
  then show ?thesis by (simp add: case_prod_unfold comp_def)
qed

theorem jobs_first_in_first_out_witness:
  "fst (serve [(demo_env, [''job next'']), (demo_env, [''job next''])]
     (snd (serve (map (\<lambda>j. (demo_env, submit_request j)) demo_jobs) new_server))) =
   [Inr (SArr [SStr ''1'', SStr ''build'', SStr ''local'', SStr ''make'', SStr ''-j,all'']),
    Inr (SArr [SStr ''2'', SStr ''test'', SStr ''network'', SStr ''ctest'', SStr []])]"
proof -
  have "list_key QUEUE (db new_server)" "list_at QUEUE (db new_server) = []"
    by (simp_all add: list_key_def list_at_def new_server_def new_store_def umap_inv_def)
  moreover have "list_all (sj_ok \<circ> snd) (map (Pair demo_env) demo_jobs)"
    by (simp add: demo_jobs_def sj_ok_def no_bar_def)
  ultimately show ?thesis
    using jobs_first_in_first_out [of new_server "map (Pair demo_env) demo_jobs" "[demo_env, demo_env]"]
    by (simp add: demo_jobs_def job_reply_def)
qed

text \<open>
  A bar in the name of a job moves its fields: the request for the next job returns the part of
  the name behind the bar as the target, and the submitted target as the command to execute; the command that was
  submitted is taken for arguments.
\<close>

theorem bar_shifts_fields:
  assumes "list_key QUEUE (db srv)" "list_at QUEUE (db srv) = []"
    and "sj_name j = a @ ''|'' @ b" "no_bar (sj_id j)" "no_bar a" "no_bar b" "no_bar (sj_target j)"
  shows "fst (respond env' [''job next''] (snd (respond env (submit_request j) srv))) =
    Inr (SArr [SStr (sj_id j), SStr a, SStr b, SStr (sj_target j), SStr (sj_command j @ ''|'' @ join '','' (sj_args j))])"
proof -
  let ?srv = "snd (respond env (submit_request j) srv)"
  have q: "list_key QUEUE (db ?srv)" "list_at QUEUE (db ?srv) = [sj_payload j]"
    using submit_queue [OF assms(1)] assms(2) by simp_all
  have "splitn 5 (CHR ''|'') (sj_payload j) =
      [sj_id j, a, b, sj_target j, sj_command j @ ''|'' @ join '','' (sj_args j)]"
    using assms(3-7)
    by (simp add: sj_payload_def job_payload_def no_bar_def eval_nat_numeral splitn_field del: splitn.simps(3))
  with q show ?thesis by (simp add: respond_commands job_next_def rpop_list reply_def Let_def)
qed

theorem bar_shifts_fields_witness:
  "fst (respond demo_env [''job next'']
     (snd (respond demo_env [''job submit'', ''7'', ''a|b'', ''reboot'', ''ls''] new_server))) =
   Inr (SArr [SStr ''7'', SStr ''a'', SStr ''b'', SStr ''reboot'', SStr ''ls|''])"
proof -
  have "list_key QUEUE (db new_server)" "list_at QUEUE (db new_server) = []"
    by (simp_all add: list_key_def list_at_def new_server_def new_store_def umap_inv_def)
  from bar_shifts_fields [OF this,
      of "\<lparr>sj_id = ''7'', sj_name = ''a|b'', sj_target = ''reboot'', sj_command = ''ls'', sj_args = []\<rparr>" "''a''" "''b''" demo_env demo_env]
  show ?thesis by (simp add: no_bar_def submit_request_def)
qed

text \<open>
  The log of a job keeps every line but not their order. After any lines were logged for a job
  without a log, its list holds, from the front, every second line counted back from the newest
  one, and then the remaining lines from the oldest on.
\<close>

theorem job_log_order:
  assumes "list_key (log_key i) (db srv)" "list_at (log_key i) (db srv) = []"
    and "length envs = length lines" "length lines < 2 ^ 62"
  shows "list_at (log_key i) (db (snd (serve (map2 (\<lambda>env line. (env, [''job log'', i, line])) envs lines) srv))) =
    rev (every_other lines) @ the_others lines"
  using serve_logs [OF assms] by blast

theorem job_log_order_witness:
  "list_at (log_key ''7'') (db (snd (serve [(demo_env, [''job log'', ''7'', ''a'']), (demo_env, [''job log'', ''7'', ''b'']),
     (demo_env, [''job log'', ''7'', ''c'']), (demo_env, [''job log'', ''7'', ''d''])] new_server))) = [''d'', ''b'', ''a'', ''c'']"
proof -
  have "list_key (log_key ''7'') (db new_server)" "list_at (log_key ''7'') (db new_server) = []"
    by (simp_all add: list_key_def list_at_def new_server_def new_store_def umap_inv_def)
  note order = job_log_order [OF this, of "[demo_env, demo_env, demo_env, demo_env]" "[''a'', ''b'', ''c'', ''d'']"]
  have "every_other [''a'', ''b'', ''c'', ''d''] = [''b'', ''d'']" "the_others [''a'', ''b'', ''c'', ''d''] = [''a'', ''c'']"
    by (simp_all add: every_other_def the_others_def nths_Cons)
  with order show ?thesis by (simp del: serve.simps)
qed

text \<open>
  The summary of the metrics counts no jobs. Whatever jobs the store holds, as long as fewer than
  \<open>2 ^ 62\<close> metrics are recorded, the reply says that there are no jobs, none passed, failed or queued: the filter asks
  for keys that begin with a prefix containing a colon and contain no colon.
\<close>

theorem summary_counts_no_jobs:
  assumes "length (list_at METRICS (db srv)) < 2 ^ 62"
  shows "\<exists>n d. fst (respond env (''metric summary'' # args) srv) =
    Inr (SStr (''metrics='' @ n @ '',jobs=0,passed=0,failed=0,queued=0,queue_depth='' @ d))"
proof -
  have "str_contains '':'' k" if "prefix ''devops:job:'' k" for k
    using that unfolding str_contains_def str_find_sublist by (auto simp: prefix_def sublist_def intro: exI [of _ "''devops''"])
  then have none: "filter (\<lambda>k. prefix ''devops:job:'' k \<and> \<not> str_contains '':'' k) ks = []" for ks
    by (auto simp: filter_empty_conv)
  have "\<exists>vals. lrange (checked env) METRICS 0 (- 1) (db srv) = Inr vals"
  proof (cases "map_option e_typ (map_of (db srv) METRICS)")
    case None
    then show ?thesis by (simp add: lrange_def)
  next
    case (Some v)
    with assms list_slice_spec [of 0 "- 1"] show ?thesis
      by (cases v) (auto simp: lrange_def list_at_def i64_range_def)
  qed
  then obtain vals where "lrange (checked env) METRICS 0 (- 1) (db srv) = Inr vals" ..
  moreover have "dec_of_nat 0 = ''0''" by (subst dec_of_nat.simps) (simp add: digit_char_def char_of_def bit_0)
  ultimately show ?thesis
    by (intro exI [of _ "dec_of_nat (length vals)"] exI [of _ "dec_of_int (llen QUEUE (db srv))"])
      (simp add: respond_commands metric_summary_def none reply_def)
qed

theorem summary_counts_no_jobs_witness:
  "\<exists>n d. fst (respond demo_env [''metric summary''] (snd (respond demo_env (submit_request (hd demo_jobs)) new_server))) =
    Inr (SStr (''metrics='' @ n @ '',jobs=0,passed=0,failed=0,queued=0,queue_depth='' @ d))"
  by (rule summary_counts_no_jobs)
    (simp add: submit_request_def demo_jobs_def respond_commands job_submit_def reply_def Let_def new_server_def new_store_def
      list_at_def METRICS_def set_str_def lpush_def QUEUE_def job_key_def status_key_def update_conv')

end
