(* ===== verification/Server_Invariant.thy ===== *)
theory Server_Invariant
  imports Server_Handler
begin

section \<open>What every command keeps\<close>

text \<open>
  Two facts that hold for all commands of the server, on every branch, errors and panics included: the
  store stays well-formed (no key twice; in a sorted set no name twice, and every name with its current
  score in the sorted half), and the response is a value or a list of values, never a nested
  list. Each is proved operation by operation and collected over the table of commands.
\<close>

subsection \<open>Specification vocabulary\<close>

definition zset_wf :: "zset \<Rightarrow> bool" where
  "zset_wf z = (umap_inv (by_name z) \<and> 
     (\<forall>n s. map_of (by_name z) n = Some s \<longrightarrow> \<lparr>z_name = n, z_score = s\<rparr> \<in> set (zsorted z)))"

definition value_wf :: "svalue \<Rightarrow> bool" where
  "value_wf v = (case v of VZSet z \<Rightarrow> zset_wf z | _ \<Rightarrow> True)"

definition store_wf :: "store \<Rightarrow> bool" where
  "store_wf st = (umap_inv st \<and> (\<forall>k e. map_of st k = Some e \<longrightarrow> value_wf (e_typ e)))"

fun scalar :: "sresponse \<Rightarrow> bool" where
  "scalar (SArr rs) = False"
| "scalar r = True"

fun flat :: "sresponse \<Rightarrow> bool" where
  "flat (SArr rs) = list_all scalar rs"
| "flat r = True"

definition answer_ok :: "answer \<Rightarrow> bool" where
  "answer_ok a = (store_wf (snd a) \<and> (case fst a of Inl p \<Rightarrow> True | Inr r \<Rightarrow> flat r))"

definition command_ok :: "scommand \<Rightarrow> bool" where
  "command_ok f = (\<forall>env args st. store_wf st \<longrightarrow> answer_ok (f env args st))"

text \<open>
  What can happen to the server: a turn of some connection, on whatever bytes have arrived there, or a tick of the task
  that removes expired keys.
\<close>

inductive server_step :: "server \<Rightarrow> server \<Rightarrow> bool" where
  turn: "conn_turn env stream srv s = (c, out, rest, srv', s') \<Longrightarrow> server_step srv srv'"
| tick: "server_step srv (srv\<lparr>db := sweep now (db srv)\<rparr>)"

section \<open>Lemmas\<close>

subsection \<open>Sorted sets\<close>

lemma zset_wf_new: "zset_wf new_zset"
  by (simp add: zset_wf_def new_zset_def umap_inv_def)

lemma zset_wf_insert: "zset_wf z \<Longrightarrow> zset_wf (zinsert e z)"
  by (cases e) (auto simp: zset_wf_def zinsert_def Let_def update_conv' inv_intros,
      metis append_take_drop_id Un_iff set_append)

lemma zset_wf_remove:
  assumes "zset_wf z" shows "zset_wf (snd (zremove name z))"
proof -
  have no: "binary_search_by (zprobe key) xs \<noteq> Inr i" for key xs i
    by (rule binary_search_no_match) (simp add: zprobe_def)
  show ?thesis
    using assms no
    by (auto simp: zset_wf_def zremove_def Let_def delete_conv' inv_intros split: option.splits sum.splits)
qed

lemma zset_wf_add: "zset_wf z \<Longrightarrow> zset_wf (snd (zadd name score z))"
  by (auto simp: zadd_def zset_wf_insert zset_wf_remove split: option.splits)

subsection \<open>The store\<close>

lemma store_wf_update: "store_wf st \<Longrightarrow> value_wf (e_typ e) \<Longrightarrow> store_wf (AList.update k e st)"
  by (auto simp: store_wf_def inv_intros update_conv')

lemma store_wf_lookup: "store_wf st \<Longrightarrow> map_of st k = Some e \<Longrightarrow> value_wf (e_typ e)"
  by (auto simp: store_wf_def)

lemma value_wf_simps [simp]:
  "value_wf (VStr s)" "value_wf (VBytes b)" "value_wf (VList xs)" "value_wf (VZSet z) = zset_wf z"
  by (simp_all add: value_wf_def)

lemma wf_set_str [inv_intros]: "store_wf st \<Longrightarrow> store_wf (set_str k v st)"
  by (simp add: set_str_def store_wf_update)

lemma wf_sdel [inv_intros]: "store_wf st \<Longrightarrow> store_wf (snd (sdel k st))"
  by (auto simp: sdel_def store_wf_def inv_intros delete_conv' split: if_splits)

lemma wf_expire [inv_intros]: "store_wf st \<Longrightarrow> store_wf (snd (expire now k ms st))"
  by (auto simp: expire_def store_wf_update store_wf_lookup split: option.splits)

lemma wf_put [inv_intros]: "store_wf st \<Longrightarrow> value_wf v \<Longrightarrow> store_wf (put_value k v st)"
  by (auto simp: put_value_def store_wf_update split: option.splits)

lemma wf_lists [inv_intros]:
  assumes "store_wf st"
  shows "store_wf (lpush k v st)" "store_wf (snd (lpop k st))" "store_wf (snd (rpop k st))" "store_wf (snd (lrem ck k n v st))"
  using assms
  by (auto simp: lpush_def lpop_def rpop_def lrem_def wf_put split: option.splits svalue.splits list.splits sum.splits prod.splits)

lemma wf_push_all [inv_intros]: "store_wf st \<Longrightarrow> store_wf (fold (lpush k) xs st)"
  by (induction xs arbitrary: st) (simp_all add: wf_lists)

lemma wf_zsets [inv_intros]:
  assumes "store_wf st" shows "store_wf (snd (z_add k n s st))" "store_wf (snd (z_rem k n st))"
  using assms store_wf_lookup [OF assms, of k]
  by (auto simp: z_add_def z_rem_def wf_put zset_wf_add zset_wf_remove zset_wf_new split: option.splits svalue.splits)

lemma wf_set_bit [inv_intros]: "store_wf st \<Longrightarrow> store_wf (set_bit_key k n on st)"
  by (auto simp: set_bit_key_def wf_put split: option.splits svalue.splits)

lemma wf_bf_write [inv_intros]: "store_wf st \<Longrightarrow> store_wf (snd (bf_write ck k off v i n st))"
  by (induction ck k off v i n st rule: bf_write.induct) (auto simp: wf_set_bit split: sum.splits prod.splits)

subsection \<open>The commands\<close>

lemma answer_reply [simp]:
  "answer_ok (reply r st) = (store_wf st \<and> flat r)" "answer_ok (reply_int n st) = store_wf st" "answer_ok (Inl p, st) = store_wf st"
  by (simp_all add: answer_ok_def reply_def reply_int_def)

lemma answer_reply_run: "store_wf st \<Longrightarrow> (\<And>x. flat (f x)) \<Longrightarrow> answer_ok (reply_run r f st)"
  by (simp add: answer_ok_def reply_run_def split: sum.splits)

lemma flat_simps [simp]:
  "flat err_arg" "flat (err_arg_msg m)" "flat (err_type m)" "flat (err_unknown m)" "flat (str_or_nil v)" "list_all scalar (map SStr xs)"
  by (simp_all add: err_arg_def err_arg_msg_def err_type_def err_unknown_def str_or_nil_def list_all_iff split: option.splits)

lemmas command_intros = inv_intros answer_reply_run

lemma keys_commands: "command_ok do_keys" "command_ok do_get" "command_ok do_set" "command_ok do_del" "command_ok do_pexpire" "command_ok do_pttl"
  by (auto simp: command_ok_def do_keys_def do_get_def do_set_def do_del_def do_pexpire_def do_pttl_def command_intros case_prod_beta
      split: option.splits)

lemma zset_commands: "command_ok do_zadd" "command_ok do_zrem" "command_ok do_zscore" "command_ok do_zquery"
  by (auto simp: command_ok_def do_zadd_def do_zrem_def do_zscore_def do_zquery_def command_intros case_prod_beta list_all_iff
      split: option.splits)

lemma list_commands:
  "command_ok do_lpush" "command_ok do_rpush" "command_ok do_lpop" "command_ok do_rpop" "command_ok do_lrange" "command_ok do_lindex"
  "command_ok do_llen"
  by (auto simp: command_ok_def do_lpush_def do_rpush_def do_lpop_def do_rpop_def do_lrange_def do_lindex_def do_llen_def
      command_intros case_prod_beta split: option.splits)

lemma lrem_command: "command_ok do_lrem"
  unfolding command_ok_def
proof (intro allI impI)
  fix env args st assume "store_wf st"
  then show "answer_ok (do_lrem env args st)"
    using wf_lists(4) [of st "checked env" "args ! 1" _ "args ! 3"]
    by (auto simp: do_lrem_def split: option.splits prod.splits sum.splits) (metis snd_conv)+
qed

lemma bit_commands: "command_ok (do_setbit on)" "command_ok do_getbit" "command_ok do_bitcount" "command_ok do_bfget"
  by (auto simp: command_ok_def do_setbit_def do_getbit_def do_bitcount_def do_bfget_def command_intros split: option.splits)

lemma bfset_command: "command_ok do_bfset"
  unfolding command_ok_def
proof (intro allI impI)
  fix env args st assume "store_wf st"
  then show "answer_ok (do_bfset env args st)"
    using wf_bf_write [of st "checked env" "args ! 1"]
    by (auto simp: do_bfset_def bitfield_set_def split: option.splits prod.splits sum.splits) (metis snd_conv)+
qed

lemma job_commands: "command_ok job_submit" "command_ok job_next" "command_ok job_status" "command_ok job_result"
  "command_ok job_log" "command_ok job_list"
  by (auto simp: command_ok_def job_submit_def job_next_def job_status_def job_result_def job_log_def job_list_def Let_def
      command_intros case_prod_beta split: option.splits sum.splits)

lemma other_commands:
  "command_ok metric_record" "command_ok metric_query" "command_ok metric_summary"
  "command_ok sandbox_status" "command_ok sandbox_register" "command_ok sandbox_claim" "command_ok sandbox_release"
  "command_ok ts_add" "command_ok ts_range" "command_ok ts_info" "command_ok ts_list"
  by (auto simp: command_ok_def metric_record_def metric_query_def metric_summary_def sandbox_status_def sandbox_register_def
      sandbox_claim_def sandbox_release_def ts_add_def ts_range_def ts_info_def ts_list_def Let_def command_intros case_prod_beta
      list_all_iff split: option.splits sum.splits)

lemma all_commands: "map_of commands n = Some f \<Longrightarrow> command_ok f"
  by (auto simp: commands_def keys_commands zset_commands list_commands lrem_command bit_commands bfset_command job_commands
      other_commands split: if_splits)

subsection \<open>The server\<close>

lemma respond_ok:
  assumes "store_wf (db srv)" "respond env args srv = (r, srv')"
  shows "answer_ok (r, db srv')"
proof -
  have "flat (do_auth args au)" "flat (fst (do_config args au))" for au
    by (auto simp: do_auth_def do_config_def Let_def split: option.splits)
  with assms all_commands show ?thesis
    by (fastforce simp: respond_def Let_def answer_ok_def command_ok_def case_prod_beta split: if_splits option.splits)
qed

lemma conn_turn_ok:
  assumes "store_wf (db srv)" "conn_turn env stream srv s = (c, out, rest, srv', s')"
  shows "store_wf (db srv')" "c = Open \<Longrightarrow> \<exists>v. out = write_response (encode v) \<and> flat v"
proof -
  have r: "store_wf (db srv') \<and> (\<forall>v. r = Inr v \<longrightarrow> flat v)" if "respond env args srv = (r, srv')" for args r srv'
    using respond_ok [OF assms(1) that] by (auto simp: answer_ok_def)
  show "store_wf (db srv')"
    using assms r by (auto simp: conn_turn_def dispatch_def Let_def split: sum.splits prod.splits)
  assume "c = Open"
  with assms obtain args v where "out = write_response (encode v)" "respond env args srv = (Inr v, srv')"
    by (auto simp: conn_turn_def dispatch_def Let_def map_sum_def split: sum.splits prod.splits)
  then show "\<exists>v. out = write_response (encode v) \<and> flat v" using r by blast
qed

lemma wf_sweep [inv_intros]: "store_wf st \<Longrightarrow> store_wf (sweep now st)"
  unfolding store_wf_def umap_inv_def sweep_def
  by (auto simp: distinct_map_filter dest!: map_of_SomeD intro: map_of_is_SomeI)

lemma server_step_wf: "server_step srv srv' \<Longrightarrow> store_wf (db srv) \<Longrightarrow> store_wf (db srv')"
  by (induction rule: server_step.induct) (simp_all add: conn_turn_ok(1) wf_sweep)

lemma reachable_wf:
  assumes "server_step\<^sup>*\<^sup>* new_server srv" shows "store_wf (db srv)"
  using assms
proof (induction rule: rtranclp_induct)
  case base
  show ?case by (simp add: new_server_def new_store_def store_wf_def umap_inv_def)
qed (rule server_step_wf)

section \<open>Properties\<close>

text \<open>
  C10. The server keeps its types. After any interleaving of turns of its connections, on any bytes whatsoever, and of ticks
  of the expiry task, no key is in the store twice, no name twice in a sorted set, and every
  name of a sorted set is in its sorted half with its current score; and what the server writes
  back to any further input on a connection that stays open is the encoding of a value or of a list of values, never of a
  nested list.
\<close>

theorem server_well_formed:
  assumes "server_step\<^sup>*\<^sup>* new_server srv"
  shows "store_wf (db srv) \<and>
    (case conn_turn env stream srv s of (c, out, rest, srv', s') \<Rightarrow> c = Open \<longrightarrow> (\<exists>r. out = write_response (encode r) \<and> flat r))"
  using conn_turn_ok(2) reachable_wf [OF assms] by (auto split: prod.splits)

theorem server_well_formed_witness:
  "case conn_turn demo_env (write_response (u32_bytes 1 @ u32_bytes 4 @ bytes_of_string ''keys'')) new_server new_stats of
     (c, out, rest, srv, s) \<Rightarrow> store_wf (db srv) \<and> store_wf (sweep 7 (db srv))"
proof -
  obtain c out rest srv s where t: "conn_turn demo_env (write_response (u32_bytes 1 @ u32_bytes 4 @ bytes_of_string ''keys''))
      new_server new_stats = (c, out, rest, srv, s)"
    by (metis prod_cases5)
  then have step: "server_step\<^sup>*\<^sup>* new_server srv" by (blast intro: server_step.turn)
  then have "server_step\<^sup>*\<^sup>* new_server (srv\<lparr>db := sweep 7 (db srv)\<rparr>)"
    by (rule rtranclp.rtrancl_into_rtrancl) (rule server_step.tick)
  then show ?thesis using server_well_formed [OF step] server_well_formed t by fastforce
qed

end
