(* ===== verification/System.thy ===== *)
theory System
  imports Job_Loop Server_Invariant
begin

section \<open>The worker and the server together\<close>

text \<open>
  The composition of the two programs of the repository. A \<open>link\<close> is the connection of a worker:
  the state of the server behind it and whether it is still open. An exchange runs the
  client's encoder, the server's connection loop and the client's parser one after another;
  \<open>system_turn\<close> feeds the answer to \<^verbatim>\<open>job next\<close> to the main loop of the worker and delivers the
  requests the loop sends. That a call over a stream socket, however the kernel splits it, amounts
  to such an exchange is a theorem of \<open>Redis_Client\<close>. A connection the server has closed carries
  nothing more: the client has no code that connects again.
\<close>

subsection \<open>The connection\<close>

record link =
  l_server :: server
  l_stats :: stats
  l_open :: bool

text \<open>\<^verbatim>\<open>Config::read_timeout\<close> in milliseconds, and what an exchange meets: the server's environment and the
  time since the server began to wait for it.\<close>

definition READ_TIMEOUT :: nat where "READ_TIMEOUT = 30000"

record wire =
  w_env :: senv
  w_gap :: nat

text \<open>The bytes of a response, all there at once.\<close>

definition buffer_net :: "u8 list net" where
  "buffer_net =
     \<lparr>sys_socket = (\<lambda>w. (3, w)), sys_connect = (\<lambda>s h p w. (0, w)), sys_close = (\<lambda>s w. w),
      sys_send = (\<lambda>s d w. (0, w)),
      sys_recv = (\<lambda>s n w. (int (length (take n w)), take n w, drop n w))\<rparr>"

definition read_back :: "Redis_Client.host \<Rightarrow> u8 list \<Rightarrow> stop + response" where
  "read_back h bytes = fst (read_response h buffer_net \<lparr>fd = 3\<rparr> bytes)"

definition exchange :: "Redis_Client.host \<Rightarrow> wire \<Rightarrow> string list \<Rightarrow> link \<Rightarrow> (stop + response) \<times> link" where
  "exchange h wr req l =
     (if \<not> l_open l then (Inl Nullopt, l)
      else if READ_TIMEOUT \<le> w_gap wr then (Inl Nullopt, l\<lparr>l_open := False\<rparr>)
      else case encode_request req of
        Inl f \<Rightarrow> (Inl (Fault f), l)
      | Inr msg \<Rightarrow>
          (case conn_turn (w_env wr) msg (l_server l) (l_stats l) of (c, bytes, rest, srv, s) \<Rightarrow>
             if c = Open then (read_back h bytes, l\<lparr>l_server := srv, l_stats := s\<rparr>)
             else (Inl Nullopt, l\<lparr>l_server := srv, l_stats := s, l_open := False\<rparr>)))"

fun deliver :: "Redis_Client.host \<Rightarrow> (nat \<Rightarrow> wire) \<Rightarrow> nat \<Rightarrow> string list list \<Rightarrow> link \<Rightarrow> link" where
  "deliver h wires n [] l = l"
| "deliver h wires n (r # rs) l = deliver h wires (n + 1) rs (snd (exchange h (wires n) r l))"

subsection \<open>Turns\<close>

text \<open>
  One turn of the worker against the server. The answer to \<^verbatim>\<open>job next\<close> is \<^verbatim>\<open>std::nullopt\<close> when there is
  none; the answers to the other requests are ignored by the code.
\<close>

definition system_turn ::
  "Redis_Client.host \<Rightarrow> options \<Rightarrow> 'w shell \<Rightarrow> turn \<times> (nat \<Rightarrow> wire) \<Rightarrow> main_state \<Rightarrow> 'w Netns.host \<Rightarrow> link \<Rightarrow>
   parent_call list \<times> main_state \<times> 'w Netns.host \<times> link" where
  "system_turn h opts sh tw st nh l =
     (case tw of (t, wires) \<Rightarrow>
      case exchange h (wires 0) cmd_job_next l of (r, l1) \<Rightarrow>
        (case loop_turn opts sh (t\<lparr>t_reply := (case r of Inr v \<Rightarrow> Some v | Inl _ \<Rightarrow> None)\<rparr>) st nh of
           (reqs, calls, st', nh') \<Rightarrow> (calls, st', nh', deliver h wires 1 (tl reqs) l1)))"

fun system_run ::
  "Redis_Client.host \<Rightarrow> options \<Rightarrow> 'w shell \<Rightarrow> (turn \<times> (nat \<Rightarrow> wire)) list \<Rightarrow> main_state \<Rightarrow> 'w Netns.host \<Rightarrow> link \<Rightarrow>
   parent_call list \<times> main_state \<times> 'w Netns.host \<times> link" where
  "system_run h opts sh [] st nh l = ([], st, nh, l)"
| "system_run h opts sh (tw # tws) st nh l =
     (case system_turn h opts sh tw st nh l of (calls, st1, nh1, l1) \<Rightarrow>
        (case system_run h opts sh tws st1 nh1 l1 of (calls', st2, nh2, l2) \<Rightarrow> (calls @ calls', st2, nh2, l2)))"

subsection \<open>Specification vocabulary\<close>

definition worker_job :: "sjob \<Rightarrow> job" where
  "worker_job j = \<lparr>job_id = sj_id j, job_name = sj_name j, job_target = sj_target j, job_command = sj_command j\<rparr>"

definition job_permitted :: "options \<Rightarrow> security_manager \<Rightarrow> sjob \<Rightarrow> bool" where
  "job_permitted opts sm j = allowed (validate_command (sj_command j) (opt_security_profile opts) sm)"

definition job_run :: "options \<Rightarrow> turn \<Rightarrow> sjob \<Rightarrow> exec_result \<times> string list" where
  "job_run opts t j =
     (case Sandbox_Exec.run (t_kernel t) (sj_command j) True (new_sandbox (job_config opts (worker_job j))) of
        (res, outs, calls, sb) \<Rightarrow> (res, outs))"

text \<open>The exit code and the duration a job is reported with.\<close>

definition job_outcome :: "options \<Rightarrow> security_manager \<Rightarrow> turn \<Rightarrow> sjob \<Rightarrow> int \<times> int" where
  "job_outcome opts sm t j =
     (if job_permitted opts sm j then (Sandbox_Exec.exit_code (fst (job_run opts t j)), int (t_duration t)) else (126, 0))"

definition utf8_text :: "string \<Rightarrow> bool" where
  "utf8_text s = utf8_valid (bytes_of_string s)"

definition sized :: "string list \<Rightarrow> bool" where
  "sized req = (length req \<le> 4 \<and> (\<forall>a \<in> set req. length a \<le> 500000))"

definition wire_ok :: "string list \<Rightarrow> bool" where
  "wire_ok req = (sized req \<and> list_all utf8_text req)"

text \<open>A host that can take in the answers of the job commands.\<close>

definition roomy :: "Redis_Client.host \<Rightarrow> bool" where
  "roomy h = (2 \<le> stack_frames h \<and> 5 * response_size h \<le> 2 ^ 26 \<and> (\<forall>n \<le> 2 ^ 26. alloc_ok h n))"

text \<open>A turn in which no exchange is late and the output of the job is text.\<close>

definition timely :: "(nat \<Rightarrow> wire) \<Rightarrow> bool" where
  "timely wires = (\<forall>n. w_gap (wires n) < READ_TIMEOUT)"

definition outputs_ok :: "options \<Rightarrow> turn \<Rightarrow> sjob \<Rightarrow> bool" where
  "outputs_ok opts t j =
     ((\<forall>out \<in> set (snd (job_run opts t j)). utf8_text (take 1000 out)) \<and>
      length (snd (job_run opts t j)) < 2 ^ 60 \<and> t_duration t < 2 ^ 60)"

definition job_ok :: "sjob \<Rightarrow> bool" where
  "job_ok j = (sj_ok j \<and> utf8_text (sj_id j) \<and> length (sj_id j) \<le> 1000 \<and> length (sj_payload j) \<le> 2 ^ 20)"

definition text_at :: "string \<Rightarrow> string \<Rightarrow> store \<Rightarrow> bool" where
  "text_at k v st = (map_of st k = Some \<lparr>e_typ = VStr v, exp_at = None\<rparr>)"

definition board_ok :: "store \<Rightarrow> bool" where
  "board_ok st = (list_key QUEUE st \<and> list_key RESULTS st)"

definition own_lines :: "string set" where
  "own_lines = {''SECURITY: command blocked by policy'', ''sandbox: network namespace created'', ''sandbox: starting execution''}"

text \<open>What the server knows when a job has been processed: the effect of a turn on the store.\<close>

definition job_recorded :: "string \<Rightarrow> string \<Rightarrow> int \<times> int \<Rightarrow> store \<Rightarrow> store \<Rightarrow> bool" where
  "job_recorded sb i cd st st' =
     (board_ok st' \<and>
      list_at QUEUE st' = butlast (list_at QUEUE st) \<and>
      list_at RESULTS st' = result_entry i (fst cd) (snd cd) # list_at RESULTS st \<and>
      text_at (status_key i) (verdict (fst cd)) st' \<and>
      text_at (result_key i) (result_text (fst cd) (snd cd)) st' \<and>
      text_at (sandbox_status_key sb) ''idle'' st' \<and>
      map_of st' (sandbox_job_key sb) = None \<and>
      (\<forall>k. k \<notin> {QUEUE, RESULTS, status_key i, result_key i, log_key i, sandbox_status_key sb, sandbox_job_key sb} \<longrightarrow>
         map_of st' k = map_of st k))"

text \<open>The same for a sequence of jobs with their outcomes, in the order in which they were processed.\<close>

definition job_keys :: "string \<Rightarrow> string set" where
  "job_keys i = {status_key i, result_key i, log_key i}"

definition jobs_recorded :: "string \<Rightarrow> (sjob \<times> int \<times> int) list \<Rightarrow> store \<Rightarrow> store \<Rightarrow> bool" where
  "jobs_recorded sb jcs st st' =
     (board_ok st' \<and>
      list_at RESULTS st' = rev (map (\<lambda>(j, code, dur). result_entry (sj_id j) code dur) jcs) @ list_at RESULTS st \<and>
      (\<forall>(j, code, dur) \<in> set jcs. text_at (status_key (sj_id j)) (verdict code) st' \<and>
         text_at (result_key (sj_id j)) (result_text code dur) st') \<and>
      (jcs \<noteq> [] \<longrightarrow> text_at (sandbox_status_key sb) ''idle'' st' \<and> map_of st' (sandbox_job_key sb) = None) \<and>
      (\<forall>k. k \<notin> {QUEUE, RESULTS, sandbox_status_key sb, sandbox_job_key sb} \<union> (\<Union>(j, cd) \<in> set jcs. job_keys (sj_id j)) \<longrightarrow>
         map_of st' k = map_of st k))"

section \<open>Lemmas\<close>

subsection \<open>An exchange\<close>

lemma buffer_streams: "stream_in buffer_net s (\<lambda>w. w)" "recv_live buffer_net s (\<lambda>w. w)"
  by (auto simp: stream_in_def recv_live_def buffer_net_def)

lemma read_back_fits:
  assumes "fits h (stack_frames h) r" "alloc_ok h (length (encode r))" "length (encode r) \<le> 2 ^ 26"
  shows "read_back h (write_response (encode r)) = Inr (client_view r)"
  using read_response_frame [of buffer_net "\<lparr>fd = 3\<rparr>" "\<lambda>w. w" "write_response (encode r)" r "[]" h] assms buffer_streams
  by (auto simp: read_back_def)

lemma read_back_ok:
  assumes "fits h (stack_frames h) r" "roomy h" "length (encode r) \<le> 2 ^ 26"
  shows "read_back h (write_response (encode r)) = Inr (client_view r)"
  using assms by (intro read_back_fits) (simp_all add: roomy_def)

lemma sized_payload:
  assumes "sized req" shows "length (request_payload req) \<le> 2000020"
proof -
  have "(\<Sum>a \<leftarrow> req. 4 + length a) \<le> (\<Sum>a \<leftarrow> req. 500004)"
    using assms by (intro sum_list_mono) (auto simp: sized_def)
  also have "\<dots> \<le> 4 * 500004" using assms by (simp add: sum_list_triv sized_def)
  finally show ?thesis by (simp add: length_request_payload)
qed

lemma wire_ok_request:
  assumes "wire_ok req"
  shows "encode_request req = Inr (write_response (request_payload req))"
    and "read_request (write_response (request_payload req)) = Inr (req, [])"
proof -
  have len: "length (request_payload req) \<le> 2000020" using assms sized_payload by (simp add: wire_ok_def)
  then show "encode_request req = Inr (write_response (request_payload req))"
    by (intro encode_request_layout) simp
  have "\<forall>a \<in> set req. arg_ok a"
    using assms by (fastforce simp: wire_ok_def sized_def list_all_iff arg_ok_def utf8_text_def)
  then show "read_request (write_response (request_payload req)) = Inr (req, [])"
    using read_request_frame [of req "[]"] len assms by (simp add: MAX_ARGS_def MAX_MSG_SIZE_def wire_ok_def sized_def)
qed

text \<open>An exchange that is in time and well-formed is a command of the server.\<close>

lemma exchange_ok:
  assumes "l_open l" "w_gap wr < READ_TIMEOUT" "wire_ok req"
    and "respond (w_env wr) req (l_server l) = (Inr r, srv)"
  shows "\<exists>s. snd (exchange h wr req l) = l\<lparr>l_server := srv, l_stats := s\<rparr>"
    and "fits h (stack_frames h) r \<Longrightarrow> roomy h \<Longrightarrow> length (encode r) \<le> 2 ^ 26 \<Longrightarrow>
      fst (exchange h wr req l) = Inr (client_view r)"
  using assms wire_ok_request [OF assms(3)] read_back_ok [of h r]
  by (auto simp: exchange_def conn_turn_def dispatch_def Let_def)

text \<open>Requests that all succeed, as one transformation of the store.\<close>

fun respond_all :: "(nat \<Rightarrow> wire) \<Rightarrow> nat \<Rightarrow> string list list \<Rightarrow> server \<Rightarrow> server option" where
  "respond_all wires n [] srv = Some srv"
| "respond_all wires n (r # rs) srv =
     (case respond (w_env (wires n)) r srv of
        (Inl p, _) \<Rightarrow> None
      | (Inr _, srv1) \<Rightarrow> respond_all wires (n + 1) rs srv1)"

lemma respond_all_append:
  "respond_all wires n (rs @ rs') srv =
     Option.bind (respond_all wires n rs srv) (respond_all wires (n + length rs) rs')"
  by (induction rs arbitrary: n srv) (auto split: sum.splits prod.splits)

lemma deliver_ok:
  assumes "l_open l" "timely wires" "list_all wire_ok rs" "respond_all wires n rs (l_server l) = Some srv"
  shows "\<exists>s. deliver h wires n rs l = l\<lparr>l_server := srv, l_stats := s\<rparr>"
  using assms
proof (induction rs arbitrary: n l)
  case Nil
  then show ?case by (auto intro!: exI [of _ "l_stats l"])
next
  case (Cons r rs)
  then obtain v srv1 where r: "respond (w_env (wires n)) r (l_server l) = (Inr v, srv1)"
    "respond_all wires (n + 1) rs srv1 = Some srv"
    by (auto split: sum.splits prod.splits)
  have "w_gap (wires n) < READ_TIMEOUT" "wire_ok r" using Cons.prems(2,3) by (simp_all add: timely_def)
  from exchange_ok(1) [OF Cons.prems(1) this r(1)] obtain s where
    s: "snd (exchange h (wires n) r l) = l\<lparr>l_server := srv1, l_stats := s\<rparr>" by blast
  from Cons.IH [of "l\<lparr>l_server := srv1, l_stats := s\<rparr>" "n + 1"] Cons.prems r(2) show ?case
    by (simp add: s)
qed

text \<open>What the server writes is never nested, so two stack frames are enough to read it.\<close>

lemma fits_scalar: "scalar r \<Longrightarrow> length (encode r) < 2 ^ 32 \<Longrightarrow> fits h (Suc d) r"
  by (cases r) auto

lemma length_concat_elem: "x \<in> set xs \<Longrightarrow> length (f x) \<le> length (concat (map f xs))"
  by (induction xs) auto

lemma length_encode_elems: "length rs \<le> length (concat (map encode rs))"
proof (induction rs)
  case (Cons r rs)
  then show ?case using encode_nonempty [of r] by (cases "encode r") auto
qed simp

lemma fits_flat:
  assumes "flat r" "length (encode r) \<le> 2 ^ 26" "2 \<le> stack_frames h" "\<forall>n. alloc_ok h n"
  shows "fits h (stack_frames h) r"
proof -
  obtain d where d: "stack_frames h = Suc (Suc d)" using assms(3) by (metis Suc_le_D numeral_2_eq_2 Suc_le_mono)
  show ?thesis
  proof (cases r)
    case (SArr rs)
    have "length rs < 2 ^ 32" using length_encode_elems [of rs] assms(2) SArr by simp
    moreover have "fits h (Suc d) x" if "x \<in> set rs" for x
      using that assms(1,2) SArr length_concat_elem [OF that, of encode] by (intro fits_scalar) (auto simp: list_all_iff)
    ultimately show ?thesis using SArr d assms(4) by simp
  qed (use assms d in \<open>auto intro!: fits_scalar\<close>)
qed

subsection \<open>The requests of a turn\<close>

text \<open>Log lines change the list of the log and nothing else.\<close>

lemma respond_logs:
  assumes "list_key (log_key i) (db srv)" "length (list_at (log_key i) (db srv)) + length lines < 2 ^ 62"
  shows "\<exists>srv'. respond_all wires n (map (cmd_job_log i) lines) srv = Some srv' \<and>
    list_key (log_key i) (db srv') \<and> auth srv' = auth srv \<and>
    (\<forall>k. k \<noteq> log_key i \<longrightarrow> map_of (db srv') k = map_of (db srv) k)"
  using assms
proof (induction lines arbitrary: n srv)
  case Nil
  then show ?case by auto
next
  case (Cons line lines)
  let ?st = "snd (job_log (w_env (wires n)) [''job log'', i, line] (db srv))"
  have len: "length (list_at (log_key i) (db srv)) < 2 ^ 62" using Cons.prems(2) by simp
  note l = job_log_list [OF Cons.prems(1) len, of "w_env (wires n)" line]
  have frame: "map_of ?st k = map_of (db srv) k" if "k \<noteq> log_key i" for k
    using that lrange_all [OF Cons.prems(1) len]
    by (simp add: job_log_def reply_int_def reply_def Let_def map_of_fold_lpush_other map_of_lpush_other)
  have "list_key (log_key i) (db (srv\<lparr>db := ?st\<rparr>))"
    "length (list_at (log_key i) (db (srv\<lparr>db := ?st\<rparr>))) + length lines < 2 ^ 62"
    using l Cons.prems(2) by simp_all
  from Cons.IH [OF this, of "n + 1"] show ?case
    using l(1) frame by (simp add: cmd_job_log_def respond_commands case_prod_unfold)
qed

lemma respond_claim:
  "respond env (cmd_sandbox_claim sb i) srv =
     (Inr (SInt 1), srv\<lparr>db := set_str (sandbox_job_key sb) i (set_str (sandbox_status_key sb) ''busy'' (db srv))\<rparr>)"
  by (simp add: cmd_sandbox_claim_def respond_commands sandbox_claim_def reply_int_def reply_def Let_def)

lemma respond_release:
  "respond env (cmd_sandbox_release sb) srv =
     (Inr (SInt 1), srv\<lparr>db := snd (sdel (sandbox_job_key sb) (set_str (sandbox_status_key sb) ''idle'' (db srv)))\<rparr>)"
  by (simp add: cmd_sandbox_release_def respond_commands sandbox_release_def reply_int_def reply_def Let_def)

lemma respond_result:
  assumes "i64_range code" "i64_range dur"
  shows "respond env (cmd_job_result i code dur) srv =
     (Inr (SStr (verdict code)),
      srv\<lparr>db := lpush RESULTS (result_entry i code dur)
        (set_str (result_key i) (result_text code dur) (set_str (status_key i) (verdict code) (db srv)))\<rparr>)"
  using assms
  by (simp add: cmd_job_result_def respond_commands job_result_def reply_def Let_def parse_i64_dec)

text \<open>The requests of a turn, from the server's point of view.\<close>

lemma respond_turn:
  fixes wires n srv
  defines "st \<equiv> db srv"
  assumes "board_ok st" "list_key (log_key i) st" "length (list_at (log_key i) st) + length lines < 2 ^ 62"
    and "i64_range code" "i64_range dur" "list_at QUEUE st \<noteq> []"
  shows "\<exists>srv'. respond_all wires n
      (cmd_sandbox_claim sb i # map (cmd_job_log i) lines @ [cmd_job_result i code dur, cmd_sandbox_release sb])
      (srv\<lparr>db := set_str (status_key i) ''running'' (put_value QUEUE (VList (butlast (list_at QUEUE st))) st)\<rparr>) = Some srv' \<and>
    job_recorded sb i (code, dur) st (db srv')"
proof -
  define st1 where "st1 = set_str (sandbox_job_key sb) i (set_str (sandbox_status_key sb) ''busy''
      (set_str (status_key i) ''running'' (put_value QUEUE (VList (butlast (list_at QUEUE st))) st)))"
  have log1: "list_key (log_key i) st1" "list_at (log_key i) st1 = list_at (log_key i) st"
    using assms(3) by (simp_all add: st1_def inv_intros)
  have q1: "list_key QUEUE st1" "list_at QUEUE st1 = butlast (list_at QUEUE st)"
    "list_key RESULTS st1" "list_at RESULTS st1 = list_at RESULTS st"
    using assms(2) by (simp_all add: st1_def board_ok_def inv_intros)
  obtain srv2 where s2: "respond_all wires (n + 1) (map (cmd_job_log i) lines) (srv\<lparr>db := st1\<rparr>) = Some srv2"
    "list_key (log_key i) (db srv2)" "\<And>k. k \<noteq> log_key i \<Longrightarrow> map_of (db srv2) k = map_of st1 k"
    using respond_logs [of i "srv\<lparr>db := st1\<rparr>" lines wires "n + 1"] log1 assms(4) by auto
  have umap2: "umap_inv (db srv2)" using s2(2) by (rule list_key_umap)
  have q2: "list_key QUEUE (db srv2)" "list_at QUEUE (db srv2) = butlast (list_at QUEUE st)"
    "list_key RESULTS (db srv2)" "list_at RESULTS (db srv2) = list_at RESULTS st"
    using q1 list_key_cong [OF s2(3) [symmetric] umap2] list_at_cong [OF s2(3)] by simp_all
  define st3 where "st3 = set_str (result_key i) (result_text code dur) (set_str (status_key i) (verdict code) (db srv2))"
  have q3: "list_key RESULTS st3" "list_at RESULTS st3 = list_at RESULTS st" "list_key QUEUE st3"
    "list_at QUEUE st3 = butlast (list_at QUEUE st)"
    using q2 by (simp_all add: st3_def inv_intros)
  define st4 where "st4 = put_value RESULTS (VList (result_entry i code dur # list_at RESULTS st)) st3"
  define st5 where "st5 = snd (sdel (sandbox_job_key sb) (set_str (sandbox_status_key sb) ''idle'' st4))"
  have "respond_all wires n
      (cmd_sandbox_claim sb i # map (cmd_job_log i) lines @ [cmd_job_result i code dur, cmd_sandbox_release sb])
      (srv\<lparr>db := set_str (status_key i) ''running'' (put_value QUEUE (VList (butlast (list_at QUEUE st))) st)\<rparr>) =
      Some (srv2\<lparr>db := st5\<rparr>)"
    using s2(1) lpush_list [OF q3(1)] q3(2)
    by (simp add: respond_claim respond_all_append st1_def [symmetric] respond_result [OF assms(5,6)] respond_release
        st3_def [symmetric] st4_def [symmetric] st5_def [symmetric])
  moreover have "board_ok st5" "list_at QUEUE st5 = butlast (list_at QUEUE st)"
    "list_at RESULTS st5 = result_entry i code dur # list_at RESULTS st"
    using q3 by (simp_all add: board_ok_def st5_def st4_def inv_intros)
  moreover have "map_of st5 k = map_of st k"
    if "k \<notin> {QUEUE, RESULTS, status_key i, result_key i, log_key i, sandbox_status_key sb, sandbox_job_key sb}" for k
    using that s2(3) [of k] by (simp add: st5_def st4_def st3_def st1_def)
  ultimately show ?thesis
    by (intro exI [of _ "srv2\<lparr>db := st5\<rparr>"]) (simp add: job_recorded_def text_at_def st5_def st4_def st3_def)
qed

subsection \<open>The worker\<close>

lemma job_reply_view:
  "is_nil (client_view (job_reply j)) = False" "is_error (client_view (job_reply j)) = False"
  "parse_job (client_view (job_reply j)) = Some (worker_job j)"
  by (simp_all add: job_reply_def is_nil_def is_error_def parse_job_def worker_job_def)

lemma execute_job_requests:
  assumes "execute_job opts sh t (worker_job j) st nh = (reqs, calls, st', nh')"
  shows "\<exists>lines. reqs = map (cmd_job_log (sj_id j)) lines @
      [cmd_job_result (sj_id j) (Sandbox_Exec.exit_code (fst (job_run opts t j))) (int (t_duration t)),
       cmd_sandbox_release (opt_id opts)] \<and>
    set lines \<subseteq> own_lines \<union> take 1000 ` set (snd (job_run opts t j)) \<and>
    length lines \<le> 2 + length (snd (job_run opts t j))"
proof -
  obtain opened st1 nh1 where o: "open_network opts sh (worker_job j) st nh = (opened, st1, nh1)" by (metis prod_cases3)
  obtain res outs k sb where r: "Sandbox_Exec.run (t_kernel t) (sj_command j) True (new_sandbox (job_config opts (worker_job j))) =
      (res, outs, k, sb)" by (metis prod_cases4)
  have jr: "job_run opts t j = (res, outs)" by (simp add: job_run_def r)
  let ?lines = "(if opened then [''sandbox: network namespace created''] else []) @
      [''sandbox: starting execution''] @ map (take 1000) outs"
  have "job_command (worker_job j) = sj_command j" "job_id (worker_job j) = sj_id j" by (simp_all add: worker_job_def)
  with assms o r have "reqs = map (cmd_job_log (sj_id j)) ?lines @
      [cmd_job_result (sj_id j) (Sandbox_Exec.exit_code res) (int (t_duration t)), cmd_sandbox_release (opt_id opts)]"
    by (auto simp: execute_job_def output_requests_def Let_def comp_def split: prod.splits)
  then show ?thesis by (intro exI [of _ ?lines]) (auto simp: jr own_lines_def)
qed

lemma loop_turn_job:
  assumes "t_reply t = Some (client_view (job_reply j))"
  shows "\<exists>lines calls st' nh'. loop_turn opts sh t st nh =
      (cmd_job_next # cmd_sandbox_claim (opt_id opts) (sj_id j) # map (cmd_job_log (sj_id j)) lines @
         [cmd_job_result (sj_id j) (fst (job_outcome opts (security_manager st) t j))
            (snd (job_outcome opts (security_manager st) t j)), cmd_sandbox_release (opt_id opts)], calls, st', nh') \<and>
    security_manager st' = security_manager st \<and>
    set lines \<subseteq> own_lines \<union> take 1000 ` set (snd (job_run opts t j)) \<and>
    length lines \<le> 2 + length (snd (job_run opts t j))"
proof -
  obtain reqs calls st' nh' where h: "handle_job opts sh t (worker_job j) st nh = (reqs, calls, st', nh')"
    by (metis prod_cases4)
  have l: "loop_turn opts sh t st nh = (cmd_job_next # reqs, calls, st', nh')"
    using assms h by (simp add: loop_turn_def job_reply_view)
  have sm: "security_manager st' = security_manager st" using handle_job_correct [OF h] by blast
  have wj: "job_command (worker_job j) = sj_command j" "job_id (worker_job j) = sj_id j" by (simp_all add: worker_job_def)
  show ?thesis
  proof (cases "job_permitted opts (security_manager st) j")
    case False
    then have "reqs = cmd_sandbox_claim (opt_id opts) (sj_id j) # map (cmd_job_log (sj_id j)) [''SECURITY: command blocked by policy''] @
        [cmd_job_result (sj_id j) 126 0, cmd_sandbox_release (opt_id opts)]"
      using h by (simp add: handle_job_def job_permitted_def wj Let_def)
    with False l sm show ?thesis
      by (intro exI [of _ "[''SECURITY: command blocked by policy'']"] exI) (auto simp: job_outcome_def own_lines_def)
  next
    case True
    then obtain st1 rs where "execute_job opts sh t (worker_job j) st1 nh = (rs, calls, st', nh')"
      "reqs = cmd_sandbox_claim (opt_id opts) (sj_id j) # rs"
      using h by (auto simp: handle_job_def job_permitted_def wj Let_def split: prod.splits)
    with execute_job_requests [OF this(1)] True l sm show ?thesis by (auto simp: job_outcome_def)
  qed
qed

lemma run_exit_range: "i64_range (Sandbox_Exec.exit_code (fst (job_run opts t j)))"
proof -
  have "- 1 \<le> Sandbox_Exec.exit_code (fst (Sandbox_Exec.run k c out sb)) \<and>
      Sandbox_Exec.exit_code (fst (Sandbox_Exec.run k c out sb)) \<le> 255" for k c out sb
    using exit_code_range [of "k_status k"]
    by (simp add: Sandbox_Exec.run_def Let_def split: option.split prod.split)
  then show ?thesis by (simp add: job_run_def i64_range_def case_prod_unfold) (smt (verit))
qed

subsection \<open>One turn of the system\<close>

lemma utf8_text_ascii: "list_all (\<lambda>c. (of_char c :: nat) < 128) s \<Longrightarrow> utf8_text s"
  unfolding utf8_text_def
  by (intro utf8_valid_ascii) (auto simp: list_all_iff bytes_of_string_def byte_of_char_def unat_of_nat)

lemma own_lines_ok: "line \<in> own_lines \<Longrightarrow> utf8_text line \<and> length line \<le> 1000"
  by (auto simp: own_lines_def intro!: utf8_text_ascii)

lemma dec_of_nat_ascii: "list_all (\<lambda>c. (of_char c :: nat) < 128) (dec_of_nat n)"
  using dec_of_nat_digits [of n] by (auto simp: list_all_iff is_digit_def)

lemma dec_of_int_ok: "utf8_text (dec_of_int v)"
  using dec_of_nat_ascii by (intro utf8_text_ascii) (simp add: dec_of_int_def)

lemma length_dec_of_nat: "n < 10 ^ k \<Longrightarrow> 0 < k \<Longrightarrow> length (dec_of_nat n) \<le> k"
proof (induction k arbitrary: n)
  case (Suc k)
  show ?case
  proof (cases "n < 10")
    case True
    then show ?thesis by (subst dec_of_nat.simps) simp
  next
    case False
    with Suc.prems have "0 < k" by (cases k) auto
    moreover have "n div 10 < 10 ^ k" using Suc.prems by (simp add: less_mult_imp_div_less mult.commute)
    ultimately show ?thesis
      using Suc.IH [of "n div 10"] False by (subst dec_of_nat.simps) simp
  qed
qed simp

lemma length_dec_of_int:
  assumes "i64_range v" shows "length (dec_of_int v) \<le> 21"
proof -
  have "nat x < 10 ^ 20" if "x < 10 ^ 20" for x using that by (cases "0 \<le> x") (simp_all add: nat_less_iff)
  moreover have "v < 10 ^ 20" "- v < 10 ^ 20" using assms by (simp_all add: i64_range_def)
  ultimately have "nat v < 10 ^ 20" "nat (- v) < 10 ^ 20" by blast+
  then have "length (dec_of_nat (nat v)) \<le> 20" "length (dec_of_nat (nat (- v))) \<le> 20"
    by (simp_all only: length_dec_of_nat zero_less_numeral)
  then show ?thesis by (simp add: dec_of_int_def)
qed

definition turn_requests :: "string \<Rightarrow> string \<Rightarrow> string list \<Rightarrow> int \<Rightarrow> int \<Rightarrow> string list list" where
  "turn_requests sb i lines code dur =
     cmd_sandbox_claim sb i # map (cmd_job_log i) lines @ [cmd_job_result i code dur, cmd_sandbox_release sb]"

lemmas request_defs = turn_requests_def cmd_sandbox_claim_def cmd_job_log_def cmd_job_result_def cmd_sandbox_release_def

lemma requests_sized:
  assumes "job_ok j" "length sb \<le> 1000" "i64_range code" "i64_range dur" "set lines \<subseteq> own_lines \<union> take 1000 ` outs"
  shows "list_all sized (turn_requests sb (sj_id j) lines code dur)"
proof -
  have "length line \<le> 1000" if "line \<in> set lines" for line
    using that assms(5) own_lines_ok by (auto simp: subset_iff)
  then have "length line \<le> 500000" if "line \<in> set lines" for line using that by fastforce
  with assms(1-4) length_dec_of_int [of code] length_dec_of_int [of dur] show ?thesis
    by (auto simp: list_all_iff sized_def job_ok_def request_defs)
qed

lemma requests_ok:
  assumes "job_ok j" "utf8_text sb" "length sb \<le> 1000" "i64_range code" "i64_range dur"
    and "set lines \<subseteq> own_lines \<union> take 1000 ` outs" "\<forall>out \<in> outs. utf8_text (take 1000 out)"
  shows "list_all wire_ok (turn_requests sb (sj_id j) lines code dur)"
proof -
  have "utf8_text line" if "line \<in> set lines" for line
    using that assms(6,7) own_lines_ok by (auto simp: subset_iff)
  moreover have "utf8_text ''job log''" "utf8_text ''job result''" "utf8_text ''sandbox claim''" "utf8_text ''sandbox release''"
    by (auto intro: utf8_text_ascii)
  ultimately have "list_all (list_all utf8_text) (turn_requests sb (sj_id j) lines code dur)"
    using assms(1,2) by (auto simp: list_all_iff job_ok_def request_defs dec_of_int_ok)
  with requests_sized [OF assms(1,3-6)] show ?thesis by (simp add: list_all_iff wire_ok_def)
qed

lemma outcome_range:
  "t_duration t < 2 ^ 60 \<Longrightarrow> i64_range (fst (job_outcome opts sm t j)) \<and> i64_range (snd (job_outcome opts sm t j))"
  using run_exit_range [of opts t j] by (simp add: job_outcome_def) (simp add: i64_range_def)

lemma job_reply_fits:
  assumes "roomy h" "job_ok j"
  shows "fits h (stack_frames h) (job_reply j)" "length (encode (job_reply j)) \<le> 2 ^ 26"
proof -
  obtain d where "stack_frames h = 2 + d" using assms(1) le_Suc_ex unfolding roomy_def by blast
  then have d: "stack_frames h = Suc (Suc d)" by simp
  have len: "length (sj_id j) + length (sj_name j) + length (sj_target j) + length (sj_command j) +
      length (join '','' (sj_args j)) \<le> 2 ^ 20"
    using assms(2) by (simp add: job_ok_def sj_payload_def job_payload_def)
  with assms(1) show "fits h (stack_frames h) (job_reply j)" by (simp add: d job_reply_def roomy_def)
  show "length (encode (job_reply j)) \<le> 2 ^ 26" using len by (simp add: job_reply_def)
qed

definition taken :: "sjob \<Rightarrow> server \<Rightarrow> server" where
  "taken j srv = srv\<lparr>db := set_str (status_key (sj_id j)) ''running''
     (put_value QUEUE (VList (butlast (list_at QUEUE (db srv)))) (db srv))\<rparr>"

lemma poll_job:
  assumes "l_open l" "w_gap wr < READ_TIMEOUT" "roomy h" "job_ok j"
    and "list_key QUEUE (db (l_server l))" "list_at QUEUE (db (l_server l)) = xs @ [sj_payload j]"
  shows "\<exists>s. exchange h wr cmd_job_next l = (Inr (client_view (job_reply j)), l\<lparr>l_server := taken j (l_server l), l_stats := s\<rparr>)"
proof -
  have "sj_ok j" using assms(4) by (simp add: job_ok_def)
  then have "respond (w_env wr) cmd_job_next (l_server l) = (Inr (job_reply j), taken j (l_server l))"
    using next_queue [OF assms(5,6)] assms(6) by (simp add: cmd_job_next_def respond_commands taken_def)
  moreover have "wire_ok cmd_job_next" by (simp add: wire_ok_def sized_def cmd_job_next_def utf8_text_ascii)
  ultimately show ?thesis
    using exchange_ok [OF assms(1,2), of cmd_job_next _ _ h] job_reply_fits [OF assms(3,4)] assms(3)
    by (metis prod.collapse)
qed

lemma system_turn_poll:
  assumes "exchange h (wires 0) cmd_job_next l = (Inr (client_view (job_reply j)), l1)"
  shows "\<exists>lines calls st' nh'. system_turn h opts sh (t, wires) st nh l = (calls, st', nh',
      deliver h wires 1 (turn_requests (opt_id opts) (sj_id j) lines (fst (job_outcome opts (security_manager st) t j))
        (snd (job_outcome opts (security_manager st) t j))) l1) \<and>
    tl (fst (loop_turn opts sh (t\<lparr>t_reply := Some (client_view (job_reply j))\<rparr>) st nh)) =
      turn_requests (opt_id opts) (sj_id j) lines (fst (job_outcome opts (security_manager st) t j))
        (snd (job_outcome opts (security_manager st) t j)) \<and>
    security_manager st' = security_manager st \<and>
    set lines \<subseteq> own_lines \<union> take 1000 ` set (snd (job_run opts t j)) \<and>
    length lines \<le> 2 + length (snd (job_run opts t j))"
proof -
  let ?t = "t\<lparr>t_reply := Some (client_view (job_reply j))\<rparr>"
  have t: "job_outcome opts (security_manager st) ?t j = job_outcome opts (security_manager st) t j"
    "job_run opts ?t j = job_run opts t j" by (simp_all add: job_outcome_def job_run_def)
  show ?thesis
    using loop_turn_job [of ?t j opts sh st nh] assms unfolding t turn_requests_def [symmetric]
    by (fastforce simp: system_turn_def)
qed

lemma system_turn_job:
  assumes "l_open l" "timely wires" "roomy h" "job_ok j" "outputs_ok opts t j" "utf8_text (opt_id opts)" "length (opt_id opts) \<le> 1000"
    and "board_ok (db (l_server l))" "list_at QUEUE (db (l_server l)) = xs @ [sj_payload j]"
    and "list_key (log_key (sj_id j)) (db (l_server l))" "list_at (log_key (sj_id j)) (db (l_server l)) = []"
  shows "\<exists>calls st' nh' l'. system_turn h opts sh (t, wires) st nh l = (calls, st', nh', l') \<and> l_open l' \<and>
    security_manager st' = security_manager st \<and>
    job_recorded (opt_id opts) (sj_id j) (job_outcome opts (security_manager st) t j) (db (l_server l)) (db (l_server l'))"
proof -
  let ?st = "db (l_server l)" and ?i = "sj_id j" and ?cd = "job_outcome opts (security_manager st) t j"
  have q: "list_key QUEUE ?st" "w_gap (wires 0) < READ_TIMEOUT" using assms(2,8) by (simp_all add: board_ok_def timely_def)
  obtain s where l1: "exchange h (wires 0) cmd_job_next l =
      (Inr (client_view (job_reply j)), l\<lparr>l_server := taken j (l_server l), l_stats := s\<rparr>)"
    using poll_job [OF assms(1) q(2) assms(3,4) q(1) assms(9)] by blast
  obtain lines calls st' nh' where tr: "system_turn h opts sh (t, wires) st nh l = (calls, st', nh',
      deliver h wires 1 (turn_requests (opt_id opts) ?i lines (fst ?cd) (snd ?cd)) (l\<lparr>l_server := taken j (l_server l), l_stats := s\<rparr>))"
    and sm: "security_manager st' = security_manager st"
    and lines: "set lines \<subseteq> own_lines \<union> take 1000 ` set (snd (job_run opts t j))"
      "length lines \<le> 2 + length (snd (job_run opts t j))"
    using system_turn_poll [where wires = wires, OF l1] by blast
  have rng: "i64_range (fst ?cd)" "i64_range (snd ?cd)" using outcome_range assms(5) by (simp_all add: outputs_ok_def)
  have "length (list_at (log_key ?i) ?st) + length lines < 2 ^ 62" "list_at QUEUE ?st \<noteq> []"
    using lines(2) assms(5,9,11) by (simp_all add: outputs_ok_def)
  from respond_turn [OF assms(8,10) this(1) rng this(2), of wires 1 "opt_id opts"] obtain srv2 where
    srv2: "respond_all wires 1 (turn_requests (opt_id opts) ?i lines (fst ?cd) (snd ?cd)) (taken j (l_server l)) = Some srv2"
      "job_recorded (opt_id opts) ?i ?cd ?st (db srv2)"
    by (auto simp: turn_requests_def taken_def)
  have "list_all wire_ok (turn_requests (opt_id opts) ?i lines (fst ?cd) (snd ?cd))"
    using requests_ok [OF assms(4,6,7) rng lines(1)] assms(5) by (simp add: outputs_ok_def)
  from deliver_ok [of "l\<lparr>l_server := taken j (l_server l), l_stats := s\<rparr>", OF _ assms(2) this, of 1 srv2 h] srv2(1) assms(1)
  obtain s2 where "deliver h wires 1 (turn_requests (opt_id opts) ?i lines (fst ?cd) (snd ?cd))
      (l\<lparr>l_server := taken j (l_server l), l_stats := s\<rparr>) = l\<lparr>l_server := srv2, l_stats := s2\<rparr>" by auto
  then show ?thesis using srv2(2) sm assms(1) tr by simp
qed

subsection \<open>A run of the system\<close>

fun recorded_chain :: "string \<Rightarrow> (sjob \<times> int \<times> int) list \<Rightarrow> store \<Rightarrow> store \<Rightarrow> bool" where
  "recorded_chain sb [] st st' = (st' = st)"
| "recorded_chain sb ((j, cd) # jcs) st st' = (\<exists>st1. job_recorded sb (sj_id j) cd st st1 \<and> recorded_chain sb jcs st1 st')"

lemma recorded_chain_summary:
  assumes "recorded_chain sb jcs st st'" "distinct (map (sj_id \<circ> fst) jcs)" "board_ok st"
  shows "jobs_recorded sb jcs st st' \<and> (jcs = [] \<longrightarrow> st' = st)"
  using assms
proof (induction jcs arbitrary: st)
  case Nil
  then show ?case by (simp add: jobs_recorded_def)
next
  case (Cons jc jcs)
  obtain j code dur where jc: "jc = (j, code, dur)" using prod_cases3 by blast
  with Cons.prems obtain st1 where st1: "job_recorded sb (sj_id j) (code, dur) st st1" "recorded_chain sb jcs st1 st'" by auto
  have "board_ok st1" using st1(1) by (simp add: job_recorded_def)
  with Cons.IH [OF st1(2)] Cons.prems(2) have ih: "jobs_recorded sb jcs st1 st'" "jcs = [] \<Longrightarrow> st' = st1" by simp_all
  have other: "map_of st' k = map_of st1 k" if "k \<in> {status_key (sj_id j), result_key (sj_id j)}" for k
  proof -
    have "sj_id j \<notin> (sj_id \<circ> fst) ` set jcs" using Cons.prems(2) jc by simp
    with that have "k \<notin> {QUEUE, RESULTS, sandbox_status_key sb, sandbox_job_key sb} \<union> (\<Union>(j, cd) \<in> set jcs. job_keys (sj_id j))"
      by (auto simp: job_keys_def image_iff)
    with ih(1) show ?thesis unfolding jobs_recorded_def by blast
  qed
  have idle: "text_at (sandbox_status_key sb) ''idle'' st' \<and> map_of st' (sandbox_job_key sb) = None"
    using ih st1(1) by (cases "jcs = []") (auto simp: jobs_recorded_def job_recorded_def)
  have "text_at (status_key (sj_id j)) (verdict code) st'" "text_at (result_key (sj_id j)) (result_text code dur) st'"
    using st1(1) other by (simp_all add: job_recorded_def text_at_def)
  with ih(1) st1(1) idle show ?case by (auto simp: jobs_recorded_def job_recorded_def jc job_keys_def)
qed

definition fresh_job :: "store \<Rightarrow> sjob \<Rightarrow> bool" where
  "fresh_job st j = (list_key (log_key (sj_id j)) st \<and> list_at (log_key (sj_id j)) st = [])"

lemma fresh_job_frame:
  assumes "job_recorded sb i cd st st1" "fresh_job st j" "sj_id j \<noteq> i"
  shows "fresh_job st1 j"
proof -
  have "map_of st1 (log_key (sj_id j)) = map_of st (log_key (sj_id j))"
    using assms by (simp add: job_recorded_def)
  moreover have "umap_inv st1" using assms(1) by (auto simp: job_recorded_def board_ok_def list_key_umap)
  ultimately show ?thesis using assms(2) by (simp add: fresh_job_def list_key_def list_at_def)
qed

text \<open>The jobs of a queue and the turns that process them.\<close>

definition turn_ok :: "options \<Rightarrow> (turn \<times> (nat \<Rightarrow> wire)) \<times> sjob \<Rightarrow> bool" where
  "turn_ok opts p = (case p of ((t, wires), j) \<Rightarrow> timely wires \<and> job_ok j \<and> outputs_ok opts t j)"

definition outcomes :: "options \<Rightarrow> security_manager \<Rightarrow> (turn \<times> (nat \<Rightarrow> wire)) list \<Rightarrow> sjob list \<Rightarrow> (sjob \<times> int \<times> int) list" where
  "outcomes opts sm tws js = map2 (\<lambda>tw j. (j, job_outcome opts sm (fst tw) j)) tws js"

lemma system_run_chain:
  assumes "roomy h" "utf8_text (opt_id opts)" "length (opt_id opts) \<le> 1000"
    and "l_open l" "board_ok (db (l_server l))" "list_at QUEUE (db (l_server l)) = rev (map sj_payload js)"
    and "distinct (map sj_id js)" "list_all (fresh_job (db (l_server l))) js"
    and "length tws = length js" "list_all (turn_ok opts) (zip tws js)"
  shows "\<exists>calls st' nh' l'. system_run h opts sh tws st nh l = (calls, st', nh', l') \<and> l_open l' \<and>
    list_at QUEUE (db (l_server l')) = [] \<and>
    recorded_chain (opt_id opts) (outcomes opts (security_manager st) tws js) (db (l_server l)) (db (l_server l'))"
  using assms(4-10)
proof (induction js arbitrary: tws st nh l)
  case Nil
  then show ?case by (simp add: outcomes_def)
next
  case (Cons j js)
  then obtain t wires tws' where tws: "tws = (t, wires) # tws'" by (cases tws) auto
  have ok: "timely wires" "job_ok j" "outputs_ok opts t j" using Cons.prems(7) by (simp_all add: tws turn_ok_def)
  have q: "list_at QUEUE (db (l_server l)) = rev (map sj_payload js) @ [sj_payload j]" using Cons.prems(3) by simp
  have fr: "list_key (log_key (sj_id j)) (db (l_server l))" "list_at (log_key (sj_id j)) (db (l_server l)) = []"
    using Cons.prems(5) by (simp_all add: fresh_job_def)
  obtain calls st1 nh1 l1 where turn: "system_turn h opts sh (t, wires) st nh l = (calls, st1, nh1, l1)" "l_open l1"
      "security_manager st1 = security_manager st"
      "job_recorded (opt_id opts) (sj_id j) (job_outcome opts (security_manager st) t j) (db (l_server l)) (db (l_server l1))"
    using system_turn_job [OF Cons.prems(1) ok(1) assms(1) ok(2,3) assms(2,3) Cons.prems(2) q fr] by blast
  have "board_ok (db (l_server l1))" "list_at QUEUE (db (l_server l1)) = rev (map sj_payload js)"
    using turn(4) q by (simp_all add: job_recorded_def)
  moreover have "list_all (fresh_job (db (l_server l1))) js"
    using Cons.prems(4,5) by (auto simp: list_all_iff image_iff intro!: fresh_job_frame [OF turn(4)])
  moreover have "distinct (map sj_id js)" "length tws' = length js" "list_all (turn_ok opts) (zip tws' js)"
    using Cons.prems(4,6,7) by (simp_all add: tws)
  ultimately obtain calls' st2 nh2 l2 where "system_run h opts sh tws' st1 nh1 l1 = (calls', st2, nh2, l2)" "l_open l2"
      "list_at QUEUE (db (l_server l2)) = []"
      "recorded_chain (opt_id opts) (outcomes opts (security_manager st1) tws' js) (db (l_server l1)) (db (l_server l2))"
    using Cons.IH [OF turn(2)] by blast
  with turn show ?case by (auto simp: tws outcomes_def)
qed

subsection \<open>A connection that breaks\<close>

lemma closed_link:
  assumes "\<not> l_open l"
  shows "exchange h wr req l = (Inl Nullopt, l)" "deliver h wires n rs l = l"
    "system_turn h opts sh tw st nh l = ([], st, nh, l)" "system_run h opts sh tws st nh l = ([], st, nh, l)"
proof -
  show e: "exchange h wr req l = (Inl Nullopt, l)" for wr req using assms by (simp add: exchange_def)
  show d: "deliver h wires n rs l = l" for wires n rs by (induction rs arbitrary: n) (simp_all add: e)
  show t: "system_turn h opts sh tw st nh l = ([], st, nh, l)" for tw
    by (simp add: system_turn_def e loop_turn_def split: prod.split)
  show "system_run h opts sh tws st nh l = ([], st, nh, l)" by (induction tws) (simp_all add: t)
qed

text \<open>A request that the server does not read.\<close>

definition refused :: "wire \<Rightarrow> string list \<Rightarrow> bool" where
  "refused wr req = (READ_TIMEOUT \<le> w_gap wr \<or> \<not> list_all utf8_text req)"

lemma read_args_not_utf8:
  assumes "\<not> list_all utf8_text req" "\<forall>a \<in> set req. length a \<le> 500000"
  shows "\<exists>e. read_many read_arg (length req) (concat (map arg_bytes req)) = Inl e"
  using assms
proof (induction req)
  case (Cons a req)
  have n: "unat (of_nat (length a) :: u32) = length a" using Cons.prems(2) by (intro unat_of_nat_u32) simp
  show ?case
  proof (cases "utf8_text a")
    case True
    then have "arg_ok a" using Cons.prems(2) by (simp add: arg_ok_def utf8_text_def)
    then have "read_arg (arg_bytes a @ concat (map arg_bytes req)) = Inr (a, concat (map arg_bytes req))"
      using arg.dec_enc by simp
    with Cons True show ?thesis by auto
  next
    case False
    then have "read_arg (arg_bytes a @ concat (map arg_bytes req)) = Inl (Malformed ''invalid utf-8'')"
      using n by (simp add: read_arg_def arg_bytes_def utf8_text_def Let_def codec_simps)
    then show ?thesis by simp
  qed
qed simp

lemma exchange_refused:
  assumes "l_open l" "refused wr req" "sized req"
  shows "\<exists>s. snd (exchange h wr req l) = l\<lparr>l_stats := s, l_open := False\<rparr>"
proof (cases "READ_TIMEOUT \<le> w_gap wr")
  case True
  with assms(1) show ?thesis by (intro exI [of _ "l_stats l"]) (simp add: exchange_def)
next
  case False
  with assms(2) have bad: "\<not> list_all utf8_text req" by (simp add: refused_def)
  note len = sized_payload [OF assms(3)]
  have enc: "encode_request req = Inr (write_response (request_payload req))"
    using len by (intro encode_request_layout) simp
  have n: "unat (of_nat (length req) :: u32) = length req" using assms(3) by (intro unat_of_nat_u32) (simp add: sized_def)
  have m: "unat (of_nat (length (request_payload req)) :: u32) = length (request_payload req)"
    using len by (intro unat_of_nat_u32) simp
  have pl: "drop 4 (request_payload req) = concat (map arg_bytes req)"
    "u32_at (request_payload req) 0 = of_nat (length req)" "4 \<le> length (request_payload req)"
    by (simp_all add: request_payload_def codec_simps)
  obtain e where "read_many read_arg (length req) (concat (map arg_bytes req)) = Inl e"
    using read_args_not_utf8 [OF bad] assms(3) by (auto simp: sized_def)
  then have "read_request (write_response (request_payload req)) = Inl e"
    using len n m pl assms(3) by (simp add: read_request_def write_response_def Let_def codec_simps
        MAX_MSG_SIZE_def MAX_ARGS_def sized_def)
  with False assms(1) enc show ?thesis by (auto simp: exchange_def conn_turn_def intro!: exI [of _ "l_stats l"])
qed

text \<open>The first refused request is the end: the server has seen the ones before it.\<close>

lemma deliver_refused:
  assumes "l_open l" "list_all sized rs" "m < length rs" "refused (wires (k + m)) (rs ! m)"
    and "\<forall>n \<le> m. respond_all wires k (take n rs) (l_server l) \<noteq> None"
  shows "\<exists>n \<le> m. \<exists>srv s. respond_all wires k (take n rs) (l_server l) = Some srv \<and>
    deliver h wires k rs l = l\<lparr>l_server := srv, l_stats := s, l_open := False\<rparr>"
  using assms
proof (induction rs arbitrary: k l m)
  case (Cons r rs)
  show ?case
  proof (cases "refused (wires k) r")
    case True
    moreover have "sized r" using Cons.prems(2) by simp
    ultimately obtain s where s: "snd (exchange h (wires k) r l) = l\<lparr>l_stats := s, l_open := False\<rparr>"
      using exchange_refused [OF Cons.prems(1)] by blast
    then have "deliver h wires k (r # rs) l = l\<lparr>l_server := l_server l, l_stats := s, l_open := False\<rparr>"
      by (simp add: closed_link)
    then show ?thesis by (intro exI [of _ 0]) auto
  next
    case False
    with Cons.prems(4) obtain m' where m: "m = Suc m'" by (cases m) auto
    have "respond_all wires k (take 1 (r # rs)) (l_server l) \<noteq> None" using Cons.prems(5) m by auto
    then obtain v srv1 where r: "respond (w_env (wires k)) r (l_server l) = (Inr v, srv1)"
      by (auto split: sum.splits prod.splits)
    have ok: "w_gap (wires k) < READ_TIMEOUT" "wire_ok r"
      using False Cons.prems(2) by (auto simp: refused_def sized_def wire_ok_def list_all_iff)
    obtain s where s: "snd (exchange h (wires k) r l) = l\<lparr>l_server := srv1, l_stats := s\<rparr>"
      using exchange_ok(1) [OF Cons.prems(1) ok r] by blast
    have "\<forall>n \<le> m'. respond_all wires (k + 1) (take n rs) srv1 \<noteq> None"
    proof (intro allI impI)
      fix n assume "n \<le> m'"
      then have "respond_all wires k (take (Suc n) (r # rs)) (l_server l) \<noteq> None" using Cons.prems(5) m by blast
      then show "respond_all wires (k + 1) (take n rs) srv1 \<noteq> None" using r by simp
    qed
    then obtain n srv s2 where "n \<le> m'" "respond_all wires (k + 1) (take n rs) srv1 = Some srv"
      "deliver h wires (k + 1) rs (l\<lparr>l_server := srv1, l_stats := s\<rparr>) = l\<lparr>l_server := srv, l_stats := s2, l_open := False\<rparr>"
      using Cons.IH [of "l\<lparr>l_server := srv1, l_stats := s\<rparr>" m' "k + 1"] Cons.prems m by auto
    then show ?thesis using r s m by (intro exI [of _ "Suc n"]) auto
  qed
qed simp

text \<open>The requests of a turn before its result touch the log of the job and the keys of the sandbox only.\<close>

lemma respond_prefix:
  assumes "list_key (log_key i) (db srv)" "length (list_at (log_key i) (db srv)) + length lines < 2 ^ 62" "n \<le> length lines + 1"
  shows "\<exists>srv'. respond_all wires k (take n (turn_requests sb i lines code dur)) srv = Some srv' \<and>
    (\<forall>key. key \<notin> {log_key i, sandbox_status_key sb, sandbox_job_key sb} \<longrightarrow> map_of (db srv') key = map_of (db srv) key)"
proof (cases n)
  case (Suc n')
  let ?srv = "srv\<lparr>db := set_str (sandbox_job_key sb) i (set_str (sandbox_status_key sb) ''busy'' (db srv))\<rparr>"
  have "take n (turn_requests sb i lines code dur) = cmd_sandbox_claim sb i # map (cmd_job_log i) (take n' lines)"
    using Suc assms(3) by (simp add: turn_requests_def take_map)
  moreover have "list_key (log_key i) (db ?srv)" "length (list_at (log_key i) (db ?srv)) + length (take n' lines) < 2 ^ 62"
    using assms(1,2) by (simp_all add: inv_intros)
  ultimately show ?thesis
    using respond_logs [of i ?srv "take n' lines" wires "k + 1"] by (auto simp: respond_claim)
qed simp

lemma deliver_lost:
  fixes lines code dur sb i l
  defines "reqs \<equiv> turn_requests sb i lines code dur"
  assumes "l_open l" "list_key (log_key i) (db (l_server l))" "length (list_at (log_key i) (db (l_server l))) + length lines < 2 ^ 62"
    and "m \<le> length lines + 1" "list_all sized reqs" "refused (wires (m + 1)) (reqs ! m)"
  shows "\<exists>srv s. deliver h wires 1 reqs l = l\<lparr>l_server := srv, l_stats := s, l_open := False\<rparr> \<and>
    (\<forall>k. k \<notin> {log_key i, sandbox_status_key sb, sandbox_job_key sb} \<longrightarrow> map_of (db srv) k = map_of (db (l_server l)) k)"
proof -
  have seen: "\<exists>srv. respond_all wires 1 (take n reqs) (l_server l) = Some srv \<and>
      (\<forall>k. k \<notin> {log_key i, sandbox_status_key sb, sandbox_job_key sb} \<longrightarrow> map_of (db srv) k = map_of (db (l_server l)) k)"
    if "n \<le> m" for n
    using respond_prefix [OF assms(3,4), of n] that assms(5) by (simp add: reqs_def)
  have "m < length reqs" using assms(5) by (simp add: reqs_def turn_requests_def)
  moreover have "refused (wires (1 + m)) (reqs ! m)" using assms(7) by (simp add: add.commute)
  moreover have "\<forall>n \<le> m. respond_all wires 1 (take n reqs) (l_server l) \<noteq> None" using seen by fastforce
  ultimately obtain n srv s where n: "n \<le> m" "respond_all wires 1 (take n reqs) (l_server l) = Some srv"
    and d: "deliver h wires 1 reqs l = l\<lparr>l_server := srv, l_stats := s, l_open := False\<rparr>"
    using deliver_refused [OF assms(2,6)] by blast
  from seen [OF n(1)] n(2) have "\<forall>k. k \<notin> {log_key i, sandbox_status_key sb, sandbox_job_key sb} \<longrightarrow>
      map_of (db srv) k = map_of (db (l_server l)) k"
    by auto
  with d show ?thesis by blast
qed

subsection \<open>An example\<close>

definition demo_host :: Redis_Client.host where
  "demo_host = \<lparr>stack_frames = 2, alloc_ok = (\<lambda>n. True), response_size = 100\<rparr>"

definition demo_job :: sjob where
  "demo_job = \<lparr>sj_id = ''7'', sj_name = ''build'', sj_target = ''local'', sj_command = ''make'', sj_args = []\<rparr>"

definition demo_turn :: turn where
  "demo_turn = \<lparr>t_reply = None, t_clock = (\<lambda>n. 0), t_kernel = demo_kernel, t_duration = 12\<rparr>"

definition demo_link :: link where
  "demo_link = \<lparr>l_server = \<lparr>db = [(QUEUE, \<lparr>e_typ = VList [sj_payload demo_job], exp_at = None\<rparr>)], auth = new_auth_config\<rparr>,
     l_stats = new_stats, l_open = True\<rparr>"

text \<open>All exchanges come at once, except that one comes after a minute.\<close>

definition demo_wires :: "nat \<Rightarrow> nat \<Rightarrow> wire" where
  "demo_wires late n = \<lparr>w_env = demo_env, w_gap = (if n = late \<and> 0 < late then 60000 else 0)\<rparr>"

lemma demo_facts:
  "roomy demo_host" "job_ok demo_job" "l_open demo_link" "board_ok (db (l_server demo_link))"
  "list_at QUEUE (db (l_server demo_link)) = [sj_payload demo_job]" "fresh_job (db (l_server demo_link)) demo_job"
  "utf8_text (opt_id default_options)" "length (opt_id default_options) \<le> 1000" "timely (demo_wires 0)"
  "t_duration demo_turn = 12"
  "exec_result.exit_code (fst (job_run default_options demo_turn demo_job)) = 137"
  "snd (job_run default_options demo_turn demo_job) = [''hello '']"
  "job_permitted default_options (security_manager new_main_state) demo_job"
proof -
  show "roomy demo_host" by (simp add: roomy_def demo_host_def)
  show "job_ok demo_job"
    by (simp add: job_ok_def sj_ok_def no_bar_def demo_job_def sj_payload_def job_payload_def utf8_text_ascii)
  show "l_open demo_link" by (simp add: demo_link_def)
  show "board_ok (db (l_server demo_link))"
    by (simp add: demo_link_def board_ok_def list_key_def umap_inv_def QUEUE_def RESULTS_def)
  show "list_at QUEUE (db (l_server demo_link)) = [sj_payload demo_job]" by (simp add: demo_link_def list_at_def)
  show "fresh_job (db (l_server demo_link)) demo_job"
    by (simp add: demo_link_def fresh_job_def list_key_def list_at_def umap_inv_def QUEUE_def log_key_def)
  show "utf8_text (opt_id default_options)" "length (opt_id default_options) \<le> 1000"
    by (simp_all add: default_options_def utf8_text_ascii)
  show "timely (demo_wires 0)" by (simp add: timely_def demo_wires_def READ_TIMEOUT_def)
  show "t_duration demo_turn = 12" by (simp add: demo_turn_def)
  show "exec_result.exit_code (fst (job_run default_options demo_turn demo_job)) = 137"
    "snd (job_run default_options demo_turn demo_job) = [''hello '']"
    by (simp_all add: job_run_def demo_turn_def demo_kernel_def demo_job_def Sandbox_Exec.run_def exit_code_of_def
        WIFEXITED_def WIFSIGNALED_def WTERMSIG_def cleanup_def setup_cgroup_def new_sandbox_def Let_def)
  show "job_permitted default_options (security_manager new_main_state) demo_job"
    by (simp add: job_permitted_def validate_command_def get_default standard_def blank_profile_def new_main_state_def
        default_options_def demo_job_def)
qed

section \<open>Properties\<close>

text \<open>
  C2. The worker and the server process a queue of jobs. When the queue holds any jobs with distinct ids
  (no bars in their fields, text of moderate size, no log yet), and as many turns of the
  worker run in which no exchange comes later than the timeout and the output of the jobs is text, then the
  queue is empty afterwards and the connection is open; every job has the status and the result of
  its own execution (or the refusal of its command by the policy, exit code 126); the list of
  results got exactly one entry per job, in the order of submission; the worker is idle again without a
  claimed job; and no other key of the store has changed.
\<close>

theorem worker_serves_queue:
  assumes "roomy h" "utf8_text (opt_id opts)" "length (opt_id opts) \<le> 1000"
    and "l_open l" "board_ok (db (l_server l))" "list_at QUEUE (db (l_server l)) = rev (map sj_payload js)"
    and "distinct (map sj_id js)" "list_all (fresh_job (db (l_server l))) js"
    and "length tws = length js" "list_all (turn_ok opts) (zip tws js)"
  shows "\<exists>calls st' nh' l'. system_run h opts sh tws st nh l = (calls, st', nh', l') \<and> l_open l' \<and>
    list_at QUEUE (db (l_server l')) = [] \<and>
    jobs_recorded (opt_id opts) (outcomes opts (security_manager st) tws js) (db (l_server l)) (db (l_server l'))"
proof -
  have "map (sj_id \<circ> fst) (outcomes opts (security_manager st) tws js) = map sj_id js"
    using assms(9) unfolding outcomes_def by (induction tws js rule: list_induct2) simp_all
  then have "distinct (map (sj_id \<circ> fst) (outcomes opts (security_manager st) tws js))" using assms(7) by simp
  with system_run_chain [OF assms, of sh st nh] recorded_chain_summary [OF _ _ assms(5)] show ?thesis by blast
qed

theorem worker_serves_queue_witness:
  "\<exists>calls st' nh' l'. system_run demo_host default_options (failing_shell (\<lambda>c. False)) [(demo_turn, demo_wires 0)]
      new_main_state quiet_host demo_link = (calls, st', nh', l') \<and>
    list_at QUEUE (db (l_server l')) = [] \<and> text_at (status_key ''7'') ''failed'' (db (l_server l')) \<and>
    text_at (result_key ''7'') ''exit_code=137,duration_ms=12'' (db (l_server l'))"
proof -
  have out: "outputs_ok default_options demo_turn demo_job"
    by (simp add: outputs_ok_def demo_facts utf8_text_ascii)
  have o: "outcomes default_options (security_manager new_main_state) [(demo_turn, demo_wires 0)] [demo_job] =
      [(demo_job, 137, 12)]"
    by (simp add: outcomes_def job_outcome_def demo_facts)
  obtain calls st' nh' l' where "system_run demo_host default_options (failing_shell (\<lambda>c. False)) [(demo_turn, demo_wires 0)]
      new_main_state quiet_host demo_link = (calls, st', nh', l')" "list_at QUEUE (db (l_server l')) = []"
    "jobs_recorded (opt_id default_options) [(demo_job, 137, 12)] (db (l_server demo_link)) (db (l_server l'))"
    using worker_serves_queue [of demo_host default_options demo_link "[demo_job]" "[(demo_turn, demo_wires 0)]"
        "failing_shell (\<lambda>c. False)" new_main_state quiet_host]
    by (auto simp: demo_facts turn_ok_def out o)
  moreover have "result_text 137 12 = ''exit_code=137,duration_ms=12''" by code_simp
  ultimately show ?thesis
    by (intro exI) (auto simp: jobs_recorded_def demo_job_def verdict_def)
qed

text \<open>
  C12. The client understands every answer. Whatever the history of the server, and whatever request of any client it
  answers, a client with two stack frames and memory reads back exactly the value the server
  encoded, as long as the message is not over the limit of 64 MiB.
\<close>

theorem answers_readable:
  assumes "server_step\<^sup>*\<^sup>* new_server srv" "conn_turn env stream srv s = (Open, out, rest, srv', s')"
    and "length out \<le> 2 ^ 26" "2 \<le> stack_frames h" "\<forall>n. alloc_ok h n"
  shows "\<exists>r. out = write_response (encode r) \<and> read_back h out = Inr (client_view r)"
proof -
  have "store_wf (db srv)" using assms(1) by (rule reachable_wf)
  from conn_turn_ok(2) [OF this assms(2)] obtain r where r: "out = write_response (encode r)" "flat r" by auto
  have len: "length (encode r) \<le> 2 ^ 26" using assms(3) by (simp add: r(1) write_response_def)
  with fits_flat [OF r(2) len assms(4,5)] show ?thesis using r(1) read_back_fits assms(5) by auto
qed

theorem answers_readable_witness:
  "\<exists>c out rest srv s. conn_turn demo_env (write_response (request_payload [''job next''])) new_server new_stats = (c, out, rest, srv, s) \<and>
     read_back demo_host out = Inr (client_view SNil)"
proof -
  have "wire_ok [''job next'']" by (simp add: wire_ok_def sized_def utf8_text_ascii)
  then have "read_request (write_response (request_payload [''job next''])) = Inr ([''job next''], [])" by (rule wire_ok_request(2))
  moreover have "respond demo_env [''job next''] new_server = (Inr SNil, new_server)"
    by (simp add: respond_commands job_next_def rpop_def new_server_def new_store_def reply_def)
  ultimately have t: "conn_turn demo_env (write_response (request_payload [''job next''])) new_server new_stats =
      (Open, write_response (encode SNil), [], new_server, inc_cmd ''job next'' new_stats)"
    by (simp add: conn_turn_def dispatch_def)
  have "length (write_response (encode SNil)) \<le> 2 ^ 26" by (simp add: write_response_def)
  then obtain r where "write_response (encode SNil) = write_response (encode r)"
    "read_back demo_host (write_response (encode SNil)) = Inr (client_view r)"
    using answers_readable [OF rtranclp.rtrancl_refl t, of demo_host] by (auto simp: demo_host_def)
  moreover from this(1) have "r = SNil"
    by (cases r) (auto simp: write_response_def append_eq_append_conv SER_NIL_def SER_ERR_def SER_STR_def SER_INT_def SER_DBL_def SER_ARR_def)
  ultimately show ?thesis using t by auto
qed

text \<open>
  C7. A job whose result cannot be delivered is lost. Let the worker take a job, and let any of its requests
  up to the result be refused: because it comes later than the read timeout (a job that is silent for thirty
  seconds), or because it is not UTF-8 (a piece of output that is not text, or whose first 1000
  bytes end inside a character). Then the server closes the connection: the job stays \<^verbatim>\<open>running\<close>, has no
  result and no entry in the list of results, and however many turns follow, nothing of the worker
  reaches the server again.
\<close>

theorem undelivered_result_loses_job:
  assumes "l_open l" "w_gap (wires 0) < READ_TIMEOUT" "roomy h" "job_ok j"
    and "length (snd (job_run opts t j)) < 2 ^ 60" "t_duration t < 2 ^ 60" "length (opt_id opts) \<le> 1000"
    and "board_ok (db (l_server l))" "list_at QUEUE (db (l_server l)) = xs @ [sj_payload j]" "fresh_job (db (l_server l)) j"
    and "reqs = tl (fst (loop_turn opts sh (t\<lparr>t_reply := Some (client_view (job_reply j))\<rparr>) st nh))"
    and "m + 1 < length reqs" "refused (wires (m + 1)) (reqs ! m)"
  shows "\<exists>calls st' nh' l'. system_turn h opts sh (t, wires) st nh l = (calls, st', nh', l') \<and> \<not> l_open l' \<and>
    text_at (status_key (sj_id j)) ''running'' (db (l_server l')) \<and>
    map_of (db (l_server l')) (result_key (sj_id j)) = map_of (db (l_server l)) (result_key (sj_id j)) \<and>
    list_at RESULTS (db (l_server l')) = list_at RESULTS (db (l_server l)) \<and>
    (\<forall>tws. system_run h opts sh tws st' nh' l' = ([], st', nh', l'))"
proof -
  let ?st = "db (l_server l)" and ?i = "sj_id j" and ?cd = "job_outcome opts (security_manager st) t j"
  have q: "list_key QUEUE ?st" using assms(8) by (simp add: board_ok_def)
  obtain s where l1: "exchange h (wires 0) cmd_job_next l =
      (Inr (client_view (job_reply j)), l\<lparr>l_server := taken j (l_server l), l_stats := s\<rparr>)"
    using poll_job [OF assms(1-4) q assms(9)] by blast
  let ?l1 = "l\<lparr>l_server := taken j (l_server l), l_stats := s\<rparr>"
  obtain lines calls st' nh' where tr: "system_turn h opts sh (t, wires) st nh l = (calls, st', nh', deliver h wires 1 reqs ?l1)"
    and reqs: "reqs = turn_requests (opt_id opts) ?i lines (fst ?cd) (snd ?cd)"
    and lines: "set lines \<subseteq> own_lines \<union> take 1000 ` set (snd (job_run opts t j))"
      "length lines \<le> 2 + length (snd (job_run opts t j))"
    using system_turn_poll [where wires = wires, OF l1, of opts sh t st nh] assms(11) by metis
  have "i64_range (fst ?cd)" "i64_range (snd ?cd)" using outcome_range assms(6) by simp_all
  from requests_sized [OF assms(4,7) this lines(1)] have sz: "list_all sized reqs" unfolding reqs .
  have log: "list_key (log_key ?i) (db (l_server ?l1))" "length (list_at (log_key ?i) (db (l_server ?l1))) + length lines < 2 ^ 62"
    using assms(5,10) lines(2) by (simp_all add: taken_def fresh_job_def inv_intros)
  have "m \<le> length lines + 1" using assms(12) by (simp add: reqs turn_requests_def)
  then obtain srv s2 where d: "deliver h wires 1 reqs ?l1 = l\<lparr>l_server := srv, l_stats := s2, l_open := False\<rparr>"
    and frame: "\<And>k. k \<notin> {log_key ?i, sandbox_status_key (opt_id opts), sandbox_job_key (opt_id opts)} \<Longrightarrow>
      map_of (db srv) k = map_of (db (taken j (l_server l))) k"
    using deliver_lost [OF _ log _ sz [unfolded reqs], of m wires h] assms(1,13) unfolding reqs by auto
  have "text_at (status_key ?i) ''running'' (db srv)" "map_of (db srv) (result_key ?i) = map_of ?st (result_key ?i)"
    "list_at RESULTS (db srv) = list_at RESULTS ?st"
    using frame by (simp_all add: text_at_def taken_def list_at_def)
  then show ?thesis using tr d by (simp add: closed_link)
qed

theorem undelivered_result_loses_job_witness:
  "\<exists>calls st' nh' l'. system_turn demo_host default_options (failing_shell (\<lambda>c. False)) (demo_turn, demo_wires 1)
      new_main_state quiet_host demo_link = (calls, st', nh', l') \<and> \<not> l_open l' \<and>
    text_at (status_key ''7'') ''running'' (db (l_server l'))"
proof -
  let ?sh = "failing_shell (\<lambda>c. False)" and ?t = "demo_turn\<lparr>t_reply := Some (client_view (job_reply demo_job))\<rparr>"
  let ?reqs = "tl (fst (loop_turn default_options ?sh ?t new_main_state quiet_host))"
  have "0 + 1 < length ?reqs"
    using loop_turn_job [of ?t demo_job default_options ?sh new_main_state quiet_host] by auto
  moreover have "refused (demo_wires 1 (0 + 1)) (?reqs ! 0)" "w_gap (demo_wires 1 0) < READ_TIMEOUT"
    by (simp_all add: refused_def demo_wires_def READ_TIMEOUT_def)
  moreover have "length (snd (job_run default_options demo_turn demo_job)) < 2 ^ 60" "t_duration demo_turn < 2 ^ 60"
    by (simp_all add: demo_facts)
  ultimately show ?thesis
    using undelivered_result_loses_job [of demo_link "demo_wires 1" demo_host demo_job default_options demo_turn "[]" ?reqs ?sh
        new_main_state quiet_host 0]
    by (auto simp: demo_facts demo_job_def [symmetric]) (auto simp: demo_job_def)
qed

end
