(* ===== verification/Cluster.thy ===== *)
theory Cluster
  imports System
begin

section \<open>Several workers on one server\<close>

text \<open>
  Any number of worker programs (\<^verbatim>\<open>sandbox/src/main.cpp\<close>), each with a connection of its own, on one server
  (\<^verbatim>\<open>redisdb/src/server.rs\<close>, \<^verbatim>\<open>handler.rs\<close>). The workers take turns in any order, exchange by exchange: a \<open>schedule\<close> says which
  worker moves next, what its kernel does in the turn that begins with the move, and how the
  exchange fares. A worker whose requests are all sent polls for the next job; what it sends for the
  job is what the main loop of \<open>Job_Loop\<close> sends, since the loop looks at no answer but that of the poll.
\<close>

subsection \<open>The cluster\<close>

record 'w member =
  m_opts :: options
  m_main :: main_state
  m_net :: "'w Netns.host"
  m_todo :: "string list list"
  m_open :: bool

record 'w cluster =
  c_members :: "'w member list"
  c_server :: server
  c_stats :: stats

datatype event = Polled nat turn "response option" | Sent nat "string list"

definition link_of :: "'w cluster \<Rightarrow> 'w member \<Rightarrow> link" where
  "link_of c m = \<lparr>l_server = c_server c, l_stats = c_stats c, l_open = m_open m\<rparr>"

text \<open>The state after an exchange of worker \<open>i\<close>.\<close>

definition with_link :: "nat \<Rightarrow> 'w member \<Rightarrow> link \<Rightarrow> 'w cluster \<Rightarrow> 'w cluster" where
  "with_link i m l c = \<lparr>c_members = (c_members c)[i := m\<lparr>m_open := l_open l\<rparr>], c_server = l_server l, c_stats = l_stats l\<rparr>"

definition member_move ::
  "Redis_Client.host \<Rightarrow> 'w shell \<Rightarrow> nat \<times> turn \<times> wire \<Rightarrow> 'w cluster \<Rightarrow> event \<times> 'w cluster" where
  "member_move h sh s c =
     (case s of (i, t, wr) \<Rightarrow>
      let m = c_members c ! i in
      case m_todo m of
        [] \<Rightarrow>
          (case exchange h wr cmd_job_next (link_of c m) of (r, l) \<Rightarrow>
             let reply = (case r of Inr v \<Rightarrow> Some v | Inl _ \<Rightarrow> None) in
             case loop_turn (m_opts m) sh (t\<lparr>t_reply := reply\<rparr>) (m_main m) (m_net m) of (reqs, calls, st', nh') \<Rightarrow>
               (Polled i t reply, with_link i (m\<lparr>m_main := st', m_net := nh', m_todo := tl reqs\<rparr>) l c))
      | req # reqs \<Rightarrow>
          (case exchange h wr req (link_of c m) of (r, l) \<Rightarrow> (Sent i req, with_link i (m\<lparr>m_todo := reqs\<rparr>) l c)))"

fun cluster_run ::
  "Redis_Client.host \<Rightarrow> 'w shell \<Rightarrow> (nat \<times> turn \<times> wire) list \<Rightarrow> 'w cluster \<Rightarrow> event list \<times> 'w cluster" where
  "cluster_run h sh [] c = ([], c)"
| "cluster_run h sh (s # ss) c =
     (case member_move h sh s c of (e, c1) \<Rightarrow> (case cluster_run h sh ss c1 of (es, c2) \<Rightarrow> (e # es, c2)))"

subsection \<open>Specification vocabulary\<close>

text \<open>The jobs that were taken: by which worker, in which of its turns.\<close>

fun job_taken :: "event \<Rightarrow> (nat \<times> turn \<times> job) list" where
  "job_taken (Polled i t (Some v)) = (case parse_job v of Some j \<Rightarrow> [(i, t, j)] | None \<Rightarrow> [])"
| "job_taken e = []"

definition jobs_taken :: "event list \<Rightarrow> (nat \<times> turn \<times> job) list" where
  "jobs_taken es = concat (map job_taken es)"

abbreviation c_store :: "'w cluster \<Rightarrow> store" where
  "c_store c \<equiv> db (c_server c)"

text \<open>What the execution of a job by a worker in a turn gives, and that the server has it.\<close>

definition outcome_by :: "'w cluster \<Rightarrow> nat \<times> turn \<times> sjob \<Rightarrow> int \<times> int" where
  "outcome_by c e = (case e of (i, t, j) \<Rightarrow>
     job_outcome (m_opts (c_members c ! i)) (security_manager (m_main (c_members c ! i))) t j)"

definition entry_by :: "'w cluster \<Rightarrow> nat \<times> turn \<times> sjob \<Rightarrow> string" where
  "entry_by c e = result_entry (sj_id (snd (snd e))) (fst (outcome_by c e)) (snd (outcome_by c e))"

definition on_board :: "string \<Rightarrow> int \<times> int \<Rightarrow> store \<Rightarrow> bool" where
  "on_board i cd st = (text_at (status_key i) (verdict (fst cd)) st \<and> text_at (result_key i) (result_text (fst cd) (snd cd)) st)"

text \<open>A cluster of workers before their first turn and a queue with new jobs.\<close>

definition member_ok :: "'w member \<Rightarrow> bool" where
  "member_ok m = (m_open m \<and> utf8_text (opt_id (m_opts m)) \<and> length (opt_id (m_opts m)) \<le> 1000)"

definition ready :: "sjob list \<Rightarrow> 'w cluster \<Rightarrow> bool" where
  "ready js c =
     (list_all (\<lambda>m. member_ok m \<and> m_todo m = []) (c_members c) \<and> board_ok (c_store c) \<and>
      list_at QUEUE (c_store c) = rev (map sj_payload js) \<and> distinct (map sj_id js) \<and>
      list_all job_ok js \<and> list_all (fresh_job (c_store c)) js)"

text \<open>A move in which the exchange is in time and the output of the job is text.\<close>

definition move_ok :: "'w cluster \<Rightarrow> sjob list \<Rightarrow> nat \<times> turn \<times> wire \<Rightarrow> bool" where
  "move_ok c js s = (case s of (i, t, wr) \<Rightarrow> i < length (c_members c) \<and> w_gap wr < READ_TIMEOUT \<and>
     list_all (outputs_ok (m_opts (c_members c ! i)) t) js)"

definition at_rest :: "'w cluster \<Rightarrow> bool" where
  "at_rest c = (list_all (\<lambda>m. m_todo m = []) (c_members c) \<and> list_at QUEUE (c_store c) = [])"

section \<open>Lemmas\<close>

subsection \<open>Parts of the store\<close>

definition untouched :: "string set \<Rightarrow> store \<Rightarrow> store \<Rightarrow> bool" where
  "untouched ks st st' = (umap_inv st' \<and> (\<forall>k. k \<notin> ks \<longrightarrow> map_of st' k = map_of st k))"

lemma untouched_list:
  "untouched ks st st' \<Longrightarrow> k \<notin> ks \<Longrightarrow> list_at k st' = list_at k st \<and> (list_key k st \<longrightarrow> list_key k st')"
  by (auto simp: untouched_def list_at_def list_key_def)

lemma untouched_board: "untouched ks st st' \<Longrightarrow> QUEUE \<notin> ks \<Longrightarrow> RESULTS \<notin> ks \<Longrightarrow> board_ok st \<Longrightarrow> board_ok st'"
  by (simp add: board_ok_def untouched_list)

lemma untouched_fresh: "untouched ks st st' \<Longrightarrow> log_key (sj_id j) \<notin> ks \<Longrightarrow> fresh_job st j \<Longrightarrow> fresh_job st' j"
  by (simp add: fresh_job_def untouched_list)

lemma untouched_on_board:
  "untouched ks st st' \<Longrightarrow> status_key i \<notin> ks \<Longrightarrow> result_key i \<notin> ks \<Longrightarrow> on_board i cd st \<Longrightarrow> on_board i cd st'"
  by (simp add: untouched_def on_board_def text_at_def)

text \<open>A worker in the middle of a job: what it has still to send, and the log it writes to.\<close>

definition at_work :: "string \<Rightarrow> sjob \<Rightarrow> int \<times> int \<Rightarrow> string list list \<Rightarrow> store \<Rightarrow> bool" where
  "at_work sb j cd todo st =
     (\<exists>pre lines. pre \<in> {[], [cmd_sandbox_claim sb (sj_id j)]} \<and>
        todo = pre @ map (cmd_job_log (sj_id j)) lines @ [cmd_job_result (sj_id j) (fst cd) (snd cd), cmd_sandbox_release sb] \<and>
        list_key (log_key (sj_id j)) st \<and> length (list_at (log_key (sj_id j)) st) + length lines < 2 ^ 62)"

lemma untouched_at_work: "untouched ks st st' \<Longrightarrow> log_key (sj_id j) \<notin> ks \<Longrightarrow> at_work sb j cd todo st \<Longrightarrow> at_work sb j cd todo st'"
  by (fastforce simp: at_work_def untouched_list)

subsection \<open>The effect of a request\<close>

lemma exchange_effect:
  assumes "m_open m" "w_gap wr < READ_TIMEOUT" "wire_ok req" "respond (w_env wr) req (c_server c) = (Inr r, srv)"
  shows "\<exists>s. snd (exchange h wr req (link_of c m)) = \<lparr>l_server = srv, l_stats = s, l_open = True\<rparr>"
  using exchange_ok(1) [of "link_of c m" wr req r srv h] assms by (auto simp: link_of_def)

lemma claim_effect:
  "umap_inv (db srv) \<Longrightarrow> untouched {sandbox_status_key sb, sandbox_job_key sb} (db srv) (db (snd (respond env (cmd_sandbox_claim sb i) srv)))"
  by (simp add: respond_claim untouched_def set_str_def inv_intros) (simp add: update_conv')

lemma release_effect:
  "umap_inv (db srv) \<Longrightarrow> untouched {sandbox_status_key sb, sandbox_job_key sb} (db srv) (db (snd (respond env (cmd_sandbox_release sb) srv)))"
  by (simp add: respond_release untouched_def) (simp add: set_str_def sdel_def inv_intros)

lemma log_effect:
  assumes "list_key (log_key i) (db srv)" "length (list_at (log_key i) (db srv)) < 2 ^ 62"
  shows "\<exists>srv'. respond env (cmd_job_log i line) srv = (Inr (SInt 1), srv') \<and> untouched {log_key i} (db srv) (db srv') \<and>
    list_key (log_key i) (db srv') \<and> length (list_at (log_key i) (db srv')) = Suc (length (list_at (log_key i) (db srv)))"
proof -
  let ?st = "snd (job_log env [''job log'', i, line] (db srv))"
  note l = job_log_list [OF assms, of env line]
  have "map_of ?st k = map_of (db srv) k" if "k \<noteq> log_key i" for k
    using that lrange_all [OF assms]
    by (simp add: job_log_def reply_int_def reply_def Let_def map_of_fold_lpush_other map_of_lpush_other)
  with l list_key_umap [OF l(3)] show ?thesis
    by (intro exI [of _ "srv\<lparr>db := ?st\<rparr>"]) (simp add: cmd_job_log_def respond_commands untouched_def prod_eq_iff)
qed

lemma result_effect:
  assumes "i64_range (fst cd)" "i64_range (snd cd)" "board_ok (db srv)"
  shows "\<exists>srv'. respond env (cmd_job_result i (fst cd) (snd cd)) srv = (Inr (SStr (verdict (fst cd))), srv') \<and>
    untouched {RESULTS, status_key i, result_key i} (db srv) (db srv') \<and> board_ok (db srv') \<and> on_board i cd (db srv') \<and>
    list_at RESULTS (db srv') = result_entry i (fst cd) (snd cd) # list_at RESULTS (db srv) \<and>
    list_at QUEUE (db srv') = list_at QUEUE (db srv)"
proof -
  let ?st = "set_str (result_key i) (result_text (fst cd) (snd cd)) (set_str (status_key i) (verdict (fst cd)) (db srv))"
  have k: "list_key RESULTS ?st" "list_at RESULTS ?st = list_at RESULTS (db srv)" "list_key QUEUE ?st"
    using assms(3) by (simp_all add: board_ok_def inv_intros)
  let ?st' = "put_value RESULTS (VList (result_entry i (fst cd) (snd cd) # list_at RESULTS (db srv))) ?st"
  have "board_ok ?st'" using k by (simp add: board_ok_def inv_intros)
  moreover have "umap_inv ?st'" using list_key_umap [of RESULTS ?st'] k(1) by (simp add: inv_intros)
  ultimately show ?thesis
    using lpush_list [OF k(1)] k(2)
    by (intro exI [of _ "srv\<lparr>db := ?st'\<rparr>"]) (simp add: respond_result [OF assms(1,2)] untouched_def on_board_def text_at_def)
qed

subsection \<open>The invariant of the cluster\<close>

text \<open>
  The bookkeeping of a run: the jobs taken, the jobs reported, in their order, and the job each
  worker has taken and not yet reported.
\<close>

record book =
  b_taken :: "(nat \<times> turn \<times> sjob) list"
  b_reported :: "(nat \<times> turn \<times> sjob) list"
  b_current :: "nat \<Rightarrow> (turn \<times> sjob) option"

definition book_ok :: "sjob list \<Rightarrow> sjob list \<Rightarrow> 'w cluster \<Rightarrow> book \<Rightarrow> bool" where
  "book_ok js rest c0 b =
     (map (snd \<circ> snd) (b_taken b) @ rest = js \<and> distinct (b_reported b) \<and>
      set (b_taken b) = set (b_reported b) \<union> {(i, t, j). b_current b i = Some (t, j)} \<and>
      (\<forall>i t j. b_current b i = Some (t, j) \<longrightarrow> i < length (c_members c0) \<and> (i, t, j) \<notin> set (b_reported b)) \<and>
      (\<forall>(i, t, j) \<in> set (b_taken b). outputs_ok (m_opts (c_members c0 ! i)) t j))"

definition board_inv :: "sjob list \<Rightarrow> 'w cluster \<Rightarrow> book \<Rightarrow> store \<Rightarrow> bool" where
  "board_inv rest c0 b st =
     (board_ok st \<and> list_at QUEUE st = rev (map sj_payload rest) \<and> list_all (fresh_job st) rest \<and>
      list_at RESULTS st = rev (map (entry_by c0) (b_reported b)) @ list_at RESULTS (c_store c0) \<and>
      (\<forall>e \<in> set (b_reported b). on_board (sj_id (snd (snd e))) (outcome_by c0 e) st))"

definition member_inv :: "'w cluster \<Rightarrow> book \<Rightarrow> store \<Rightarrow> nat \<Rightarrow> 'w member \<Rightarrow> bool" where
  "member_inv c0 b st i m =
     (m_open m \<and> m_opts m = m_opts (c_members c0 ! i) \<and>
      security_manager (m_main m) = security_manager (m_main (c_members c0 ! i)) \<and> list_all wire_ok (m_todo m) \<and>
      (case b_current b i of
         None \<Rightarrow> m_todo m \<in> {[], [cmd_sandbox_release (opt_id (m_opts m))]}
       | Some (t, j) \<Rightarrow> at_work (opt_id (m_opts m)) j (outcome_by c0 (i, t, j)) (m_todo m) st))"

definition cluster_inv :: "sjob list \<Rightarrow> sjob list \<Rightarrow> 'w cluster \<Rightarrow> book \<Rightarrow> 'w cluster \<Rightarrow> bool" where
  "cluster_inv js rest c0 b c =
     (book_ok js rest c0 b \<and> board_inv rest c0 b (c_store c) \<and> length (c_members c) = length (c_members c0) \<and>
      (\<forall>i < length (c_members c). member_inv c0 b (c_store c) i (c_members c ! i)))"

lemma inv_start:
  assumes "ready js c"
  shows "cluster_inv js js c \<lparr>b_taken = [], b_reported = [], b_current = (\<lambda>i. None)\<rparr> c"
  using assms by (auto simp: ready_def cluster_inv_def book_ok_def board_inv_def member_inv_def list_all_iff member_ok_def)

text \<open>Two entries of the book with the same job are one.\<close>

lemma book_same_job:
  assumes "book_ok js rest c0 b" "distinct (map sj_id js)" "e \<in> set (b_taken b)" "e' \<in> set (b_taken b)"
    and "sj_id (snd (snd e)) = sj_id (snd (snd e'))"
  shows "e = e'"
proof -
  have "map (sj_id \<circ> snd \<circ> snd) (b_taken b) @ map sj_id rest = map sj_id js"
    using assms(1) unfolding book_ok_def by (metis comp_assoc map_append map_map)
  with assms(2) have "distinct (map (sj_id \<circ> snd \<circ> snd) (b_taken b))" by (metis distinct_append)
  with assms(3-5) show ?thesis by (auto simp: distinct_map inj_on_def)
qed

lemma book_rest_other:
  assumes "book_ok js rest c0 b" "distinct (map sj_id js)" "e \<in> set (b_taken b)" "j \<in> set rest"
  shows "sj_id (snd (snd e)) \<noteq> sj_id j"
proof -
  have "map (sj_id \<circ> snd \<circ> snd) (b_taken b) @ map sj_id rest = map sj_id js"
    using assms(1) unfolding book_ok_def by (metis comp_assoc map_append map_map)
  with assms(2) have "set (map (sj_id \<circ> snd \<circ> snd) (b_taken b)) \<inter> set (map sj_id rest) = {}"
    by (metis distinct_append)
  with assms(3,4) show ?thesis by auto
qed

lemma book_current_other:
  assumes "book_ok js rest c0 b" "distinct (map sj_id js)" "b_current b i = Some (t, j)" "b_current b i' = Some (t', j')" "i \<noteq> i'"
  shows "sj_id j \<noteq> sj_id j'"
  using book_same_job [OF assms(1,2), of "(i, t, j)" "(i', t', j')"] assms by (auto simp: book_ok_def)

lemma book_reported_other:
  assumes "book_ok js rest c0 b" "distinct (map sj_id js)" "b_current b i = Some (t, j)" "e \<in> set (b_reported b)"
  shows "sj_id (snd (snd e)) \<noteq> sj_id j"
  using book_same_job [OF assms(1,2), of "(i, t, j)" e] assms by (auto simp: book_ok_def)

lemma book_current:
  assumes "book_ok js rest c0 b" "b_current b i = Some (t, j)" shows "outputs_ok (m_opts (c_members c0 ! i)) t j"
proof -
  have "(i, t, j) \<in> set (b_taken b)" using assms by (simp add: book_ok_def)
  with assms(1) show ?thesis unfolding book_ok_def by fastforce
qed

text \<open>Members whose keys are not touched.\<close>

lemma member_inv_other:
  assumes "member_inv c0 b st i m" "untouched ks st st'" "b_current b' i = b_current b i"
    and "\<And>t j. b_current b i = Some (t, j) \<Longrightarrow> log_key (sj_id j) \<notin> ks"
  shows "member_inv c0 b' st' i m"
  using assms by (auto simp: member_inv_def untouched_at_work split: option.splits)

lemma member_inv_book: "b_current b i = b_current b' i \<Longrightarrow> member_inv c0 b st i m = member_inv c0 b' st i m"
  by (simp add: member_inv_def)

lemma members_update:
  assumes "cluster_inv js rest c0 b c" "i < length (c_members c)" "member_inv c0 b' st' i m"
    and "untouched ks (c_store c) st'" "\<And>k. k \<noteq> i \<Longrightarrow> b_current b' k = b_current b k"
    and "\<And>k t j. k \<noteq> i \<Longrightarrow> b_current b k = Some (t, j) \<Longrightarrow> log_key (sj_id j) \<notin> ks"
  shows "\<forall>k < length (c_members c). member_inv c0 b' st' k ((c_members c)[i := m] ! k)"
proof (intro allI impI)
  fix k assume k: "k < length (c_members c)"
  show "member_inv c0 b' st' k ((c_members c)[i := m] ! k)"
  proof (cases "k = i")
    case True with assms(2,3) show ?thesis by simp
  next
    case False
    moreover have "member_inv c0 b (c_store c) k (c_members c ! k)" using assms(1) k by (simp add: cluster_inv_def)
    ultimately have "member_inv c0 b' st' k (c_members c ! k)"
      using assms(5,6) by (intro member_inv_other [OF _ assms(4)]) auto
    with False show ?thesis by simp
  qed
qed

subsection \<open>Moves\<close>

text \<open>A step that writes to the keys of sandboxes and to the log of the worker's own job only.\<close>

definition quiet :: "book \<Rightarrow> nat \<Rightarrow> string set \<Rightarrow> bool" where
  "quiet b i ks = (\<forall>k \<in> ks. (\<exists>sb. k = sandbox_status_key sb \<or> k = sandbox_job_key sb) \<or>
     (\<exists>t j. b_current b i = Some (t, j) \<and> k = log_key (sj_id j)))"

lemma quiet_step:
  assumes inv: "cluster_inv js rest c0 b c" and d: "distinct (map sj_id js)" and i: "i < length (c_members c)"
    and u: "untouched ks (c_store c) (db (l_server l))" and q: "quiet b i ks"
    and m: "member_inv c0 b (db (l_server l)) i (m\<lparr>m_open := l_open l\<rparr>)"
  shows "cluster_inv js rest c0 b (with_link i m l c)"
proof -
  have bk: "book_ok js rest c0 b" and bd: "board_inv rest c0 b (c_store c)" using inv by (simp_all add: cluster_inv_def)
  have own: "(i, t, j) \<in> set (b_taken b)" if "b_current b i = Some (t, j)" for t j using bk that by (auto simp: book_ok_def)
  have no: "QUEUE \<notin> ks" "RESULTS \<notin> ks" "status_key a \<notin> ks" "result_key a \<notin> ks" for a
    using q by (fastforce simp: quiet_def)+
  have lg: "log_key (sj_id j') \<notin> ks" if "\<And>t j. b_current b i = Some (t, j) \<Longrightarrow> sj_id j \<noteq> sj_id j'" for j'
    using q that by (fastforce simp: quiet_def)
  have "fresh_job (db (l_server l)) j'" if "j' \<in> set rest" for j'
  proof (rule untouched_fresh [OF u lg])
    show "sj_id j \<noteq> sj_id j'" if "b_current b i = Some (t, j)" for t j
      using book_rest_other [OF bk d own [OF that] \<open>j' \<in> set rest\<close>] by simp
    show "fresh_job (c_store c) j'" using bd that by (simp add: board_inv_def list_all_iff)
  qed
  then have "board_inv rest c0 b (db (l_server l))"
    using bd untouched_board [OF u no(1,2)] untouched_list [OF u no(1)] untouched_list [OF u no(2)] untouched_on_board [OF u no(3,4)]
    by (auto simp: board_inv_def list_all_iff)
  moreover have "\<forall>k < length (c_members c). member_inv c0 b (db (l_server l)) k ((c_members c)[i := m\<lparr>m_open := l_open l\<rparr>] ! k)"
  proof (rule members_update [OF inv i m u])
    show "log_key (sj_id j) \<notin> ks" if "k \<noteq> i" "b_current b k = Some (t, j)" for k t j
      using lg [of j] book_current_other [OF bk d _ that(2)] that(1) by blast
  qed simp
  ultimately show ?thesis using inv by (simp add: cluster_inv_def with_link_def)
qed

lemma report_step:
  assumes inv: "cluster_inv js rest c0 b c" and d: "distinct (map sj_id js)" and i: "i < length (c_members c)"
    and cur: "b_current b i = Some (t, j)"
    and u: "untouched {RESULTS, status_key (sj_id j), result_key (sj_id j)} (c_store c) (db (l_server l))"
    and r: "board_ok (db (l_server l))" "on_board (sj_id j) (outcome_by c0 (i, t, j)) (db (l_server l))"
      "list_at RESULTS (db (l_server l)) = entry_by c0 (i, t, j) # list_at RESULTS (c_store c)"
    and m: "member_inv c0 (b\<lparr>b_current := (b_current b)(i := None)\<rparr>) (db (l_server l)) i (m\<lparr>m_open := l_open l\<rparr>)"
  shows "cluster_inv js rest c0 (b\<lparr>b_reported := b_reported b @ [(i, t, j)], b_current := (b_current b)(i := None)\<rparr>) (with_link i m l c)"
    (is "cluster_inv js rest c0 ?b _")
proof -
  have bk: "book_ok js rest c0 b" and bd: "board_inv rest c0 b (c_store c)" using inv by (simp_all add: cluster_inv_def)
  have "book_ok js rest c0 ?b" using bk cur by (auto simp: book_ok_def split: if_splits)
  moreover have "on_board (sj_id (snd (snd e))) (outcome_by c0 e) (db (l_server l))" if "e \<in> set (b_reported b)" for e
    using bd that book_reported_other [OF bk d cur that] by (intro untouched_on_board [OF u]) (auto simp: board_inv_def)
  with bd r have "board_inv rest c0 ?b (db (l_server l))"
    using untouched_list [OF u, of QUEUE] untouched_fresh [OF u] by (simp add: board_inv_def list_all_iff)
  moreover have "\<forall>k < length (c_members c). member_inv c0 ?b (db (l_server l)) k ((c_members c)[i := m\<lparr>m_open := l_open l\<rparr>] ! k)"
  proof (rule members_update [OF inv i _ u])
    show "member_inv c0 ?b (db (l_server l)) i (m\<lparr>m_open := l_open l\<rparr>)" using m by (subst member_inv_book) simp_all
  qed simp_all
  ultimately show ?thesis using inv by (simp add: cluster_inv_def with_link_def)
qed

lemma take_step:
  assumes inv: "cluster_inv js (j # rest) c0 b c" and d: "distinct (map sj_id js)" and i: "i < length (c_members c)"
    and cur: "b_current b i = None" and o: "outputs_ok (m_opts (c_members c0 ! i)) t j"
    and u: "untouched {QUEUE, status_key (sj_id j)} (c_store c) (db (l_server l))"
    and r: "list_key QUEUE (db (l_server l))" "list_at QUEUE (db (l_server l)) = rev (map sj_payload rest)"
    and m: "member_inv c0 (b\<lparr>b_current := (b_current b)(i := Some (t, j))\<rparr>) (db (l_server l)) i (m\<lparr>m_open := l_open l\<rparr>)"
  shows "cluster_inv js rest c0 (b\<lparr>b_taken := b_taken b @ [(i, t, j)], b_current := (b_current b)(i := Some (t, j))\<rparr>) (with_link i m l c)"
    (is "cluster_inv js rest c0 ?b _")
proof -
  have bk: "book_ok js (j # rest) c0 b" and bd: "board_inv (j # rest) c0 b (c_store c)" using inv by (simp_all add: cluster_inv_def)
  have new: "sj_id (snd (snd e)) \<noteq> sj_id j" if "e \<in> set (b_taken b)" for e using book_rest_other [OF bk d that] by simp
  have sub: "set (b_reported b) \<subseteq> set (b_taken b)" using bk by (auto simp: book_ok_def)
  have "(i, t, j) \<notin> set (b_taken b)" using new by fastforce
  then have "book_ok js rest c0 ?b"
    using bk cur o i inv sub by (auto simp: book_ok_def cluster_inv_def split: if_splits)
  moreover have "on_board (sj_id (snd (snd e))) (outcome_by c0 e) (db (l_server l))" if "e \<in> set (b_reported b)" for e
    using bd that sub new [of e] by (intro untouched_on_board [OF u]) (auto simp: board_inv_def)
  with bd r have "board_inv rest c0 ?b (db (l_server l))"
    using untouched_list [OF u, of RESULTS] untouched_fresh [OF u] by (simp add: board_inv_def board_ok_def list_all_iff)
  moreover have "\<forall>k < length (c_members c). member_inv c0 ?b (db (l_server l)) k ((c_members c)[i := m\<lparr>m_open := l_open l\<rparr>] ! k)"
  proof (rule members_update [OF inv i _ u])
    show "member_inv c0 ?b (db (l_server l)) i (m\<lparr>m_open := l_open l\<rparr>)" using m by (subst member_inv_book) simp_all
  qed simp_all
  ultimately show ?thesis using inv by (simp add: cluster_inv_def with_link_def)
qed

lemma move_send_eq:
  "m_todo (c_members c ! i) = req # rs \<Longrightarrow> member_move h sh (i, t, wr) c =
     (Sent i req, with_link i ((c_members c ! i)\<lparr>m_todo := rs\<rparr>) (snd (exchange h wr req (link_of c (c_members c ! i)))) c)"
  by (simp add: member_move_def Let_def split: prod.split)

lemma inv_umap: "cluster_inv js rest c0 b c \<Longrightarrow> umap_inv (c_store c)"
  by (auto simp: cluster_inv_def board_inv_def board_ok_def list_key_umap)

lemma inv_member: "cluster_inv js rest c0 b c \<Longrightarrow> i < length (c_members c) \<Longrightarrow> member_inv c0 b (c_store c) i (c_members c ! i)"
  by (simp add: cluster_inv_def)

text \<open>A request whose effect is quiet.\<close>

lemma move_quiet:
  assumes inv: "cluster_inv js rest c0 b c" and d: "distinct (map sj_id js)" and i: "i < length (c_members c)" "w_gap wr < READ_TIMEOUT"
    and todo: "m_todo (c_members c ! i) = req # rs" and rsp: "respond (w_env wr) req (c_server c) = (Inr r, srv)"
    and u: "untouched ks (c_store c) (db srv)" and q: "quiet b i ks"
    and next_todo: "case b_current b i of
         None \<Rightarrow> rs \<in> {[], [cmd_sandbox_release (opt_id (m_opts (c_members c ! i)))]}
       | Some (t, j) \<Rightarrow> at_work (opt_id (m_opts (c_members c ! i))) j (outcome_by c0 (i, t, j)) rs (db srv)"
  shows "cluster_inv js rest c0 b (snd (member_move h sh (i, t', wr) c))"
proof -
  let ?m = "c_members c ! i"
  have m: "member_inv c0 b (c_store c) i ?m" by (rule inv_member [OF inv i(1)])
  then have "m_open ?m" "wire_ok req" using todo by (simp_all add: member_inv_def)
  then obtain s where s: "snd (exchange h wr req (link_of c ?m)) = \<lparr>l_server = srv, l_stats = s, l_open = True\<rparr>"
    using exchange_effect [OF _ i(2) _ rsp] by blast
  have "member_inv c0 b (db srv) i (?m\<lparr>m_todo := rs, m_open := True\<rparr>)"
    using m todo next_todo by (auto simp: member_inv_def split: option.splits)
  then have "cluster_inv js rest c0 b (with_link i (?m\<lparr>m_todo := rs\<rparr>) \<lparr>l_server = srv, l_stats = s, l_open = True\<rparr> c)"
    using u q by (intro quiet_step [OF inv d i(1)]) simp_all
  then show ?thesis by (simp add: move_send_eq [OF todo] s)
qed

lemma quiet_sandbox: "quiet b i {sandbox_status_key sb, sandbox_job_key sb}"
  by (auto simp: quiet_def)

lemma move_release:
  assumes inv: "cluster_inv js rest c0 b c" and d: "distinct (map sj_id js)" and i: "i < length (c_members c)" "w_gap wr < READ_TIMEOUT"
    and "m_todo (c_members c ! i) = req # rs" "b_current b i = None"
  shows "cluster_inv js rest c0 b (snd (member_move h sh (i, t', wr) c))"
proof -
  have "req = cmd_sandbox_release (opt_id (m_opts (c_members c ! i)))" "rs = []"
    using inv_member [OF inv i(1)] assms(5,6) by (simp_all add: member_inv_def)
  with assms(5,6) release_effect [OF inv_umap [OF inv], of _ "w_env wr"] quiet_sandbox show ?thesis
    by (intro move_quiet [OF inv d i, of req rs "SInt 1"]) (auto simp: respond_release)
qed

lemma move_at_work:
  assumes inv: "cluster_inv js rest c0 b c" and d: "distinct (map sj_id js)" and i: "i < length (c_members c)" "w_gap wr < READ_TIMEOUT"
    and todo: "m_todo (c_members c ! i) = req # rs" and cur: "b_current b i = Some (t, j)"
  shows "\<exists>b'. cluster_inv js rest c0 b' (snd (member_move h sh (i, t', wr) c)) \<and> b_taken b' = b_taken b"
proof -
  let ?m = "c_members c ! i" and ?cd = "outcome_by c0 (i, t, j)" and ?a = "sj_id j"
  let ?sb = "opt_id (m_opts ?m)"
  have m: "member_inv c0 b (c_store c) i ?m" by (rule inv_member [OF inv i(1)])
  then have "at_work ?sb j ?cd (req # rs) (c_store c)" using cur todo by (auto simp: member_inv_def)
  then obtain pre lines where pre: "pre = [] \<or> pre = [cmd_sandbox_claim ?sb ?a]"
    and t: "req # rs = pre @ map (cmd_job_log ?a) lines @ [cmd_job_result ?a (fst ?cd) (snd ?cd), cmd_sandbox_release ?sb]"
    and log: "list_key (log_key ?a) (c_store c)" "length (list_at (log_key ?a) (c_store c)) + length lines < 2 ^ 62"
    by (auto simp: at_work_def)
  consider (claim) "pre = [cmd_sandbox_claim ?sb ?a]" | (log) line ls where "pre = []" "lines = line # ls" | (result) "pre = []" "lines = []"
    using pre by (cases lines) auto
  then show ?thesis
  proof cases
    case claim
    let ?srv = "snd (respond (w_env wr) req (c_server c))"
    have r: "req = cmd_sandbox_claim ?sb ?a" using t claim by simp
    then have u: "untouched {sandbox_status_key ?sb, sandbox_job_key ?sb} (c_store c) (db ?srv)"
      using claim_effect [OF inv_umap [OF inv]] by simp
    have "at_work ?sb j ?cd rs (c_store c)" using t claim log unfolding at_work_def by auto
    then have "at_work ?sb j ?cd rs (db ?srv)" by (rule untouched_at_work [OF u, rotated]) simp
    then have "cluster_inv js rest c0 b (snd (member_move h sh (i, t', wr) c))"
      using cur by (intro move_quiet [OF inv d i todo _ u quiet_sandbox]) (simp_all add: r respond_claim)
    then show ?thesis by blast
  next
    case (log line ls)
    have r: "req = cmd_job_log ?a line" using t log by simp
    obtain srv where srv: "respond (w_env wr) req (c_server c) = (Inr (SInt 1), srv)" "untouched {log_key ?a} (c_store c) (db srv)"
      "list_key (log_key ?a) (db srv)" "length (list_at (log_key ?a) (db srv)) = Suc (length (list_at (log_key ?a) (c_store c)))"
      using log_effect [of ?a "c_server c" "w_env wr" line] \<open>list_key (log_key ?a) (c_store c)\<close>
        \<open>length (list_at (log_key ?a) (c_store c)) + length lines < 2 ^ 62\<close> r by auto
    have "at_work ?sb j ?cd rs (db srv)"
      unfolding at_work_def using t log srv(3,4) \<open>length (list_at (log_key ?a) (c_store c)) + length lines < 2 ^ 62\<close>
      by (intro exI [of _ "[]"] exI [of _ ls]) simp
    moreover have "quiet b i {log_key ?a}" using cur by (auto simp: quiet_def)
    ultimately have "cluster_inv js rest c0 b (snd (member_move h sh (i, t', wr) c))"
      using cur by (intro move_quiet [OF inv d i todo srv(1,2)]) simp_all
    then show ?thesis by blast
  next
    case result
    have r: "req = cmd_job_result ?a (fst ?cd) (snd ?cd)" "rs = [cmd_sandbox_release ?sb]" using t result by simp_all
    have "outputs_ok (m_opts (c_members c0 ! i)) t j" using inv cur book_current by (auto simp: cluster_inv_def)
    then have rng: "i64_range (fst ?cd)" "i64_range (snd ?cd)"
      using outcome_range by (simp_all add: outcome_by_def outputs_ok_def)
    have "board_ok (c_store c)" using inv by (simp add: cluster_inv_def board_inv_def)
    from result_effect [OF rng this] obtain srv where srv: "respond (w_env wr) req (c_server c) = (Inr (SStr (verdict (fst ?cd))), srv)"
      "untouched {RESULTS, status_key ?a, result_key ?a} (c_store c) (db srv)" "board_ok (db srv)" "on_board ?a ?cd (db srv)"
      "list_at RESULTS (db srv) = result_entry ?a (fst ?cd) (snd ?cd) # list_at RESULTS (c_store c)"
      unfolding r by blast
    have "m_open ?m" "wire_ok req" using m todo by (simp_all add: member_inv_def)
    then obtain s where s: "snd (exchange h wr req (link_of c ?m)) = \<lparr>l_server = srv, l_stats = s, l_open = True\<rparr>"
      using exchange_effect [OF _ i(2) _ srv(1)] by blast
    have "member_inv c0 (b\<lparr>b_current := (b_current b)(i := None)\<rparr>) (db srv) i (?m\<lparr>m_todo := rs, m_open := True\<rparr>)"
      using m todo r(2) by (auto simp: member_inv_def)
    then have "cluster_inv js rest c0 (b\<lparr>b_reported := b_reported b @ [(i, t, j)], b_current := (b_current b)(i := None)\<rparr>)
        (with_link i (?m\<lparr>m_todo := rs\<rparr>) \<lparr>l_server = srv, l_stats = s, l_open = True\<rparr> c)"
      using srv(2-5) by (intro report_step [OF inv d i(1) cur]) (simp_all add: entry_by_def)
    then show ?thesis by (intro exI conjI) (simp add: move_send_eq [OF todo] s, simp)
  qed
qed

lemma idle_current:
  assumes "member_inv c0 b st i m" "m_todo m = []" shows "b_current b i = None"
  using assms by (auto simp: member_inv_def at_work_def split: option.splits)

lemma nil_fits: "roomy h \<Longrightarrow> fits h (stack_frames h) SNil"
  by (cases "stack_frames h") (simp_all add: roomy_def)

lemma move_poll_empty:
  assumes inv: "cluster_inv js [] c0 b c" and d: "distinct (map sj_id js)" and i: "i < length (c_members c)" "w_gap wr < READ_TIMEOUT"
    and h: "roomy h" and todo: "m_todo (c_members c ! i) = []"
  shows "\<exists>c'. member_move h sh (i, t, wr) c = (Polled i t (Some (client_view SNil)), c') \<and> cluster_inv js [] c0 b c' \<and>
    m_todo (c_members c' ! i) = [] \<and> (\<forall>k. k \<noteq> i \<longrightarrow> c_members c' ! k = c_members c ! k)"
proof -
  let ?m = "c_members c ! i"
  have m: "member_inv c0 b (c_store c) i ?m" by (rule inv_member [OF inv i(1)])
  have "list_key QUEUE (c_store c)" "list_at QUEUE (c_store c) = []" using inv by (simp_all add: cluster_inv_def board_inv_def board_ok_def)
  then have r: "respond (w_env wr) cmd_job_next (c_server c) = (Inr SNil, c_server c)"
    by (simp add: cmd_job_next_def respond_commands next_empty)
  have w: "wire_ok cmd_job_next" by (simp add: wire_ok_def sized_def cmd_job_next_def utf8_text_ascii)
  have o: "l_open (link_of c ?m)" using m by (simp add: link_of_def member_inv_def)
  obtain s where s: "snd (exchange h wr cmd_job_next (link_of c ?m)) = \<lparr>l_server = c_server c, l_stats = s, l_open = True\<rparr>"
    using exchange_effect [OF _ i(2) w r] m by (auto simp: member_inv_def)
  have e: "exchange h wr cmd_job_next (link_of c ?m) = (Inr (client_view SNil), \<lparr>l_server = c_server c, l_stats = s, l_open = True\<rparr>)"
    using exchange_ok(2) [OF o i(2) w, of SNil "c_server c" h] r nil_fits [OF h] h s by (simp add: link_of_def prod_eq_iff)
  let ?c = "with_link i (?m\<lparr>m_todo := []\<rparr>) \<lparr>l_server = c_server c, l_stats = s, l_open = True\<rparr> c"
  have "is_nil (client_view SNil)" by (simp add: is_nil_def blank_response_def)
  then have "loop_turn (m_opts ?m) sh (t\<lparr>t_reply := Some (client_view SNil)\<rparr>) (m_main ?m) (m_net ?m) =
      ([cmd_job_next], [], m_main ?m, m_net ?m)" by (simp add: loop_turn_def)
  then have mv: "member_move h sh (i, t, wr) c = (Polled i t (Some (client_view SNil)), ?c)"
    using todo by (simp add: member_move_def Let_def e del: client_view.simps)
  have "cluster_inv js [] c0 b ?c"
    using m todo inv_umap [OF inv]
    by (intro quiet_step [OF inv d i(1), of "{}"]) (auto simp: untouched_def quiet_def member_inv_def split: option.splits)
  with mv todo i(1) show ?thesis by (intro exI [of _ ?c]) (simp add: with_link_def)
qed

lemma untouched_taken:
  assumes "umap_inv (db srv)" shows "untouched {QUEUE, status_key (sj_id j)} (db srv) (db (taken j srv))"
  using assms by (simp add: taken_def untouched_def) (simp add: set_str_def inv_intros)

lemma move_poll_job:
  assumes inv: "cluster_inv js (j # rest) c0 b c" and d: "distinct (map sj_id js)" and i: "i < length (c_members c)" "w_gap wr < READ_TIMEOUT"
    and h: "roomy h" and todo: "m_todo (c_members c ! i) = []" and j: "job_ok j" "outputs_ok (m_opts (c_members c0 ! i)) t j"
    and mo: "member_ok (c_members c0 ! i)"
  shows "\<exists>b' c'. member_move h sh (i, t, wr) c = (Polled i t (Some (client_view (job_reply j))), c') \<and>
    cluster_inv js rest c0 b' c' \<and> b_taken b' = b_taken b @ [(i, t, j)]"
proof -
  let ?m = "c_members c ! i" and ?cd = "outcome_by c0 (i, t, j)"
  have m: "member_inv c0 b (c_store c) i ?m" by (rule inv_member [OF inv i(1)])
  then have mm: "m_opts ?m = m_opts (c_members c0 ! i)" "security_manager (m_main ?m) = security_manager (m_main (c_members c0 ! i))"
    "l_open (link_of c ?m)" by (simp_all add: member_inv_def link_of_def)
  have q: "list_key QUEUE (c_store c)" "list_at QUEUE (c_store c) = rev (map sj_payload rest) @ [sj_payload j]" "fresh_job (c_store c) j"
    using inv by (simp_all add: cluster_inv_def board_inv_def board_ok_def)
  obtain s where e: "exchange h wr cmd_job_next (link_of c ?m) =
      (Inr (client_view (job_reply j)), \<lparr>l_server = taken j (c_server c), l_stats = s, l_open = True\<rparr>)" (is "_ = (_, ?l)")
    using poll_job [OF mm(3) i(2) h j(1), of "rev (map sj_payload rest)"] q(1,2) mm(3) by (auto simp: link_of_def)
  let ?t = "t\<lparr>t_reply := Some (client_view (job_reply j))\<rparr>"
  have "job_outcome (m_opts ?m) (security_manager (m_main ?m)) ?t j = ?cd" "job_run (m_opts ?m) ?t j = job_run (m_opts ?m) t j"
    by (simp_all add: job_outcome_def job_run_def outcome_by_def mm)
  then obtain lines calls st' nh' where lt: "loop_turn (m_opts ?m) sh ?t (m_main ?m) (m_net ?m) =
      (cmd_job_next # turn_requests (opt_id (m_opts ?m)) (sj_id j) lines (fst ?cd) (snd ?cd), calls, st', nh')"
    and l: "security_manager st' = security_manager (m_main ?m)"
      "set lines \<subseteq> own_lines \<union> take 1000 ` set (snd (job_run (m_opts ?m) t j))" "length lines \<le> 2 + length (snd (job_run (m_opts ?m) t j))"
    using loop_turn_job [of ?t j "m_opts ?m" sh "m_main ?m" "m_net ?m"] by (auto simp: turn_requests_def)
  let ?m' = "?m\<lparr>m_main := st', m_net := nh', m_todo := turn_requests (opt_id (m_opts ?m)) (sj_id j) lines (fst ?cd) (snd ?cd)\<rparr>"
  have mv: "member_move h sh (i, t, wr) c = (Polled i t (Some (client_view (job_reply j))), with_link i ?m' ?l c)"
    using todo by (simp add: member_move_def Let_def e lt)
  have u: "untouched {QUEUE, status_key (sj_id j)} (c_store c) (db (l_server ?l))" using untouched_taken [OF inv_umap [OF inv]] by simp
  have rng: "i64_range (fst ?cd)" "i64_range (snd ?cd)" using outcome_range j(2) by (simp_all add: outcome_by_def outputs_ok_def)
  have "list_all wire_ok (m_todo ?m')"
    using requests_ok [OF j(1) _ _ rng l(2)] mo j(2) by (simp add: member_ok_def outputs_ok_def mm(1))
  moreover have "at_work (opt_id (m_opts ?m)) j ?cd (m_todo ?m') (c_store c)"
    using q(3) l(3) j(2) unfolding at_work_def
    by (intro exI [of _ "[cmd_sandbox_claim (opt_id (m_opts ?m)) (sj_id j)]"] exI [of _ lines])
      (simp add: turn_requests_def fresh_job_def outputs_ok_def mm(1))
  then have "at_work (opt_id (m_opts ?m)) j ?cd (m_todo ?m') (db (l_server ?l))" by (rule untouched_at_work [OF u, rotated]) simp
  ultimately have "member_inv c0 (b\<lparr>b_current := (b_current b)(i := Some (t, j))\<rparr>) (db (l_server ?l)) i (?m'\<lparr>m_open := l_open ?l\<rparr>)"
    using mm l(1) by (simp add: member_inv_def)
  moreover have "list_key QUEUE (db (l_server ?l))" "list_at QUEUE (db (l_server ?l)) = rev (map sj_payload rest)"
    using q by (simp_all add: taken_def inv_intros)
  ultimately show ?thesis
    using take_step [OF inv d i(1) idle_current [OF m todo] j(2) u] mv by (intro exI conjI) (assumption, blast, simp)
qed

subsection \<open>Runs\<close>

abbreviation seen :: "nat \<times> turn \<times> sjob \<Rightarrow> nat \<times> turn \<times> job" where
  "seen e \<equiv> (fst e, fst (snd e), worker_job (snd (snd e)))"

lemma taken_nil [simp]: "job_taken (Polled i t (Some (client_view SNil))) = []"
  by (simp add: parse_job_def blank_response_def)

lemma taken_reply [simp]: "job_taken (Polled i t (Some (client_view (job_reply j)))) = [(i, t, worker_job j)]"
  by (simp add: job_reply_view)

lemma move_inv:
  assumes inv: "cluster_inv js rest c0 b c" and r: "ready js c0" and h: "roomy h" and mv: "move_ok c0 js s"
  shows "\<exists>b' rest' e c'. member_move h sh s c = (e, c') \<and> cluster_inv js rest' c0 b' c' \<and>
    map seen (b_taken b') = map seen (b_taken b) @ job_taken e"
proof -
  obtain i t wr where s: "s = (i, t, wr)" by (metis prod_cases3)
  have d: "distinct (map sj_id js)" using r by (simp add: ready_def)
  have i: "i < length (c_members c)" "w_gap wr < READ_TIMEOUT" "i < length (c_members c0)"
    using mv inv by (simp_all add: s move_ok_def cluster_inv_def)
  show ?thesis
  proof (cases "m_todo (c_members c ! i)")
    case (Cons req rs)
    note todo = this
    have e: "job_taken (fst (member_move h sh s c)) = []" by (simp add: s move_send_eq [OF todo])
    show ?thesis
    proof (cases "b_current b i")
      case None
      with move_release [OF inv d i(1,2) todo] show ?thesis
        by (intro exI [of _ b] exI [of _ rest] exI [of _ "fst (member_move h sh s c)"] exI [of _ "snd (member_move h sh s c)"])
          (use e in \<open>simp add: s\<close>)
    next
      case (Some tj)
      obtain b' where "cluster_inv js rest c0 b' (snd (member_move h sh s c))" "b_taken b' = b_taken b"
        using move_at_work [OF inv d i(1,2) todo, of "fst tj" "snd tj" h sh t] Some unfolding s by auto
      then show ?thesis
        by (intro exI [of _ b'] exI [of _ rest] exI [of _ "fst (member_move h sh s c)"] exI [of _ "snd (member_move h sh s c)"])
          (use e in simp)
    qed
  next
    case Nil
    show ?thesis
    proof (cases rest)
      case nil: Nil
      from move_poll_empty [OF inv [unfolded nil] d i(1,2) h Nil, of sh t] obtain c' where
        "member_move h sh s c = (Polled i t (Some (client_view SNil)), c')" "cluster_inv js [] c0 b c'" by (auto simp: s)
      then show ?thesis by (intro exI [of _ b] exI [of _ "[]"] exI) (auto simp del: client_view.simps job_taken.simps)
    next
      case (Cons j rest')
      have "j \<in> set js" using inv by (auto simp: cluster_inv_def book_ok_def Cons)
      then have "job_ok j" "outputs_ok (m_opts (c_members c0 ! i)) t j" "member_ok (c_members c0 ! i)"
        using r mv i(3) by (auto simp: ready_def move_ok_def s list_all_iff)
      from move_poll_job [OF inv [unfolded Cons] d i(1,2) h Nil this, of sh] obtain b' c' where
        "member_move h sh s c = (Polled i t (Some (client_view (job_reply j))), c')" "cluster_inv js rest' c0 b' c'"
        "b_taken b' = b_taken b @ [(i, t, j)]" unfolding s by blast
      then show ?thesis by (intro exI [of _ b'] exI [of _ rest'] exI) (auto simp del: client_view.simps job_taken.simps)
    qed
  qed
qed

lemma run_inv:
  assumes "ready js c0" "roomy h"
  shows "cluster_inv js rest c0 b c \<Longrightarrow> list_all (move_ok c0 js) ss \<Longrightarrow> cluster_run h sh ss c = (es, c') \<Longrightarrow>
    \<exists>b' rest'. cluster_inv js rest' c0 b' c' \<and> map seen (b_taken b') = map seen (b_taken b) @ jobs_taken es"
proof (induction ss arbitrary: rest b c es)
  case Nil
  then show ?case by (auto simp: jobs_taken_def)
next
  case (Cons s ss)
  obtain b1 rest1 e c1 where m: "member_move h sh s c = (e, c1)" "cluster_inv js rest1 c0 b1 c1"
    "map seen (b_taken b1) = map seen (b_taken b) @ job_taken e"
    using move_inv [OF Cons.prems(1) assms, of s sh] Cons.prems(2) by auto
  obtain es1 where es: "cluster_run h sh ss c1 = (es1, c')" "es = e # es1" using Cons.prems(3) m(1) by (auto split: prod.splits)
  from Cons.IH [OF m(2) _ es(1)] Cons.prems(2) m(3) es(2) show ?case by (auto simp: jobs_taken_def)
qed

lemma rest_book:
  assumes inv: "cluster_inv js rest c0 b c" and r: "ready js c0" and rst: "at_rest c"
  shows "map (snd \<circ> snd) (b_taken b) = js" "mset (b_reported b) = mset (b_taken b)"
proof -
  have "rest = []" using inv rst by (simp add: cluster_inv_def board_inv_def at_rest_def)
  with inv show t: "map (snd \<circ> snd) (b_taken b) = js" by (simp add: cluster_inv_def book_ok_def)
  then have "distinct (map sj_id (map (snd \<circ> snd) (b_taken b)))" using r by (simp add: ready_def)
  then have "distinct (b_taken b)" by (simp add: distinct_map)
  moreover have "b_current b i = None" for i
  proof (cases "i < length (c_members c)")
    case True
    then show ?thesis using idle_current [OF inv_member [OF inv True]] rst by (simp add: at_rest_def list_all_length)
  next
    case False
    have bk: "book_ok js rest c0 b" "length (c_members c) = length (c_members c0)" using inv by (simp_all add: cluster_inv_def)
    show ?thesis
    proof (cases "b_current b i")
      case (Some tj)
      then have "b_current b i = Some (fst tj, snd tj)" by simp
      with bk(1) have "i < length (c_members c0)" unfolding book_ok_def by blast
      with False bk(2) show ?thesis by simp
    qed
  qed
  then have "set (b_taken b) = set (b_reported b)" "distinct (b_reported b)"
    using inv by (auto simp: cluster_inv_def book_ok_def)
  ultimately show "mset (b_reported b) = mset (b_taken b)" by (metis set_eq_iff_mset_eq_distinct)
qed

subsection \<open>Finishing\<close>

lemma cluster_run_append:
  "cluster_run h sh (ss @ ss') c = (case cluster_run h sh ss c of (es, c1) \<Rightarrow> case cluster_run h sh ss' c1 of (es', c2) \<Rightarrow> (es @ es', c2))"
  by (induction ss arbitrary: c) (auto split: prod.splits)

definition backlog :: "'w cluster \<Rightarrow> nat" where
  "backlog c = (\<Sum>m \<leftarrow> c_members c. length (m_todo m))"

lemma send_backlog:
  assumes "i < length (c_members c)" "m_todo (c_members c ! i) = req # rs"
  shows "backlog (snd (member_move h sh (i, t, wr) c)) < backlog c"
proof -
  let ?xs = "map (\<lambda>m. length (m_todo m)) (c_members c)"
  have "backlog (snd (member_move h sh (i, t, wr) c)) = sum_list (?xs[i := length rs])"
    by (simp add: move_send_eq [OF assms(2)] backlog_def with_link_def map_update)
  also have "\<dots> = sum_list ?xs + length rs - ?xs ! i" using assms(1) by (simp add: sum_list_update)
  also have "\<dots> < sum_list ?xs" using assms elem_le_sum_list [of i ?xs] by simp
  finally show ?thesis by (simp add: backlog_def)
qed

lemma send_inv:
  assumes "cluster_inv js rest c0 b c" "distinct (map sj_id js)" "i < length (c_members c)" "w_gap wr < READ_TIMEOUT"
    and "m_todo (c_members c ! i) = req # rs"
  shows "\<exists>b'. cluster_inv js rest c0 b' (snd (member_move h sh (i, t, wr) c))"
  using move_release [OF assms] move_at_work [OF assms] by (cases "b_current b i") fastforce+

lemma drain:
  assumes r: "ready js c0" and ok: "\<And>i. i < length (c_members c0) \<Longrightarrow> move_ok c0 js (i, t, wr)"
  shows "cluster_inv js rest c0 b c \<Longrightarrow> \<exists>ss b'. list_all (move_ok c0 js) ss \<and>
    cluster_inv js rest c0 b' (snd (cluster_run h sh ss c)) \<and> list_all (\<lambda>m. m_todo m = []) (c_members (snd (cluster_run h sh ss c)))"
proof (induction "backlog c" arbitrary: b c rule: less_induct)
  case less
  show ?case
  proof (cases "list_all (\<lambda>m. m_todo m = []) (c_members c)")
    case True
    with less.prems show ?thesis by (intro exI [of _ "[]"]) auto
  next
    case False
    then obtain i req rs where i: "i < length (c_members c)" "m_todo (c_members c ! i) = req # rs"
      by (auto simp: list_all_length neq_Nil_conv)
    have n: "length (c_members c) = length (c_members c0)" using less.prems by (simp add: cluster_inv_def)
    have mv: "move_ok c0 js (i, t, wr)" using ok i(1) n by simp
    then obtain b1 where b1: "cluster_inv js rest c0 b1 (snd (member_move h sh (i, t, wr) c))"
      using send_inv [OF less.prems _ i(1) _ i(2), of wr h sh t] r by (auto simp: ready_def move_ok_def)
    from less.hyps [OF send_backlog [OF i] b1] obtain ss b' where
      "list_all (move_ok c0 js) ss" "cluster_inv js rest c0 b' (snd (cluster_run h sh ss (snd (member_move h sh (i, t, wr) c))))"
      "list_all (\<lambda>m. m_todo m = []) (c_members (snd (cluster_run h sh ss (snd (member_move h sh (i, t, wr) c)))))" by blast
    with mv show ?thesis by (intro exI [of _ "(i, t, wr) # ss"] exI [of _ b']) (simp add: case_prod_unfold)
  qed
qed

lemma finish:
  assumes r: "ready js c0" and h: "roomy h" and n: "0 < length (c_members c0)"
    and ok: "\<And>i. i < length (c_members c0) \<Longrightarrow> move_ok c0 js (i, t, wr)"
  shows "cluster_inv js rest c0 b c \<Longrightarrow> \<exists>ss. list_all (move_ok c0 js) ss \<and> at_rest (snd (cluster_run h sh ss c))"
proof (induction rest arbitrary: b c)
  case Nil
  from drain [OF r ok Nil, of h sh] show ?case by (auto simp: at_rest_def cluster_inv_def board_inv_def)
next
  case (Cons j rest)
  obtain ss b1 where ss: "list_all (move_ok c0 js) ss" "cluster_inv js (j # rest) c0 b1 (snd (cluster_run h sh ss c))"
    "list_all (\<lambda>m. m_todo m = []) (c_members (snd (cluster_run h sh ss c)))" using drain [OF r ok Cons.prems, of h sh] by blast
  let ?c = "snd (cluster_run h sh ss c)"
  have i: "0 < length (c_members ?c)" using ss(2) n by (simp add: cluster_inv_def)
  have "j \<in> set js" using Cons.prems by (auto simp: cluster_inv_def book_ok_def)
  then have "job_ok j" "outputs_ok (m_opts (c_members c0 ! 0)) t j" "member_ok (c_members c0 ! 0)" "w_gap wr < READ_TIMEOUT"
    "distinct (map sj_id js)"
    using r ok [OF n] n by (auto simp: ready_def move_ok_def list_all_iff)
  moreover have "m_todo (c_members ?c ! 0) = []" using ss(3) i by (simp add: list_all_length)
  ultimately obtain b2 c2 e where c2: "member_move h sh (0, t, wr) ?c = (e, c2)" "cluster_inv js rest c0 b2 c2"
    using move_poll_job [OF ss(2) _ i _ h] by blast
  from Cons.IH [OF c2(2)] obtain ss' where "list_all (move_ok c0 js) ss'" "at_rest (snd (cluster_run h sh ss' c2))" by blast
  with ss(1) ok [OF n] c2(1) show ?case
    by (intro exI [of _ "ss @ (0, t, wr) # ss'"]) (simp add: cluster_run_append case_prod_unfold)
qed

subsection \<open>An example\<close>

definition demo_member :: "string \<Rightarrow> 'w Netns.host \<Rightarrow> 'w member" where
  "demo_member nm nh = \<lparr>m_opts = default_options\<lparr>opt_id := nm\<rparr>, m_main = new_main_state, m_net = nh, m_todo = [], m_open = True\<rparr>"

definition demo_cluster :: "'w Netns.host \<Rightarrow> 'w cluster" where
  "demo_cluster nh = \<lparr>c_members = [demo_member ''a'' nh, demo_member ''b'' nh], c_server = l_server demo_link, c_stats = new_stats\<rparr>"

lemma demo_ready: "ready [demo_job] (demo_cluster nh)"
proof -
  have "utf8_text ''a''" "utf8_text ''b''" by (auto intro: utf8_text_ascii)
  then show ?thesis
    using demo_facts by (simp add: ready_def demo_cluster_def demo_member_def member_ok_def default_options_def)
qed

lemma demo_run: "job_run (default_options\<lparr>opt_id := nm\<rparr>) demo_turn demo_job = job_run default_options demo_turn demo_job"
  by (simp add: job_run_def job_config_def default_options_def)

lemma demo_move: "i < 2 \<Longrightarrow> move_ok (demo_cluster nh) [demo_job] (i, demo_turn, demo_wires 0 0)"
  using demo_facts(9-12)
  by (auto simp: move_ok_def demo_cluster_def demo_member_def outputs_ok_def demo_run less_2_cases_iff utf8_text_ascii timely_def)

section \<open>Properties\<close>

text \<open>
  C3. Several workers share the queue. The queue holds new jobs with distinct ids, whose fields are text without bars and which have no
  log yet; the workers are connected and idle, and have room for an answer. Let any number of them, in any order of their exchanges, each
  exchange within the 30 seconds the server waits and the output of the jobs being text, work until
  they have sent everything and the queue is empty. Then every job was taken exactly once, in the order of
  the queue; the list of results has grown by exactly one entry for each, with the exit code and the duration of
  its own execution by the worker that took it; and its status and its result say the same.
\<close>

theorem workers_share_queue:
  assumes "ready js c" "roomy h" "list_all (move_ok c js) ss" "cluster_run h sh ss c = (es, c')" "at_rest c'"
  shows "\<exists>runs. map (snd \<circ> snd) runs = js \<and> jobs_taken es = map (\<lambda>(i, t, j). (i, t, worker_job j)) runs \<and>
    mset (list_at RESULTS (c_store c')) = mset (map (entry_by c) runs) + mset (list_at RESULTS (c_store c)) \<and>
    (\<forall>(i, t, j) \<in> set runs. on_board (sj_id j) (outcome_by c (i, t, j)) (c_store c'))"
proof -
  obtain b rest where b: "cluster_inv js rest c b c'" "map seen (b_taken b) = jobs_taken es"
    using run_inv [OF assms(1,2) inv_start [OF assms(1)] assms(3,4)] by auto
  note t = rest_book [OF b(1) assms(1,5)]
  have bd: "list_at RESULTS (c_store c') = rev (map (entry_by c) (b_reported b)) @ list_at RESULTS (c_store c)"
    "\<forall>e \<in> set (b_reported b). on_board (sj_id (snd (snd e))) (outcome_by c e) (c_store c')"
    using b(1) by (simp_all add: cluster_inv_def board_inv_def)
  have "mset (map (entry_by c) (b_reported b)) = mset (map (entry_by c) (b_taken b))" using t(2) by simp
  moreover have "set (b_reported b) = set (b_taken b)" using t(2) by (metis set_mset_mset)
  ultimately show ?thesis using t(1) b(2) bd by (intro exI [of _ "b_taken b"]) (auto simp: case_prod_unfold)
qed

theorem workers_share_queue_witness:
  "\<exists>ss es c'. cluster_run demo_host (failing_shell (\<lambda>c. False)) ss (demo_cluster quiet_host) = (es, c') \<and>
    map (snd \<circ> snd) (jobs_taken es) = [worker_job demo_job] \<and> length (list_at RESULTS (c_store c')) = 1"
proof -
  let ?c = "demo_cluster quiet_host" and ?sh = "failing_shell (\<lambda>c. False)"
  have n: "length (c_members ?c) = 2" by (simp add: demo_cluster_def)
  obtain ss where ss: "list_all (move_ok ?c [demo_job]) ss" "at_rest (snd (cluster_run demo_host ?sh ss ?c))"
    using finish [OF demo_ready demo_facts(1) _ demo_move inv_start [OF demo_ready], of quiet_host ?sh] by (auto simp: n)
  obtain es c' where r: "cluster_run demo_host ?sh ss ?c = (es, c')" by (rule prod.exhaust)
  have "at_rest c'" using ss(2) by (simp add: r)
  from workers_share_queue [OF demo_ready demo_facts(1) ss(1) r this] obtain runs where runs: "map (snd \<circ> snd) runs = [demo_job]" "jobs_taken es = map (\<lambda>(i, t, j). (i, t, worker_job j)) runs"
    "mset (list_at RESULTS (c_store c')) = mset (map (entry_by ?c) runs) + mset (list_at RESULTS (c_store ?c))"
    by (elim exE conjE)
  have "length runs = 1" using runs(1) by (metis length_map list.size(3,4) One_nat_def add_0)
  moreover have "list_at RESULTS (c_store ?c) = []" by (simp add: demo_cluster_def demo_link_def list_at_def QUEUE_def RESULTS_def)
  ultimately have "length (list_at RESULTS (c_store c')) = 1" using runs(3) by (metis append_Nil2 length_map mset_append size_mset)
  moreover have "map (snd \<circ> snd) (jobs_taken es) = [worker_job demo_job]"
    using runs(1) by (auto simp: runs(2) case_prod_unfold comp_def)
  ultimately show ?thesis using r by (intro exI conjI)
qed

text \<open>
  C4. Workers that are in time can always finish. On such a queue, with at least one worker, and as long as every exchange so far was within the
  30 seconds and every output text: whatever the workers have done in whichever order, there is a continuation, by exchanges that are
  in time too, in which everything is sent and the queue is empty. No worker ever waits for another.
\<close>

theorem workers_can_finish:
  assumes "ready js c" "roomy h" "list_all (move_ok c js) ss" "0 < length (c_members c)"
    and "\<forall>i < length (c_members c). move_ok c js (i, t, wr)"
  shows "\<exists>ss'. list_all (move_ok c js) ss' \<and> at_rest (snd (cluster_run h sh (ss @ ss') c))"
proof -
  obtain es c1 where r: "cluster_run h sh ss c = (es, c1)" by (rule prod.exhaust)
  obtain b rest where "cluster_inv js rest c b c1"
    using run_inv [OF assms(1,2) inv_start [OF assms(1)] assms(3) r] by blast
  from finish [OF assms(1,2,4) _ this, of t wr sh] assms(5) obtain ss' where
    "list_all (move_ok c js) ss'" "at_rest (snd (cluster_run h sh ss' c1))" by blast
  with r show ?thesis by (intro exI [of _ ss']) (simp add: cluster_run_append case_prod_unfold)
qed

theorem workers_can_finish_witness:
  "\<exists>ss'. at_rest (snd (cluster_run demo_host (failing_shell (\<lambda>c. False))
     ([(1, demo_turn, demo_wires 0 0), (0, demo_turn, demo_wires 0 0)] @ ss') (demo_cluster quiet_host)))"
proof -
  have "length (c_members (demo_cluster quiet_host)) = 2" by (simp add: demo_cluster_def)
  then show ?thesis
    using workers_can_finish [OF demo_ready demo_facts(1), of quiet_host
        "[(1, demo_turn, demo_wires 0 0), (0, demo_turn, demo_wires 0 0)]" demo_turn "demo_wires 0 0" "failing_shell (\<lambda>c. False)"] demo_move
    by auto
qed

end
