(* ===== verification/Snapshot.thy ===== *)
theory Snapshot
  imports Containers "HOL-Library.Multiset"
begin

section \<open>Snapshots\<close>

text \<open>
  \<^verbatim>\<open>sandbox/src/snapshot.cpp\<close> and its header. The file system is an association list from paths
  to nodes, in the order \<^verbatim>\<open>directory_iterator\<close> visits them; paths are used as the code
  builds them. The record \<open>tools\<close> holds what the code calls: \<^verbatim>\<open>system\<close>, the first output line of the
  checksum pipeline, reads from \<^verbatim>\<open>/proc/<pid>/mem\<close>, and the memory there is for a buffer. The order of
  equal time stamps after \<^verbatim>\<open>std::sort\<close> is unspecified in C++; no property depends on it.
\<close>

datatype node = File string | Dir

type_synonym fsys = "node umap"

definition exists_path :: "fsys \<Rightarrow> string \<Rightarrow> bool" where
  "exists_path fs p = (map_of fs p \<noteq> None)"

definition read_file :: "fsys \<Rightarrow> string \<Rightarrow> string option" where
  "read_file fs p = (case map_of fs p of Some (File c) \<Rightarrow> Some c | _ \<Rightarrow> None)"

definition write_file :: "string \<Rightarrow> string \<Rightarrow> fsys \<Rightarrow> fsys" where
  "write_file p c fs = AList.update p (File c) fs"

definition make_dir :: "string \<Rightarrow> fsys \<Rightarrow> fsys" where
  "make_dir p fs = (if exists_path fs p then fs else AList.update p Dir fs)"

text \<open>The path and its ancestors, outermost first.\<close>

definition ancestors :: "string \<Rightarrow> string list" where
  "ancestors p = map (\<lambda>i. take i p) (filter (\<lambda>i. 0 < i \<and> p ! i = CHR ''/'') [0 ..< length p])"

definition create_directories :: "string \<Rightarrow> fsys \<Rightarrow> fsys" where
  "create_directories p fs = fold make_dir (ancestors p @ [p]) fs"

definition copy_if_exists :: "string \<Rightarrow> string \<Rightarrow> fsys \<Rightarrow> fsys" where
  "copy_if_exists src dst fs =
     (case map_of fs src of Some (File c) \<Rightarrow> write_file dst c fs | _ \<Rightarrow> fs)"

definition beneath :: "string \<Rightarrow> string \<Rightarrow> bool" where
  "beneath dir p = prefix (dir @ ''/'') p"

definition tree_size :: "string \<Rightarrow> fsys \<Rightarrow> u64" where
  "tree_size dir fs =
     foldl (\<lambda>n (p, nd). case nd of File c \<Rightarrow> if beneath dir p then n + of_nat (length c) else n | Dir \<Rightarrow> n) 0 fs"

definition remove_all :: "string \<Rightarrow> fsys \<Rightarrow> fsys" where
  "remove_all dir fs = filter (\<lambda>(p, nd). \<not> (p = dir \<or> beneath dir p)) fs"

text \<open>The names of the directories directly in \<open>dir\<close>.\<close>

definition subdirectories :: "string \<Rightarrow> fsys \<Rightarrow> string list" where
  "subdirectories dir fs =
     map (\<lambda>(p, nd). drop (length dir + 1) p)
       (filter (\<lambda>(p, nd). nd = Dir \<and> beneath dir p \<and> CHR ''/'' \<notin> set (drop (length dir + 1) p)) fs)"

record tools =
  run_system :: "string \<Rightarrow> fsys \<Rightarrow> bool \<times> fsys"
  md5_pipeline :: "string \<Rightarrow> fsys \<Rightarrow> string"
  read_mem :: "int \<Rightarrow> (nat \<Rightarrow> nat \<Rightarrow> string) option"
  buffer_ok :: "nat \<Rightarrow> bool"

record snapshot_config =
  cfg_sandbox_id :: string
  snapshot_dir :: string
  include_memory :: bool
  include_network :: bool
  include_processes :: bool
  compress :: bool

record snapshot_meta =
  id :: string
  sandbox_id :: string
  timestamp :: u64
  size_bytes :: u64
  checksum :: string
  description :: string
  included_components :: "string list"

definition snapshots_dir :: "snapshot_config \<Rightarrow> string" where
  "snapshots_dir cfg = snapshot_dir cfg @ ''/'' @ cfg_sandbox_id cfg"

definition snap_path :: "snapshot_config \<Rightarrow> string \<Rightarrow> string" where
  "snap_path cfg i = snapshots_dir cfg @ ''/'' @ i"

definition new_snapshot :: "snapshot_config \<Rightarrow> fsys \<Rightarrow> fsys" where
  "new_snapshot cfg fs = create_directories (snapshots_dir cfg) fs"

subsection \<open>Saving\<close>

definition proc_path :: "int \<Rightarrow> string \<Rightarrow> string" where
  "proc_path p f = ''/proc/'' @ dec_of_int p @ ''/'' @ f"

text \<open>\<^verbatim>\<open>std::getline\<close> until the end of the file.\<close>

fun split_lines :: "string \<Rightarrow> string \<Rightarrow> string list" where
  "split_lines acc [] = (if acc = [] then [] else [acc])"
| "split_lines acc (c # cs) = (if c = CHR 0x0A then acc # split_lines [] cs else split_lines (acc @ [c]) cs)"

text \<open>\<^verbatim>\<open>%llx\<close> of \<^verbatim>\<open>sscanf\<close>: white space, a sign, a prefix, hexadecimal digits; too large a number is the maximum.\<close>

definition is_hex :: "char \<Rightarrow> bool" where
  "is_hex c = (is_digit c \<or> of_char c \<in> {97 ..< 103 :: nat} \<or> of_char c \<in> {65 ..< 71 :: nat})"

definition hex_val :: "char \<Rightarrow> nat" where
  "hex_val c = (if is_digit c then digit_val c else if of_char c < (97 :: nat) then of_char c - 55 else of_char c - 87)"

definition scan_hex :: "string \<Rightarrow> (u64 \<times> string) option" where
  "scan_hex s =
     (let s1 = dropWhile isspace s;
          neg = (s1 \<noteq> [] \<and> hd s1 = CHR ''-'');
          s2 = (if s1 \<noteq> [] \<and> (hd s1 = CHR ''-'' \<or> hd s1 = CHR ''+'') then tl s1 else s1);
          s3 = (if starts_with s2 ''0x'' \<or> starts_with s2 ''0X'' then drop 2 s2 else s2);
          ds = takeWhile is_hex s3;
          v = foldl (\<lambda>n c. 16 * n + hex_val c) 0 ds in
      if ds = [] then None
      else Some (if 2 ^ 64 \<le> v then - 1 else if neg then - of_nat v else of_nat v, dropWhile is_hex s3))"

definition parse_region :: "string \<Rightarrow> (u64 \<times> u64) option" where
  "parse_region line =
     (case scan_hex line of
        Some (a, c # rest) \<Rightarrow> if c = CHR ''-'' then map_option (\<lambda>(b, _). (a, b)) (scan_hex rest) else None
      | _ \<Rightarrow> None)"

text \<open>
  A region is read into a buffer of zeros, as far as it can be read: \<open>read_mem\<close> gives what a read of so many bytes at a position
  delivers. \<^verbatim>\<open>seekg\<close> takes the address as a signed number: it fails for the upper half of the addresses, and so does the read after it.
\<close>

definition dump_region :: "tools \<Rightarrow> int \<Rightarrow> u64 \<times> u64 \<Rightarrow> string res" where
  "dump_region t p r =
     (case read_mem t p of
        None \<Rightarrow> Inr []
      | Some rd \<Rightarrow>
          let n = unat (snd r - fst r);
              bs = (if (fst r :: u64) < 2 ^ 63 then rd (unat (fst r)) n else []) in
          if 2 ^ 63 \<le> n then Inl Length_error
          else if \<not> buffer_ok t n then Inl Bad_alloc
          else Inr (take n bs @ replicate (n - length bs) (CHR 0x00)))"

fun dump_regions :: "tools \<Rightarrow> int \<Rightarrow> string list \<Rightarrow> string res" where
  "dump_regions t p [] = Inr []"
| "dump_regions t p (line # lines) =
     res_bind (case parse_region line of None \<Rightarrow> Inr [] | Some r \<Rightarrow> dump_region t p r) (\<lambda>bs.
     res_bind (dump_regions t p lines) (\<lambda>rest. Inr (bs @ rest)))"

definition save_process_state :: "tools \<Rightarrow> string \<Rightarrow> int \<Rightarrow> fsys \<Rightarrow> fsys res" where
  "save_process_state t path p fs =
     (let dir = path @ ''/proc/'' @ dec_of_int p;
          fs1 = create_directories dir fs;
          fs2 = copy_if_exists (proc_path p ''status'') (dir @ ''/status'') fs1;
          fs3 = copy_if_exists (proc_path p ''maps'') (dir @ ''/maps'') fs2 in
      case read_file fs3 (proc_path p ''maps'') of
        None \<Rightarrow> Inr fs3
      | Some maps \<Rightarrow>
          res_bind (dump_regions t p (split_lines [] maps)) (\<lambda>bs. Inr (write_file (dir @ ''/mem_dump'') bs fs3)))"

definition save_memory_state :: "string \<Rightarrow> int \<Rightarrow> fsys \<Rightarrow> fsys" where
  "save_memory_state path p fs =
     copy_if_exists (proc_path p ''smaps'') (path @ ''/memory/smaps'')
       (copy_if_exists (proc_path p ''maps'') (path @ ''/memory/maps'')
         (create_directories (path @ ''/memory'') fs))"

definition save_network_state :: "tools \<Rightarrow> string \<Rightarrow> fsys \<Rightarrow> fsys" where
  "save_network_state t path fs =
     (let net = path @ ''/network'' in
      fold (\<lambda>cmd fs. snd (run_system t cmd fs))
        [''iptables-save > '' @ net @ ''/iptables.rules 2>/dev/null'',
         ''ip addr show > '' @ net @ ''/interfaces.txt 2>/dev/null'',
         ''ip route show > '' @ net @ ''/routes.txt 2>/dev/null'']
        (create_directories net fs))"

fun save_processes :: "tools \<Rightarrow> string \<Rightarrow> string list \<Rightarrow> fsys \<Rightarrow> (int list \<times> fsys) res" where
  "save_processes t path [] fs = Inr ([], fs)"
| "save_processes t path (line # lines) fs =
     res_bind (stoi line) (\<lambda>p.
       res_bind (save_process_state t path p fs) (\<lambda>fs1.
       res_bind (save_processes t path lines fs1) (\<lambda>(ps, fs'). Inr (p # ps, fs'))))"

definition cgroup_procs :: "snapshot_config \<Rightarrow> string" where
  "cgroup_procs cfg = ''/sys/fs/cgroup/sandbox-'' @ cfg_sandbox_id cfg @ ''/cgroup.procs''"

definition save_process_list :: "tools \<Rightarrow> snapshot_config \<Rightarrow> string \<Rightarrow> fsys \<Rightarrow> (string list \<times> fsys) res" where
  "save_process_list t cfg path fs =
     (case (if include_processes cfg then read_file fs (cgroup_procs cfg) else None) of
        None \<Rightarrow> Inr ([], fs)
      | Some c \<Rightarrow>
          res_bind (save_processes t path (split_lines [] c) fs) (\<lambda>(ps, fs1).
            Inr ([''processes''], write_file (path @ ''/pids.txt'') (concat (map (\<lambda>p. dec_of_int p @ [CHR 0x0A]) ps)) fs1)))"

text \<open>The text of \<^verbatim>\<open>meta.json\<close>; \<open>Q\<close> is the quotation mark and \<open>NL\<close> the line break with its indentation.\<close>

definition Q :: char where "Q = CHR 0x22"

definition NL :: string where "NL = CHR 0x0A # ''        ''"

definition quoted :: "string \<Rightarrow> string" where
  "quoted s = Q # s @ [Q]"

definition meta_json :: "snapshot_meta \<Rightarrow> string" where
  "meta_json m =
     ''{'' @ NL @ quoted ''id'' @ '': '' @ quoted (id m) @ '','' @
     NL @ quoted ''sandbox_id'' @ '': '' @ quoted (sandbox_id m) @ '','' @
     NL @ quoted ''timestamp'' @ '': '' @ dec_of_nat (unat (timestamp m)) @ '','' @
     NL @ quoted ''size_bytes'' @ '': '' @ dec_of_nat (unat (size_bytes m)) @ '','' @
     NL @ quoted ''checksum'' @ '': '' @ quoted (checksum m) @ '','' @
     NL @ quoted ''description'' @ '': '' @ quoted (description m) @
     CHR 0x0A # ''    }''"

definition strip_newlines :: "string \<Rightarrow> string" where
  "strip_newlines s = rev (dropWhile (\<lambda>c. c = CHR 0x0A) (rev s))"

definition calculate_checksum :: "tools \<Rightarrow> string \<Rightarrow> fsys \<Rightarrow> string" where
  "calculate_checksum t path fs = strip_newlines (md5_pipeline t path fs)"

definition create :: "tools \<Rightarrow> u64 \<Rightarrow> string \<Rightarrow> snapshot_config \<Rightarrow> fsys \<Rightarrow> (snapshot_meta \<times> fsys) res" where
  "create t now desc cfg fs =
     (let i = ''snap-'' @ dec_of_nat (unat now); path = snap_path cfg i; fs1 = create_directories path fs in
      res_bind (save_process_list t cfg path fs1) (\<lambda>(comps, fs2).
        let fs3 = (if include_memory cfg then save_memory_state path 0 fs2 else fs2);
            comps3 = comps @ (if include_memory cfg then [''memory''] else []);
            fs4 = (if include_network cfg then save_network_state t path fs3 else fs3);
            comps4 = comps3 @ (if include_network cfg then [''network''] else []);
            m = \<lparr>id = i, sandbox_id = cfg_sandbox_id cfg, timestamp = now, size_bytes = tree_size path fs4,
                 checksum = calculate_checksum t path fs4, description = desc, included_components = comps4\<rparr> in
        Inr (m, write_file (path @ ''/meta.json'') (meta_json m) fs4)))"

subsection \<open>Reading metadata\<close>

text \<open>
  The time stamp and the size of a fresh \<^verbatim>\<open>SnapshotMeta\<close> are not initialised: \<open>junk\<close> is what
  they hold.
\<close>

definition blank_meta :: "u64 \<times> u64 \<Rightarrow> string \<Rightarrow> snapshot_config \<Rightarrow> snapshot_meta" where
  "blank_meta junk i cfg =
     \<lparr>id = i, sandbox_id = cfg_sandbox_id cfg, timestamp = fst junk, size_bytes = snd junk, checksum = [],
      description = [], included_components = []\<rparr>"

definition key :: "string \<Rightarrow> string" where
  "key k = quoted k @ '':''"

definition number_field :: "string \<Rightarrow> string \<Rightarrow> u64 \<Rightarrow> u64 res" where
  "number_field content k old =
     (case str_find (key k) content of
        None \<Rightarrow> Inr old
      | Some pos \<Rightarrow> res_bind (substr content (pos + 13) None) stoull)"

definition checksum_field :: "string \<Rightarrow> string res" where
  "checksum_field content =
     (case str_find (key ''checksum'') content of
        None \<Rightarrow> Inr []
      | Some pos \<Rightarrow>
          let start = (case str_find_from [Q] content (pos + 12) of None \<Rightarrow> 0 | Some k \<Rightarrow> k + 1) in
          substr content start
            (case str_find_from [Q] content start of None \<Rightarrow> None | Some e \<Rightarrow> Some (e - start)))"

definition parse_numbers :: "string \<Rightarrow> snapshot_meta \<Rightarrow> snapshot_meta res" where
  "parse_numbers content m =
     res_bind (number_field content ''timestamp'' (timestamp m)) (\<lambda>ts.
     res_bind (number_field content ''size_bytes'' (size_bytes m)) (\<lambda>sz.
       Inr (m\<lparr>timestamp := ts, size_bytes := sz\<rparr>)))"

definition get_meta :: "u64 \<times> u64 \<Rightarrow> snapshot_config \<Rightarrow> string \<Rightarrow> fsys \<Rightarrow> snapshot_meta option res" where
  "get_meta junk cfg i fs =
     (let file = snap_path cfg i @ ''/meta.json'' in
      if \<not> exists_path fs file then Inr None
      else res_bind (parse_numbers (case read_file fs file of None \<Rightarrow> [] | Some c \<Rightarrow> c) (blank_meta junk i cfg))
             (\<lambda>m. Inr (Some m)))"

definition list_entry :: "u64 \<times> u64 \<Rightarrow> snapshot_config \<Rightarrow> fsys \<Rightarrow> string \<Rightarrow> snapshot_meta res" where
  "list_entry junk cfg fs i =
     (let content = (case read_file fs (snap_path cfg i @ ''/meta.json'') of None \<Rightarrow> [] | Some c \<Rightarrow> c) in
      res_bind (parse_numbers content (blank_meta junk i cfg)) (\<lambda>m.
      res_bind (checksum_field content) (\<lambda>sum. Inr (m\<lparr>checksum := sum\<rparr>))))"

definition snapshot_ids :: "snapshot_config \<Rightarrow> fsys \<Rightarrow> string list" where
  "snapshot_ids cfg fs =
     filter (\<lambda>i. exists_path fs (snap_path cfg i @ ''/meta.json'')) (subdirectories (snapshots_dir cfg) fs)"

fun map_res :: "('a \<Rightarrow> 'b res) \<Rightarrow> 'a list \<Rightarrow> 'b list res" where
  "map_res f [] = Inr []"
| "map_res f (x # xs) = res_bind (f x) (\<lambda>y. res_bind (map_res f xs) (\<lambda>ys. Inr (y # ys)))"

definition list_snapshots :: "u64 \<times> u64 \<Rightarrow> snapshot_config \<Rightarrow> fsys \<Rightarrow> snapshot_meta list res" where
  "list_snapshots junk cfg fs =
     (if \<not> exists_path fs (snapshots_dir cfg) then Inr []
      else res_bind (map_res (list_entry junk cfg fs) (snapshot_ids cfg fs)) (\<lambda>ms.
        Inr (sort_key (\<lambda>m. - uint (timestamp m)) ms)))"

subsection \<open>Restoring, removing, exporting\<close>

definition restore_process_state :: "string \<Rightarrow> fsys \<Rightarrow> bool res" where
  "restore_process_state path fs =
     (case read_file fs (path @ ''/pids.txt'') of
        None \<Rightarrow> Inr False
      | Some c \<Rightarrow> res_bind (map_res stoi (split_lines [] c)) (\<lambda>_. Inr True))"

definition restore_memory_state :: "string \<Rightarrow> bool" where
  "restore_memory_state path = True"

definition restore_network_state :: "tools \<Rightarrow> string \<Rightarrow> fsys \<Rightarrow> fsys" where
  "restore_network_state t path fs =
     (if exists_path fs (path @ ''/network/iptables.rules'')
      then snd (run_system t (''iptables-restore < '' @ path @ ''/network/iptables.rules 2>/dev/null'') fs)
      else fs)"

definition restore :: "tools \<Rightarrow> snapshot_config \<Rightarrow> string \<Rightarrow> fsys \<Rightarrow> (bool \<times> fsys) res" where
  "restore t cfg i fs =
     (let path = snap_path cfg i in
      if \<not> exists_path fs path then Inr (False, fs)
      else
        let fs1 = (if exists_path fs (path @ ''/network'') then restore_network_state t path fs else fs) in
        if exists_path fs1 (path @ ''/proc'')
        then res_bind (restore_process_state path fs1) (\<lambda>_. Inr (True, fs1))
        else Inr (True, fs1))"

definition remove_snapshot :: "snapshot_config \<Rightarrow> string \<Rightarrow> fsys \<Rightarrow> bool \<times> fsys" where
  "remove_snapshot cfg i fs =
     (if exists_path fs (snap_path cfg i) then (True, remove_all (snap_path cfg i) fs) else (False, fs))"

definition export_to :: "tools \<Rightarrow> snapshot_config \<Rightarrow> string \<Rightarrow> string \<Rightarrow> fsys \<Rightarrow> bool \<times> fsys" where
  "export_to t cfg i path fs =
     (if \<not> exists_path fs (snap_path cfg i) then (False, fs)
      else run_system t (''tar -czf '' @ path @ '' -C '' @ snapshots_dir cfg @ '' '' @ i) fs)"

definition import_from ::
  "tools \<Rightarrow> u64 \<times> u64 \<Rightarrow> snapshot_config \<Rightarrow> string \<Rightarrow> fsys \<Rightarrow> (snapshot_meta option \<times> fsys) res" where
  "import_from t junk cfg path fs =
     (if \<not> exists_path fs path then Inr (None, fs)
      else case run_system t (''tar -xzf '' @ path @ '' -C '' @ snapshots_dir cfg) fs of (ok, fs1) \<Rightarrow>
        if \<not> ok then Inr (None, fs1)
        else (case snapshot_ids cfg fs1 of
                [] \<Rightarrow> Inr (None, fs1)
              | i # _ \<Rightarrow> res_bind (get_meta junk cfg i fs1) (\<lambda>m. Inr (m, fs1))))"

subsection \<open>Specification vocabulary\<close>

definition no_quote :: "string \<Rightarrow> bool" where
  "no_quote s = (Q \<notin> set s)"

definition no_tools :: tools where
  "no_tools = \<lparr>run_system = (\<lambda>cmd fs. (True, fs)), md5_pipeline = (\<lambda>p fs. ''d41d8cd9'' @ [CHR 0x0A]),
     read_mem = (\<lambda>p. None), buffer_ok = (\<lambda>n. True)\<rparr>"

definition demo_config :: snapshot_config where
  "demo_config = \<lparr>cfg_sandbox_id = ''timestamp'', snapshot_dir = ''/s'', include_memory = False,
     include_network = False, include_processes = False, compress = True\<rparr>"

text \<open>A line of \<^verbatim>\<open>/proc/<pid>/maps\<close> as the kernel prints it: two addresses of at least eight digits, and the rest.\<close>

definition hex_char :: "nat \<Rightarrow> char" where
  "hex_char d = char_of (if d < 10 then 48 + d else 87 + d)"

fun hex_of_nat :: "nat \<Rightarrow> string" where
  "hex_of_nat n = (if n < 16 then [hex_char n] else hex_of_nat (n div 16) @ [hex_char (n mod 16)])"

declare hex_of_nat.simps [simp del]

definition hex8 :: "nat \<Rightarrow> string" where
  "hex8 n = replicate (8 - length (hex_of_nat n)) (CHR ''0'') @ hex_of_nat n"

definition maps_line :: "u64 \<times> u64 \<times> string \<Rightarrow> string" where
  "maps_line r = (case r of (a, b, rest) \<Rightarrow> hex8 (unat a) @ ''-'' @ hex8 (unat b) @ '' '' @ rest)"

text \<open>
  The memory of a process, \<open>None\<close> where it cannot be read; a read stops at the first such byte. The image of a region
  has its bytes up to there, and zeros behind.
\<close>

definition mem_file :: "(nat \<Rightarrow> char option) \<Rightarrow> nat \<Rightarrow> nat \<Rightarrow> string" where
  "mem_file mem a n = map (\<lambda>x. the (mem x)) (takeWhile (\<lambda>x. mem x \<noteq> None) [a ..< a + n])"

definition region_image :: "(nat \<Rightarrow> char option) \<Rightarrow> u64 \<times> u64 \<times> string \<Rightarrow> string" where
  "region_image mem r =
     (case r of (a, b, rest) \<Rightarrow>
        map (\<lambda>k. if unat a < 2 ^ 63 \<and> (\<forall>j \<le> k. mem (unat a + j) \<noteq> None) then the (mem (unat a + k)) else CHR 0x00)
          [0 ..< unat (b - a)])"

section \<open>Lemmas\<close>

subsection \<open>Memory regions\<close>

lemma mem_file_padded:
  "take n (mem_file mem a n) @ replicate (n - length (mem_file mem a n)) z =
   map (\<lambda>k. if \<forall>j \<le> k. mem (a + j) \<noteq> None then the (mem (a + k)) else z) [0 ..< n]"
proof (rule nth_equalityI)
  let ?t = "takeWhile (\<lambda>x. mem x \<noteq> None) [a ..< a + n]"
  have le: "length ?t \<le> n" using length_takeWhile_le [of _ "[a ..< a + n]"] by simp
  show "length (take n (mem_file mem a n) @ replicate (n - length (mem_file mem a n)) z) =
      length (map (\<lambda>k. if \<forall>j \<le> k. mem (a + j) \<noteq> None then the (mem (a + k)) else z) [0 ..< n])"
    using le by (simp add: mem_file_def)
  fix k assume "k < length (take n (mem_file mem a n) @ replicate (n - length (mem_file mem a n)) z)"
  with le have k: "k < n" by (simp add: mem_file_def)
  show "(take n (mem_file mem a n) @ replicate (n - length (mem_file mem a n)) z) ! k =
      map (\<lambda>k. if \<forall>j \<le> k. mem (a + j) \<noteq> None then the (mem (a + k)) else z) [0 ..< n] ! k"
  proof (cases "k < length ?t")
    case True
    have "mem (a + j) \<noteq> None" if "j \<le> k" for j
    proof -
      have "?t ! j \<in> set ?t" using True that by (intro nth_mem) simp
      then have "mem (?t ! j) \<noteq> None" by (rule set_takeWhileD [THEN conjunct2])
      moreover have "?t ! j = a + j" using True that le by (simp add: takeWhile_nth)
      ultimately show ?thesis by simp
    qed
    with True le k show ?thesis by (auto simp: mem_file_def nth_append takeWhile_nth)
  next
    case False
    then have l: "length ?t < length [a ..< a + n]" using k by simp
    have "mem (a + length ?t) = None" using nth_length_takeWhile [OF l] l by simp
    with False have "\<not> (\<forall>j \<le> k. mem (a + j) \<noteq> None)" by (metis not_less)
    with False le k show ?thesis by (auto simp: mem_file_def nth_append)
  qed
qed

lemma hex_char_ok: "d < 16 \<Longrightarrow> is_hex (hex_char d) \<and> hex_val (hex_char d) = d"
  by (auto simp: hex_char_def is_hex_def hex_val_def is_digit_def digit_val_def)

lemma hex_of_nat_ok:
  "list_all is_hex (hex_of_nat n) \<and> hex_of_nat n \<noteq> [] \<and> foldl (\<lambda>v c. 16 * v + hex_val c) 0 (hex_of_nat n) = n"
proof (induction n rule: hex_of_nat.induct)
  case (1 n)
  show ?case
  proof (cases "n < 16")
    case True
    then show ?thesis using hex_char_ok [OF True] by (subst (1 2 3) hex_of_nat.simps) simp
  next
    case False
    then show ?thesis using 1 hex_char_ok [of "n mod 16"] by (subst (1 2 3) hex_of_nat.simps) simp
  qed
qed

lemma foldl_zeros: "foldl (\<lambda>v c. 16 * v + hex_val c) 0 (replicate k (CHR ''0'')) = 0"
  by (induction k) (simp_all add: hex_val_def is_digit_def digit_val_def)

lemma hex8_ok: "list_all is_hex (hex8 n)" "hex8 n \<noteq> []" "foldl (\<lambda>v c. 16 * v + hex_val c) 0 (hex8 n) = n"
  using hex_of_nat_ok [of n] by (auto simp: hex8_def foldl_zeros list_all_iff is_hex_def is_digit_def)

lemma hex_not_special: "is_hex c \<Longrightarrow> \<not> isspace c \<and> c \<noteq> CHR ''-'' \<and> c \<noteq> CHR ''+'' \<and> c \<noteq> CHR ''x'' \<and> c \<noteq> CHR ''X''"
  by (auto simp: is_hex_def isspace_def is_digit_def)

lemma scan_hex8:
  assumes "c = CHR ''-'' \<or> c = CHR '' ''"
  shows "scan_hex (hex8 (unat a) @ c # rest) = Some (a, c # rest)"
proof -
  let ?h = "hex8 (unat a)"
  have c: "\<not> is_hex c" "c \<noteq> CHR ''x''" "c \<noteq> CHR ''X''" using assms by (auto simp: is_hex_def is_digit_def)
  obtain d ds where h: "?h = d # ds" using hex8_ok(2) by (cases ?h) auto
  have hex: "is_hex d" "list_all is_hex ds" using hex8_ok(1) [of "unat a"] by (simp_all add: h)
  have "dropWhile isspace (?h @ c # rest) = ?h @ c # rest" "hd (?h @ c # rest) = d"
    using hex_not_special [OF hex(1)] by (simp_all add: h)
  moreover have "\<not> prefix ''0x'' (?h @ c # rest)" "\<not> prefix ''0X'' (?h @ c # rest)"
    using c hex hex_not_special by (cases ds; auto simp: h prefix_def)+
  moreover have "takeWhile is_hex (?h @ c # rest) = ?h" "dropWhile is_hex (?h @ c # rest) = c # rest"
    using hex8_ok(1) [of "unat a"] c(1) by (simp_all add: list_all_iff takeWhile_append2 dropWhile_append2)
  moreover have "unat a < 2 ^ 64" using unsigned_less [of a] by simp
  ultimately show ?thesis
    using hex_not_special [OF hex(1)] hex8_ok(2,3) [of "unat a"] unfolding scan_hex_def Let_def starts_with_def by simp
qed

lemma parse_maps_line: "parse_region (maps_line (a, b, rest)) = Some (a, b)"
  using scan_hex8 [of "CHR ''-''" a "hex8 (unat b) @ '' '' @ rest"] scan_hex8 [of "CHR '' ''" b rest]
  by (simp add: parse_region_def maps_line_def)

subsection \<open>Finding a key\<close>

lemma str_find_skip:
  "c \<notin> set xs \<Longrightarrow> str_find (c # p) ys = Some i \<Longrightarrow> str_find (c # p) (xs @ ys) = Some (length xs + i)"
  by (induction xs) auto

lemma prefix_delim:
  assumes "d \<notin> set a" "d \<notin> set s"
  shows "prefix (a @ d # b) (s @ d # r) \<longleftrightarrow> s = a \<and> prefix b r"
  using assms by (induction a arbitrary: s) (case_tac s; auto)+

lemma no_quote_simps [simp]:
  "no_quote []" "no_quote (c # s) \<longleftrightarrow> c \<noteq> Q \<and> no_quote s" "no_quote (s @ t) \<longleftrightarrow> no_quote s \<and> no_quote t"
  by (auto simp: no_quote_def)

lemma no_quote_dec [simp]: "no_quote (dec_of_nat n)"
  using dec_of_nat_digits [of n] by (force simp: no_quote_def Q_def is_digit_def)

lemma no_quote_NL [simp]: "no_quote NL"
  by (simp add: NL_def Q_def)

text \<open>
  \<open>first_at k pre rest\<close>: the first occurrence of the key in the text is where \<open>pre\<close> ends. The
  search passes over quoted strings that are not the key.
\<close>

definition first_at :: "string \<Rightarrow> string \<Rightarrow> string \<Rightarrow> bool" where
  "first_at k pre rest = (str_find (key k) (pre @ rest) = Some (length pre))"

lemma first_at_here: "first_at k [] (key k @ rest)"
  by (simp add: first_at_def str_find_0_iff)

lemma first_at_text:
  "no_quote xs \<Longrightarrow> first_at k pre rest \<Longrightarrow> first_at k (xs @ pre) rest"
  unfolding first_at_def key_def quoted_def no_quote_def by (simp add: str_find_skip)

lemma first_at_quoted:
  assumes nq: "no_quote s" "no_quote sep" "no_quote k" and k: "k \<noteq> []" "sep \<noteq> []" "hd k \<noteq> hd sep"
    and ne: "s = k \<Longrightarrow> hd sep \<noteq> CHR '':''" and at: "first_at k pre rest"
  shows "first_at k (quoted s @ sep @ pre) rest"
proof -
  have key: "key k = Q # k @ Q # '':''" by (simp add: key_def quoted_def)
  have "str_find (key k) (sep @ pre @ rest) = Some (length sep + length pre)"
    using at nq(2) unfolding first_at_def key no_quote_def by (intro str_find_skip)
  then have "str_find (key k) (Q # sep @ pre @ rest) = Some (Suc (length sep + length pre))"
    using k by (auto simp: key neq_Nil_conv)
  then have "str_find (key k) (s @ Q # sep @ pre @ rest) = Some (length s + Suc (length sep + length pre))"
    using nq(1) unfolding key no_quote_def by (intro str_find_skip)
  moreover have "\<not> prefix (k @ Q # '':'') (s @ Q # sep @ pre @ rest)"
    using nq k ne by (subst prefix_delim) (auto simp: no_quote_def neq_Nil_conv)
  ultimately show ?thesis by (simp add: first_at_def key quoted_def)
qed

text \<open>The three keys the readers look for, each with the text before it.\<close>

definition before_timestamp :: "snapshot_meta \<Rightarrow> string" where
  "before_timestamp m = (''{'' @ NL) @ quoted ''id'' @ '': '' @ quoted (id m) @ ('','' @ NL) @
     quoted ''sandbox_id'' @ '': '' @ quoted (sandbox_id m) @ ('','' @ NL)"

definition timestamp_line :: "snapshot_meta \<Rightarrow> string" where
  "timestamp_line m = quoted ''timestamp'' @ ('': '' @ dec_of_nat (unat (timestamp m)) @ '','' @ NL)"

definition size_line :: "snapshot_meta \<Rightarrow> string" where
  "size_line m = quoted ''size_bytes'' @ ('': '' @ dec_of_nat (unat (size_bytes m)) @ '','' @ NL)"

definition from_checksum :: "snapshot_meta \<Rightarrow> string" where
  "from_checksum m = quoted ''checksum'' @ '': '' @ quoted (checksum m) @ '','' @
     NL @ quoted ''description'' @ '': '' @ quoted (description m) @ CHR 0x0A # ''    }''"

lemma meta_json_split:
  "meta_json m = before_timestamp m @ timestamp_line m @ size_line m @ from_checksum m"
  by (simp add: meta_json_def before_timestamp_def timestamp_line_def size_line_def from_checksum_def)

lemma first_after_ids:
  assumes "no_quote (id m)" "no_quote (sandbox_id m)" and k: "k \<in> {''timestamp'', ''size_bytes'', ''checksum''}"
    and "first_at k pre rest"
  shows "first_at k (before_timestamp m @ pre) rest"
proof -
  have kk: "no_quote k" "k \<noteq> []" "hd k \<noteq> CHR '':''" "hd k \<noteq> CHR '',''" "k \<noteq> ''id''" "k \<noteq> ''sandbox_id''"
    using k by (auto simp: Q_def)
  have f0: "first_at k (quoted (sandbox_id m) @ ('','' @ NL) @ pre) rest"
    by (rule first_at_quoted) (use assms kk  in \<open>auto simp: Q_def\<close>)
  have f1: "first_at k (quoted ''sandbox_id'' @ '': '' @ quoted (sandbox_id m) @ ('','' @ NL) @ pre) rest"
    by (rule first_at_quoted) (use assms kk f0 in \<open>auto simp: Q_def\<close>)
  have f2: "first_at k (quoted (id m) @ ('','' @ NL) @ quoted ''sandbox_id'' @ '': '' @ quoted (sandbox_id m) @ ('','' @ NL) @ pre) rest"
    by (rule first_at_quoted) (use assms kk f1 in \<open>auto simp: Q_def\<close>)
  have f3: "first_at k (quoted ''id'' @ '': '' @ quoted (id m) @ ('','' @ NL) @ quoted ''sandbox_id'' @ '': '' @
      quoted (sandbox_id m) @ ('','' @ NL) @ pre) rest"
    by (rule first_at_quoted) (use assms kk f2 in \<open>auto simp: Q_def\<close>)
  have f4: "first_at k ((''{'' @ NL) @ quoted ''id'' @ '': '' @ quoted (id m) @ ('','' @ NL) @ quoted ''sandbox_id'' @ '': '' @
      quoted (sandbox_id m) @ ('','' @ NL) @ pre) rest"
    by (rule first_at_text) (use f3 in \<open>auto simp: Q_def\<close>)
  from f4 show ?thesis by (simp add: before_timestamp_def)
qed

lemma keys_found:
  assumes "no_quote (id m)" "no_quote (sandbox_id m)"
  shows "str_find (key ''timestamp'') (meta_json m) = Some (length (before_timestamp m))"
    "str_find (key ''size_bytes'') (meta_json m) = Some (length (before_timestamp m @ timestamp_line m))"
    "str_find (key ''checksum'') (meta_json m) = Some (length (before_timestamp m @ timestamp_line m @ size_line m))"
proof -
  note ids = first_after_ids [OF assms]
  have "first_at ''timestamp'' [] (timestamp_line m @ size_line m @ from_checksum m)"
    using first_at_here [of "''timestamp''"] by (simp add: timestamp_line_def key_def)
  from ids [OF _ this] show "str_find (key ''timestamp'') (meta_json m) = Some (length (before_timestamp m))"
    by (simp add: first_at_def meta_json_split)
  have sz: "first_at ''size_bytes'' [] (size_line m @ from_checksum m)"
    using first_at_here [of "''size_bytes''"] by (simp add: size_line_def key_def)
  have "first_at ''size_bytes'' (timestamp_line m @ []) (size_line m @ from_checksum m)"
    unfolding timestamp_line_def append_assoc [of "quoted _"] by (rule first_at_quoted [OF _ _ _ _ _ _ _ sz]) (auto simp: Q_def)
  from ids [OF _ this] show "str_find (key ''size_bytes'') (meta_json m) = Some (length (before_timestamp m @ timestamp_line m))"
    by (simp add: first_at_def meta_json_split)
  have ck: "first_at ''checksum'' [] (from_checksum m)"
    using first_at_here [of "''checksum''"] by (simp add: from_checksum_def key_def)
  have sl: "first_at ''checksum'' (size_line m @ []) (from_checksum m)"
    unfolding size_line_def append_assoc [of "quoted _"] by (rule first_at_quoted [OF _ _ _ _ _ _ _ ck]) (auto simp: Q_def)
  have "first_at ''checksum'' (timestamp_line m @ size_line m @ []) (from_checksum m)"
    unfolding timestamp_line_def append_assoc [of "quoted _"] by (rule first_at_quoted [OF _ _ _ _ _ _ _ sl]) (auto simp: Q_def)
  from ids [OF _ this] show "str_find (key ''checksum'') (meta_json m) = Some (length (before_timestamp m @ timestamp_line m @ size_line m))"
    by (simp add: first_at_def meta_json_split)
qed

lemma number_field_at:
  assumes "str_find (key k) content = Some (length pre)" and "content = pre @ key k @ '' '' @ dec_of_nat (unat n) @ '','' @ rest"
    and "length k \<in> {9, 10}"
  shows "number_field content k old = Inr n"
proof -
  obtain ws where ws: "drop (length pre + 13) content = ws @ dec_of_nat (unat n) @ '','' @ rest" "\<forall>c \<in> set ws. isspace c"
    using assms(2,3) that [of "[]"] that [of "'' ''"] by (auto simp: key_def quoted_def isspace_def eval_nat_numeral)
  have "unat n < 2 ^ LENGTH(64)" by (rule unsigned_less)
  then have "stoull (ws @ dec_of_nat (unat n) @ '','' @ rest) = Inr n"
    using stoull_dec [of "'','' @ rest" ws "unat n"] ws(2) by (simp add: is_digit_def)
  moreover have "length pre + 13 \<le> length content" using assms(2,3) by (auto simp: key_def quoted_def)
  ultimately show ?thesis using assms(1) ws(1) by (simp add: number_field_def substr_def)
qed

lemma number_fields:
  assumes "no_quote (id m)" "no_quote (sandbox_id m)"
  shows "number_field (meta_json m) ''timestamp'' a = Inr (timestamp m)"
    "number_field (meta_json m) ''size_bytes'' b = Inr (size_bytes m)"
proof -
  show "number_field (meta_json m) ''timestamp'' a = Inr (timestamp m)"
    by (rule number_field_at [OF keys_found(1) [OF assms], where rest = "NL @ size_line m @ from_checksum m"])
      (simp_all add: meta_json_split timestamp_line_def key_def)
  show "number_field (meta_json m) ''size_bytes'' b = Inr (size_bytes m)"
    by (rule number_field_at [OF keys_found(2) [OF assms], where rest = "NL @ from_checksum m"])
      (simp_all add: meta_json_split size_line_def key_def)
qed

lemma checksum_field_json:
  assumes "no_quote (id m)" "no_quote (sandbox_id m)" "no_quote (checksum m)"
  shows "checksum_field (meta_json m) = Inr (checksum m)"
proof -
  define pre where "pre = before_timestamp m @ timestamp_line m @ size_line m"
  define rest where "rest = '','' @ NL @ quoted ''description'' @ '': '' @ quoted (description m) @ CHR 0x0A # ''    }''"
  have c: "meta_json m = (pre @ quoted ''checksum'' @ '': '') @ Q # checksum m @ Q # rest"
    by (simp add: meta_json_split from_checksum_def pre_def rest_def quoted_def)
  have l: "length (pre @ quoted ''checksum'' @ '': '') = length pre + 12" by (simp add: quoted_def)
  have d: "drop (length pre + 12) (meta_json m) = Q # checksum m @ Q # rest"
    unfolding c l [symmetric] by simp
  then have d': "drop (length pre + 13) (meta_json m) = checksum m @ Q # rest"
    by (metis add_Suc_right drop_Suc_Cons drop_drop eval_nat_numeral(3) plus_1_eq_Suc add.commute drop_Suc list.sel(3) tl_drop)
  have f1: "str_find_from [Q] (meta_json m) (length pre + 12) = Some (length pre + 12)"
    unfolding str_find_from_def d using c l by simp
  have "str_find [Q] (checksum m @ Q # rest) = Some (length (checksum m))"
    using assms(3) by (simp add: str_find_char_append no_quote_def)
  then have f2: "str_find_from [Q] (meta_json m) (length pre + 13) = Some (length pre + 13 + length (checksum m))"
    unfolding str_find_from_def d' using c l by simp
  have "length pre + 13 \<le> length (meta_json m)" using c l by simp
  then show ?thesis
    using keys_found(3) [OF assms(1,2), folded pre_def] f1 f2 d'
    by (simp add: checksum_field_def substr_def Let_def add.commute [of 13])
qed

lemma map_res_Inr:
  "map_res f xs = Inr ys \<Longrightarrow> length ys = length xs \<and> (\<forall>i < length xs. f (xs ! i) = Inr (ys ! i))"
proof (induction xs arbitrary: ys)
  case (Cons x xs)
  then show ?case by (auto simp: nth_Cons split: nat.splits)
qed simp

lemma list_entry_id: "list_entry junk cfg fs i = Inr m \<Longrightarrow> id m = i"
  by (auto simp: list_entry_def parse_numbers_def blank_meta_def Let_def)

text \<open>An entry of a directory that is visited is in the list.\<close>

lemma listed_entry:
  assumes "list_snapshots junk cfg fs = Inr ms" "exists_path fs (snapshots_dir cfg)" "i \<in> set (snapshot_ids cfg fs)"
    and "list_entry junk cfg fs i = Inr m"
  shows "m \<in> set ms"
proof -
  obtain ms0 where ms0: "map_res (list_entry junk cfg fs) (snapshot_ids cfg fs) = Inr ms0" "set ms = set ms0"
    using assms(1,2) by (auto simp: list_snapshots_def)
  obtain k where "k < length (snapshot_ids cfg fs)" "snapshot_ids cfg fs ! k = i" using assms(3) by (auto simp: in_set_conv_nth)
  then have "list_entry junk cfg fs i = Inr (ms0 ! k)" "k < length ms0" using map_res_Inr [OF ms0(1)] by auto
  then show ?thesis using assms(4) ms0(2) by simp
qed

section \<open>Properties\<close>

text \<open>
  C25. What of the metadata comes back. From the text that \<open>create\<close> wrote, \<open>get_meta\<close> reads by textual search exactly the id, the sandbox,
  the time stamp and the size, for any description, as long as the sandbox id and the checksum hold no quotation mark; \<open>list\<close>, whenever it
  returns and visits the directory of the snapshot, has an entry with these and the checksum. The description, the components and, for
  \<open>get_meta\<close>, the checksum are lost.
\<close>

theorem metadata_roundtrip:
  assumes "create t now desc cfg fs = Inr (m, fs')" and "no_quote (cfg_sandbox_id cfg)" and "no_quote (checksum m)"
  shows "id m = ''snap-'' @ dec_of_nat (unat now) \<and> timestamp m = now \<and>
    get_meta junk cfg (id m) fs' = Inr (Some (m\<lparr>checksum := [], description := [], included_components := []\<rparr>)) \<and>
    list_entry junk cfg fs' (id m) = Inr (m\<lparr>description := [], included_components := []\<rparr>) \<and>
    (\<forall>ms. list_snapshots junk cfg fs' = Inr ms \<and> exists_path fs' (snapshots_dir cfg) \<and> id m \<in> set (snapshot_ids cfg fs') \<longrightarrow>
       m\<lparr>description := [], included_components := []\<rparr> \<in> set ms)"
proof -
  have m: "id m = ''snap-'' @ dec_of_nat (unat now)" "sandbox_id m = cfg_sandbox_id cfg" "timestamp m = now"
    and "\<exists>fs4. fs' = write_file (snap_path cfg (id m) @ ''/meta.json'') (meta_json m) fs4"
    using assms(1) by (auto simp: create_def Let_def split: sum.splits)
  then have r: "read_file fs' (snap_path cfg (id m) @ ''/meta.json'') = Some (meta_json m)"
    "exists_path fs' (snap_path cfg (id m) @ ''/meta.json'')"
    by (auto simp: read_file_def exists_path_def write_file_def update_conv)
  have nq: "no_quote (id m)" "no_quote (sandbox_id m)" using assms(2) by (auto simp: m Q_def)
  have g: "get_meta junk cfg (id m) fs' = Inr (Some (m\<lparr>checksum := [], description := [], included_components := []\<rparr>))"
    and e: "list_entry junk cfg fs' (id m) = Inr (m\<lparr>description := [], included_components := []\<rparr>)"
    using r m(2,3) number_fields [OF nq] checksum_field_json [OF nq assms(3)]
    by (simp_all add: get_meta_def list_entry_def parse_numbers_def blank_meta_def Let_def m(1))
  show ?thesis using m(1,3) g e listed_entry [OF _ _ _ e] by blast
qed

theorem metadata_roundtrip_witness:
  "\<exists>m fs'. create no_tools 17 (key ''timestamp'') demo_config [] = Inr (m, fs') \<and>
     get_meta (0, 0) demo_config (id m) fs' = Inr (Some (m\<lparr>checksum := [], description := [], included_components := []\<rparr>))"
proof -
  obtain m fs' where c: "create no_tools 17 (key ''timestamp'') demo_config [] = Inr (m, fs')" "checksum m = ''d41d8cd9''"
    by (simp add: create_def save_process_list_def demo_config_def Let_def calculate_checksum_def strip_newlines_def
        no_tools_def)
  from metadata_roundtrip [OF c(1), of "(0, 0)"] c show ?thesis by (auto simp: demo_config_def Q_def)
qed

text \<open>
  Listing: when \<open>list\<close> returns, it returns exactly one entry for every directory of the sandbox
  that has metadata, each read from that directory's file, the newest first. It fails only if
  the metadata of some directory cannot be read.
\<close>

theorem listing_complete_and_sorted:
  assumes "exists_path fs (snapshots_dir cfg)" and "\<forall>i \<in> set (snapshot_ids cfg fs). \<exists>m. list_entry junk cfg fs i = Inr m"
  shows "\<exists>ms. list_snapshots junk cfg fs = Inr ms \<and> mset (map id ms) = mset (snapshot_ids cfg fs) \<and>
    sorted_wrt (\<lambda>a b. timestamp b \<le> timestamp a) ms \<and> list_all (\<lambda>m. list_entry junk cfg fs (id m) = Inr m) ms"
proof -
  have "\<exists>ms. map_res f is = Inr ms" if "\<forall>i \<in> set is. \<exists>m. f i = Inr m" for f :: "string \<Rightarrow> snapshot_meta res" and "is"
    using that by (induction "is") auto
  then obtain ms where ms: "map_res (list_entry junk cfg fs) (snapshot_ids cfg fs) = Inr ms" using assms(2) by blast
  have len: "length ms = length (snapshot_ids cfg fs)" using map_res_Inr [OF ms] by blast
  have nth: "list_entry junk cfg fs (snapshot_ids cfg fs ! i) = Inr (ms ! i)" "id (ms ! i) = snapshot_ids cfg fs ! i"
    if "i < length ms" for i
    using map_res_Inr [OF ms] that list_entry_id [of junk cfg fs "snapshot_ids cfg fs ! i" "ms ! i"]
    by (simp_all add: len)
  have "map id ms = snapshot_ids cfg fs" by (rule nth_equalityI) (simp_all only: length_map len nth nth_map)
  moreover have "list_all (\<lambda>m. list_entry junk cfg fs (id m) = Inr m) ms"
    by (simp add: list_all_length nth)
  moreover have "sorted_wrt (\<lambda>a b. timestamp b \<le> timestamp a) (sort_key (\<lambda>m. - uint (timestamp m)) ms)"
    using sorted_sort_key [of "\<lambda>m. - uint (timestamp m)" ms] by (simp add: sorted_wrt_map word_le_def)
  ultimately show ?thesis
    using ms assms(1) by (simp add: list_snapshots_def list_all_iff) (metis mset_map mset_sort)
qed

theorem listing_complete_and_sorted_witness:
  "let fs = [(''/s/timestamp'', Dir), (''/s/timestamp/x'', Dir), (''/s/timestamp/x/meta.json'', File [])] in
   \<exists>ms. list_snapshots (5, 6) demo_config fs = Inr ms \<and> mset (map id ms) = {#''x''#}"
proof -
  let ?fs = "[(''/s/timestamp'', Dir), (''/s/timestamp/x'', Dir), (''/s/timestamp/x/meta.json'', File [])]"
  have ids: "snapshot_ids demo_config ?fs = [''x'']"
    by (simp add: snapshot_ids_def subdirectories_def beneath_def snapshots_dir_def snap_path_def exists_path_def demo_config_def)
  have "exists_path ?fs (snapshots_dir demo_config)"
    by (simp add: exists_path_def snapshots_dir_def demo_config_def)
  moreover have "\<exists>m. list_entry (5, 6) demo_config ?fs ''x'' = Inr m"
    by (simp add: list_entry_def read_file_def snap_path_def snapshots_dir_def demo_config_def parse_numbers_def
        number_field_def checksum_field_def key_def quoted_def)
  ultimately show ?thesis
    using listing_complete_and_sorted [of ?fs demo_config "(5, 6)"] ids by auto
qed

text \<open>
  An import reports the first directory that has metadata, whether it came from the archive or
  not.
\<close>

theorem import_returns_first_directory:
  assumes "exists_path fs path" "run_system t (''tar -xzf '' @ path @ '' -C '' @ snapshots_dir cfg) fs = (True, fs1)"
    and "snapshot_ids cfg fs1 = i # is"
  shows "import_from t junk cfg path fs = res_bind (get_meta junk cfg i fs1) (\<lambda>m. Inr (m, fs1))"
  using assms by (simp add: import_from_def)



end
