(* ===== verification/Worker_Main.thy ===== *)
theory Worker_Main
  imports Job_Loop
begin

section \<open>The main program of the worker\<close>

text \<open>
  \<^verbatim>\<open>main\<close> of \<^verbatim>\<open>sandbox/src/main.cpp\<close> from the command line to the last destructor: the objects it
  declares, the services it starts, every early return, the loop of \<open>Job_Loop\<close>, the shutdown,
  and the destruction of the objects in the reverse order of their declarations. What the program does
  beside its objects is a trace: the lines it prints, the threads that start and are joined, the
  descriptors it closes, and the objects whose destructors have run. An exception nobody catches ends the
  program without destructors, at any request of the loop too, and so does the signal that a write to a broken
  connection raises.
\<close>

subsection \<open>Objects, threads and events\<close>

datatype main_object =
    O_metrics | O_metrics_server | O_health_monitor | O_log_agg | O_file_watcher | O_resource_manager
  | O_process_supervisor | O_security_manager | O_net_manager | O_ipc_manager | O_redis

datatype service_thread = Health_thread | Watch_thread | Ipc_thread | Resource_thread string

datatype main_event =
    Cout string | Cerr string
  | Spawn service_thread | Join service_thread
  | Closed int | Inotify inotify_call | Supervised sup_effect
  | Destroyed main_object

datatype main_check = Check_redis | Check_sandbox | Check_resources

datatype ipc_callback = Log_command

datatype death = Uncaught fault | Sigpipe

datatype ending = Return int | Die death

text \<open>
  The answers of the system calls, the clients of the network and the turns of the loop until a signal
  ends it (the replies come from the network). A call of \<^verbatim>\<open>::send\<close> that fails with \<^verbatim>\<open>EPIPE\<close>
  raises \<^verbatim>\<open>SIGPIPE\<close>, for which the program has no handler: \<open>m_epipe\<close> tells it of the network after the call.
\<close>

record ('w, 'u, 'r) machine =
  m_pid :: int
  m_prog :: string
  m_shell :: "'w shell"
  m_ux :: "'u ux"
  m_net :: "'r net"
  m_epipe :: "'r \<Rightarrow> bool"
  m_heap :: Redis_Client.host
  m_socket :: int
  m_bind :: int
  m_listen :: int
  m_inotify :: int
  m_add_watch :: "int \<Rightarrow> int"
  m_now :: nat
  m_turns :: "turn list"

record ('w, 'u, 'r) program =
  core :: main_state
  metrics_srv :: metrics_server
  health :: "main_check health_monitor"
  watcher :: file_watcher
  resources :: resource_manager
  sup :: supervisor
  ipc :: "ipc_callback ipc_manager option"
  redis :: redis_client
  shell_host :: "'w Netns.host"
  ux_world :: 'u
  net_world :: 'r
  declared :: "main_object list"
  sent :: "string list list"
  parent_calls :: "parent_call list"
  trace :: "main_event list"

definition emit :: "main_event list \<Rightarrow> ('w, 'u, 'r) program \<Rightarrow> ('w, 'u, 'r) program" where
  "emit es p = p\<lparr>trace := trace p @ es\<rparr>"

text \<open>A line of output.\<close>

definition line :: "string \<Rightarrow> string" where
  "line s = s @ [CHR 0x0A]"

definition show_bool :: "bool \<Rightarrow> string" where
  "show_bool b = (if b then ''true'' else ''false'')"

definition show_port :: "u16 \<Rightarrow> string" where
  "show_port p = dec_of_nat (unat p)"

definition print_usage :: "string \<Rightarrow> string" where
  "print_usage prog =
     line (''Usage: '' @ prog @ '' [options]'') @
     line ''  -h, --host HOST       Redis host (default: 127.0.0.1)'' @
     line ''  -p, --port PORT       Redis port (default: 1234)'' @
     line ''  -i, --id ID           Sandbox ID (default: auto)'' @
     line ''  -t, --type TYPE       Target type (default: local)'' @
     line ''  -m, --metrics-port    Prometheus port (default: 9090)'' @
     line ''  -w, --watch PATH      Watch path for auto-trigger'' @
     line ''  -n, --no-seccomp      Disable seccomp filter'' @
     line ''  --security PROFILE    Security profile (minimal/standard/relaxed/network/filesystem/untrusted)'' @
     line ''  --enable-netns        Enable network namespace isolation'' @
     line ''  --enable-ipc          Enable inter-sandbox IPC'' @
     line ''  --max-restarts N      Max restarts on failure (default: 3)'' @
     line '' --help                Show this help''"

definition banner :: "options \<Rightarrow> string" where
  "banner opts =
     line (''[sandbox] id='' @ opt_id opts @ '' type='' @ opt_type opts @ '' host='' @ opt_host opts @ '':'' @ show_port (opt_port opts) @
       '' metrics='' @ show_port (opt_metrics_port opts) @ '' seccomp='' @ show_bool (opt_use_seccomp opts) @
       '' profile='' @ opt_security_profile opts @ '' netns='' @ show_bool (opt_enable_netns opts) @
       '' ipc='' @ show_bool (opt_enable_ipc opts))"

subsection \<open>Declarations\<close>

definition declare_object :: "main_object \<Rightarrow> ('w, 'u, 'r) program \<Rightarrow> ('w, 'u, 'r) program" where
  "declare_object ob p = p\<lparr>declared := ob # declared p\<rparr>"

text \<open>The objects of \<^verbatim>\<open>main\<close> up to the first service, in the order of their declarations.\<close>

definition components :: "main_object list" where
  "components =
     [O_metrics, O_metrics_server, O_health_monitor, O_log_agg, O_file_watcher, O_resource_manager,
      O_process_supervisor, O_security_manager, O_net_manager, O_ipc_manager]"

definition init_components ::
  "options \<Rightarrow> 'w Netns.host \<Rightarrow> 'u \<Rightarrow> 'r \<Rightarrow> ('w, 'u, 'r) program" where
  "init_components opts h u r =
     fold declare_object components
       \<lparr>core = new_main_state,
        metrics_srv = Metrics.set_exporter True (new_metrics_server (opt_metrics_port opts)),
        health = new_health_monitor, watcher = new_file_watcher, resources = new_resource_manager,
        sup = new_supervisor, ipc = None, redis = new_client, shell_host = h, ux_world = u, net_world = r,
        declared = [], sent = [], parent_calls = [], trace = [Cout (banner opts)]\<rparr>"

definition register_checks :: "nat \<Rightarrow> ('w, 'u, 'r) program \<Rightarrow> ('w, 'u, 'r) program" where
  "register_checks now p =
     p\<lparr>health := register_check now ''resources'' Check_resources
                  (register_check now ''sandbox'' Check_sandbox
                    (register_check now ''redis'' Check_redis (health p)))\<rparr>"

text \<open>The three checks: two constants, and the query of the resource manager.\<close>

fun run_check :: "u64 \<Rightarrow> (string \<Rightarrow> nat \<Rightarrow> proc_files) \<Rightarrow> resource_manager \<Rightarrow> main_check \<Rightarrow> bool \<times> string" where
  "run_check clk files rm Check_redis = (True, ''ok'')"
| "run_check clk files rm Check_sandbox = (True, ''running'')"
| "run_check clk files rm Check_resources = resources_check (fst (get_resource_global_stats clk files rm))"

subsection \<open>Start-up\<close>

text \<open>A stage either goes on or ends the program; the next one runs only in the first case.\<close>

type_synonym ('w, 'u, 'r) stage = "('w, 'u, 'r) program \<Rightarrow> ending option \<times> ('w, 'u, 'r) program"

definition and_then :: "ending option \<times> ('w, 'u, 'r) program \<Rightarrow> ('w, 'u, 'r) stage \<Rightarrow> ending option \<times> ('w, 'u, 'r) program" where
  "and_then r f = (case r of (None, p) \<Rightarrow> f p | (Some e, p) \<Rightarrow> (Some e, p))"

definition fail :: "string \<Rightarrow> ('w, 'u, 'r) stage" where
  "fail msg p = (Some (Return 1), emit [Cerr (line msg)] p)"

definition check_profile :: "options \<Rightarrow> ('w, 'u, 'r) stage" where
  "check_profile opts p =
     (case get_profile (security_manager (core p)) (opt_security_profile opts) of
        None \<Rightarrow> fail (''[sandbox] unknown security profile: '' @ opt_security_profile opts) p
      | Some _ \<Rightarrow> (None, p))"

definition init_network :: "('w, 'u, 'r) machine \<Rightarrow> options \<Rightarrow> ('w, 'u, 'r) stage" where
  "init_network m opts p =
     (if \<not> opt_enable_netns opts then (None, p)
      else
        let mgr = new_network_manager main_netns_config; (ok, h) = Netns.init (m_shell m) mgr (shell_host p);
            p1 = p\<lparr>core := (core p)\<lparr>net_manager := Some mgr\<rparr>, shell_host := h\<rparr> in
        if \<not> ok then fail ''[sandbox] failed to init network manager'' p1
        else (None, emit [Cout (line ''[sandbox] network namespace manager ready'')] p1))"

definition main_ipc_config :: "options \<Rightarrow> ipc_config" where
  "main_ipc_config opts =
     \<lparr>sandbox_id = opt_id opts, socket_path = ''/tmp/sandbox-ipc'', max_message_size = 65536, queue_size = 1000,
      enable_logging = False\<rparr>"

text \<open>A channel that could not be registered is reported, and the program goes on without it.\<close>

definition init_ipc :: "('w, 'u, 'r) machine \<Rightarrow> options \<Rightarrow> ('w, 'u, 'r) stage" where
  "init_ipc m opts p =
     (if \<not> opt_enable_ipc opts then (None, p)
      else
        (case register_sandbox (m_ux m) (opt_id opts) (new_ipc_manager (main_ipc_config opts)) (ux_world p) of
           (None, mgr, u) \<Rightarrow>
             (None, emit [Cerr (line ''[sandbox] failed to register IPC channel'')] (p\<lparr>ipc := Some mgr, ux_world := u\<rparr>))
         | (Some ch, mgr, u) \<Rightarrow>
             (None, emit [Spawn Ipc_thread, Cout (line ''[sandbox] IPC channel ready'')]
                (p\<lparr>ipc := Some (put_channel (opt_id opts) (snd (subscribe ''command'' Log_command ch)) mgr), ux_world := u\<rparr>))))"

definition start_metrics :: "('w, 'u, 'r) machine \<Rightarrow> options \<Rightarrow> ('w, 'u, 'r) program \<Rightarrow> ('w, 'u, 'r) program" where
  "start_metrics m opts p =
     (case Metrics.start (m_socket m) (m_bind m) (m_listen m) (metrics_srv p) of (ok, fds, srv) \<Rightarrow>
        emit (map Closed fds @
              (if ok then [Cout (line (''[sandbox] metrics on :'' @ show_port (opt_metrics_port opts) @ ''/metrics''))] else []))
          (p\<lparr>metrics_srv := srv\<rparr>))"

definition start_health :: "('w, 'u, 'r) program \<Rightarrow> ('w, 'u, 'r) program" where
  "start_health p =
     emit (if Health_Monitor.running (health p) then [] else [Spawn Health_thread])
       (p\<lparr>health := Health_Monitor.start (Health_Monitor.set_interval_ms 5000 (health p))\<rparr>)"

definition start_watcher :: "('w, 'u, 'r) machine \<Rightarrow> options \<Rightarrow> ('w, 'u, 'r) program \<Rightarrow> ('w, 'u, 'r) program" where
  "start_watcher m opts p =
     (if opt_watch_path opts = [] then p
      else
        let fw = File_Watcher.on_change (snd (watch (m_inotify m) (m_add_watch m) (watcher p))) in
        emit ((if File_Watcher.running fw then [] else [Spawn Watch_thread]) @
              [Cout (line (''[sandbox] watching: '' @ opt_watch_path opts))])
          (p\<lparr>watcher := File_Watcher.start fw\<rparr>))"

definition start_services :: "('w, 'u, 'r) machine \<Rightarrow> options \<Rightarrow> ('w, 'u, 'r) stage" where
  "start_services m opts p =
     (let p1 = start_watcher m opts (start_health (start_metrics m opts p)) in
      (None, p1\<lparr>sup := on_event (sup p1)\<rparr>))"

definition connect_redis :: "('w, 'u, 'r) machine \<Rightarrow> options \<Rightarrow> ('w, 'u, 'r) stage" where
  "connect_redis m opts p =
     (case Redis_Client.connect (m_net m) (opt_host opts) (opt_port opts) new_client (net_world p) of (ok, c, r) \<Rightarrow>
        let p1 = declare_object O_redis (p\<lparr>redis := c, net_world := r\<rparr>) in
        if \<not> ok then fail (''[sandbox] failed to connect to '' @ opt_host opts @ '':'' @ show_port (opt_port opts)) p1
        else (None, emit [Cout (line ''[sandbox] connected to Redis'')] p1))"

definition register_request :: "options \<Rightarrow> string list" where
  "register_request opts = cmd_sandbox_register (opt_id opts) (opt_type opts) (opt_host opts @ '':'' @ show_port (opt_port opts))"

text \<open>
  One request: its reply (none when the client gives up), or the death of the program, by an exception or by the signal.
\<close>

definition broken_pipe :: "('w, 'u, 'r) machine \<Rightarrow> redis_client \<Rightarrow> string list \<Rightarrow> 'r \<Rightarrow> bool" where
  "broken_pipe m c req r =
     (case encode_request req of
        Inl f \<Rightarrow> False
      | Inr msg \<Rightarrow> (case write_all (m_net m) (fd c) msg 0 r of (ok, r1) \<Rightarrow> \<not> ok \<and> m_epipe m r1))"

definition exchange :: "('w, 'u, 'r) machine \<Rightarrow> redis_client \<Rightarrow> string list \<Rightarrow> 'r \<Rightarrow> (death + response option) \<times> 'r" where
  "exchange m c req r =
     (case Redis_Client.send (m_heap m) (m_net m) c req r of (reply, r1) \<Rightarrow>
        (if broken_pipe m c req r then Inl Sigpipe
         else case reply of Inl (Fault f) \<Rightarrow> Inl (Uncaught f) | Inl Nullopt \<Rightarrow> Inr None | Inr v \<Rightarrow> Inr (Some v), r1))"

definition request :: "('w, 'u, 'r) machine \<Rightarrow> string list \<Rightarrow> ('w, 'u, 'r) program \<Rightarrow> (death + response option) \<times> ('w, 'u, 'r) program" where
  "request m req p =
     (case exchange m (redis p) req (net_world p) of (reply, r) \<Rightarrow> (reply, p\<lparr>net_world := r, sent := sent p @ [req]\<rparr>))"

definition register_worker :: "('w, 'u, 'r) machine \<Rightarrow> options \<Rightarrow> ('w, 'u, 'r) stage" where
  "register_worker m opts p =
     (case request m (register_request opts) p of
        (Inl d, p1) \<Rightarrow> (Some (Die d), p1)
      | (Inr None, p1) \<Rightarrow> fail ''[sandbox] failed to register'' p1
      | (Inr (Some v), p1) \<Rightarrow>
          if is_error v then fail ''[sandbox] failed to register'' p1
          else (None, emit [Cout (line ''[sandbox] registered''), Cout (line ''[sandbox] polling for jobs...'')] p1))"

subsection \<open>The loop and the shutdown\<close>

text \<open>
  The requests of a turn after \<^verbatim>\<open>job next\<close>, whose replies the code ignores. What a turn does beside them is that of \<open>loop_turn\<close>; when one
  of the requests ends the program, nothing is left of the turn but the request itself.
\<close>

fun requests :: "('w, 'u, 'r) machine \<Rightarrow> string list list \<Rightarrow> ('w, 'u, 'r) stage" where
  "requests m [] p = (None, p)"
| "requests m (req # reqs) p =
     (case request m req p of (Inl d, p1) \<Rightarrow> (Some (Die d), p1) | (Inr _, p1) \<Rightarrow> requests m reqs p1)"

definition poll_turn :: "('w, 'u, 'r) machine \<Rightarrow> options \<Rightarrow> turn \<Rightarrow> ('w, 'u, 'r) stage" where
  "poll_turn m opts t p =
     (case request m cmd_job_next p of
        (Inl d, p1) \<Rightarrow> (Some (Die d), p1)
      | (Inr reply, p1) \<Rightarrow>
          (case loop_turn opts (m_shell m) (t\<lparr>t_reply := reply\<rparr>) (core p1) (shell_host p1) of (reqs, calls, st, h) \<Rightarrow>
             requests m (tl reqs) (p1\<lparr>core := st, shell_host := h, parent_calls := parent_calls p1 @ calls\<rparr>)))"

fun poll_turns :: "('w, 'u, 'r) machine \<Rightarrow> options \<Rightarrow> turn list \<Rightarrow> ('w, 'u, 'r) stage" where
  "poll_turns m opts [] p = (None, p)"
| "poll_turns m opts (t # ts) p = and_then (poll_turn m opts t p) (poll_turns m opts ts)"

definition poll_jobs :: "('w, 'u, 'r) machine \<Rightarrow> options \<Rightarrow> ('w, 'u, 'r) stage" where
  "poll_jobs m opts p = poll_turns m opts (m_turns m) p"

definition stop_watcher :: "('w, 'u, 'r) program \<Rightarrow> ('w, 'u, 'r) program" where
  "stop_watcher p =
     (case File_Watcher.stop (watcher p) of (calls, fw) \<Rightarrow>
        emit ((if File_Watcher.has_thread (watcher p) then [Join Watch_thread] else []) @ map Inotify calls) (p\<lparr>watcher := fw\<rparr>))"

definition stop_health :: "('w, 'u, 'r) program \<Rightarrow> ('w, 'u, 'r) program" where
  "stop_health p =
     emit (if Health_Monitor.has_thread (health p) then [Join Health_thread] else []) (p\<lparr>health := Health_Monitor.stop (health p)\<rparr>)"

definition stop_metrics :: "('w, 'u, 'r) program \<Rightarrow> ('w, 'u, 'r) program" where
  "stop_metrics p = (case Metrics.stop (metrics_srv p) of (fds, srv) \<Rightarrow> emit (map Closed fds) (p\<lparr>metrics_srv := srv\<rparr>))"

definition stop_supervised :: "('w, 'u, 'r) program \<Rightarrow> ('w, 'u, 'r) program" where
  "stop_supervised p = (case stop_all (sup p) of (_, eff, s) \<Rightarrow> emit (map Supervised eff) (p\<lparr>sup := s\<rparr>))"

definition close_redis :: "('w, 'u, 'r) machine \<Rightarrow> ('w, 'u, 'r) program \<Rightarrow> ('w, 'u, 'r) program" where
  "close_redis m p =
     (case client_close (m_net m) (redis p) (net_world p) of (c, r) \<Rightarrow> p\<lparr>redis := c, net_world := r\<rparr>)"

definition shutdown :: "('w, 'u, 'r) machine \<Rightarrow> ('w, 'u, 'r) stage" where
  "shutdown m p =
     (let p1 = close_redis m (stop_supervised (stop_metrics (stop_health (stop_watcher
                 (emit [Cout (line ''[sandbox] shutting down...'')] p))))) in
      (Some (Return 0),
       emit [Cout (line (''[sandbox] completed: '' @ dec_of_nat (unat (jobs_completed (core p1))) @ '' jobs, '' @
                         dec_of_nat (unat (jobs_failed (core p1))) @ '' failed''))] p1))"

subsection \<open>The end of the scope\<close>

text \<open>The destructors, each followed by the end of its object.\<close>

fun destroy_object :: "('w, 'u, 'r) machine \<Rightarrow> main_object \<Rightarrow> ('w, 'u, 'r) program \<Rightarrow> ('w, 'u, 'r) program res" where
  "destroy_object m O_redis p = Inr (close_redis m p)"
| "destroy_object m O_ipc_manager p =
     Inr (case ipc p of
            None \<Rightarrow> p
          | Some mgr \<Rightarrow>
              emit (if list_ex (\<lambda>(i, ch). ipc_is_connected ch) (channels mgr) then [Join Ipc_thread] else [])
                (p\<lparr>ipc := None, ux_world := destroy_ipc_manager (m_ux m) mgr (ux_world p)\<rparr>))"
| "destroy_object m O_net_manager p =
     Inr (case net_manager (core p) of
            None \<Rightarrow> p
          | Some mgr \<Rightarrow> p\<lparr>core := (core p)\<lparr>net_manager := None\<rparr>,
                           shell_host := destroy_network_manager (m_shell m) mgr (shell_host p)\<rparr>)"
| "destroy_object m O_process_supervisor p =
     res_bind (destroy_supervisor (sup p)) (\<lambda>eff. Inr (emit (map Supervised eff) p))"
| "destroy_object m O_resource_manager p =
     Inr (emit (map (\<lambda>(i, mon). Join (Resource_thread i))
                  (filter (\<lambda>(i, mon). Resource_Monitor.running mon) (monitors (resources p)))) p)"
| "destroy_object m O_file_watcher p = Inr (stop_watcher p)"
| "destroy_object m O_health_monitor p = Inr (stop_health p)"
| "destroy_object m O_metrics_server p = Inr (stop_metrics p)"
| "destroy_object m _ p = Inr p"

fun destroy_all :: "('w, 'u, 'r) machine \<Rightarrow> main_object list \<Rightarrow> ('w, 'u, 'r) program \<Rightarrow> ('w, 'u, 'r) program res" where
  "destroy_all m [] p = Inr p"
| "destroy_all m (ob # obs) p = res_bind (destroy_object m ob p) (\<lambda>p1. destroy_all m obs (emit [Destroyed ob] p1))"

definition main_body :: "('w, 'u, 'r) machine \<Rightarrow> options \<Rightarrow> ('w, 'u, 'r) stage" where
  "main_body m opts p =
     and_then (and_then (and_then (and_then (and_then (and_then (and_then
       (check_profile opts (register_checks (m_now m) p))
       (init_network m opts)) (init_ipc m opts)) (start_services m opts)) (connect_redis m opts))
       (register_worker m opts)) (poll_jobs m opts)) (shutdown m)"

definition leave_scope :: "('w, 'u, 'r) machine \<Rightarrow> ending option \<times> ('w, 'u, 'r) program \<Rightarrow> death + int \<times> ('w, 'u, 'r) program" where
  "leave_scope m r =
     (case r of
        (Some (Return code), p) \<Rightarrow> map_sum Uncaught (\<lambda>p1. (code, p1)) (destroy_all m (declared p) p)
      | (Some (Die d), p) \<Rightarrow> Inl d
      | (None, p) \<Rightarrow> Inl (Uncaught Terminate))"

text \<open>The program: on a command line as \<^verbatim>\<open>getopt_long\<close> delivers it. What it printed before its objects exist is the usage.\<close>

definition worker_main ::
  "('w, 'u, 'r) machine \<Rightarrow> (char \<times> string) list \<Rightarrow> 'w Netns.host \<Rightarrow> 'u \<Rightarrow> 'r \<Rightarrow> death + int \<times> (string + ('w, 'u, 'r) program)" where
  "worker_main m cmdline h u r =
     (case parse_options cmdline default_options of
        Inl f \<Rightarrow> Inl (Uncaught f)
      | Inr (Inl code) \<Rightarrow> Inr (code, Inl (print_usage (m_prog m)))
      | Inr (Inr opts0) \<Rightarrow>
          let opts = final_id (m_pid m) opts0 in
          map_sum (\<lambda>d. d) (\<lambda>(code, p). (code, Inr p)) (leave_scope m (main_body m opts (init_components opts h u r))))"

subsection \<open>Specification vocabulary\<close>

text \<open>The objects that the function of a thread and the callbacks it calls refer to.\<close>

fun refers_to :: "service_thread \<Rightarrow> main_object list" where
  "refers_to Health_thread = [O_health_monitor, O_resource_manager]"
| "refers_to Watch_thread = [O_file_watcher, O_log_agg, O_metrics]"
| "refers_to Ipc_thread = [O_ipc_manager, O_log_agg]"
| "refers_to (Resource_thread i) = [O_resource_manager]"

text \<open>The threads that run after a trace, and the objects that end while a thread refers to them, with that thread.\<close>

fun alive :: "service_thread set \<Rightarrow> main_event list \<Rightarrow> service_thread set" where
  "alive ts [] = ts"
| "alive ts (e # es) = alive (case e of Spawn t \<Rightarrow> insert t ts | Join t \<Rightarrow> ts - {t} | _ \<Rightarrow> ts) es"

fun violations :: "service_thread set \<Rightarrow> main_event list \<Rightarrow> (service_thread \<times> main_object) set" where
  "violations ts [] = {}"
| "violations ts (e # es) =
     (case e of Destroyed ob \<Rightarrow> (\<lambda>t. (t, ob)) ` {t \<in> ts. ob \<in> set (refers_to t)} | _ \<Rightarrow> {}) \<union> violations (alive ts [e]) es"

definition quiet_event :: "main_event \<Rightarrow> bool" where
  "quiet_event e = (case e of Spawn t \<Rightarrow> False | Join t \<Rightarrow> False | Destroyed ob \<Rightarrow> False | _ \<Rightarrow> True)"

text \<open>The threads the objects hold.\<close>

definition channel_threads :: "ipc_callback ipc_manager option \<Rightarrow> bool" where
  "channel_threads chm = (case chm of None \<Rightarrow> False | Some mgr \<Rightarrow> list_ex (\<lambda>(i, ch). ipc_is_connected ch) (channels mgr))"

definition held_threads :: "('w, 'u, 'r) program \<Rightarrow> service_thread set" where
  "held_threads p =
     (if Health_Monitor.has_thread (health p) then {Health_thread} else {}) \<union>
     (if File_Watcher.has_thread (watcher p) then {Watch_thread} else {}) \<union>
     (if channel_threads (ipc p) then {Ipc_thread} else {})"

definition program_ok :: "('w, 'u, 'r) program \<Rightarrow> bool" where
  "program_ok p =
     (alive {} (trace p) = held_threads p \<and> violations {} (trace p) = {} \<and>
      Health_Monitor.running (health p) = Health_Monitor.has_thread (health p) \<and>
      File_Watcher.running (watcher p) = File_Watcher.has_thread (watcher p) \<and>
      processes (sup p) = [] \<and> monitors (resources p) = [])"

text \<open>The answers that decide how far the program gets.\<close>

definition net_ready :: "('w, 'u, 'r) machine \<Rightarrow> options \<Rightarrow> 'w Netns.host \<Rightarrow> bool" where
  "net_ready m opts h = (opt_enable_netns opts \<longrightarrow> fst (Netns.init (m_shell m) (new_network_manager main_netns_config) h))"

definition connection :: "('w, 'u, 'r) machine \<Rightarrow> options \<Rightarrow> 'r \<Rightarrow> redis_client \<times> 'r" where
  "connection m opts r = snd (Redis_Client.connect (m_net m) (opt_host opts) (opt_port opts) new_client r)"

definition registration :: "('w, 'u, 'r) machine \<Rightarrow> options \<Rightarrow> 'r \<Rightarrow> death + response option" where
  "registration m opts r = (case connection m opts r of (c, r1) \<Rightarrow> fst (exchange m c (register_request opts) r1))"

text \<open>Requests one after another over the network: the death that ends them, and the network.\<close>

fun exchanges :: "('w, 'u, 'r) machine \<Rightarrow> redis_client \<Rightarrow> string list list \<Rightarrow> 'r \<Rightarrow> death option \<times> 'r" where
  "exchanges m c [] r = (None, r)"
| "exchanges m c (req # reqs) r =
     (case exchange m c req r of (Inl d, r1) \<Rightarrow> (Some d, r1) | (Inr _, r1) \<Rightarrow> exchanges m c reqs r1)"

definition talk :: "('w, 'u, 'r) machine \<Rightarrow> options \<Rightarrow> 'r \<Rightarrow> string list list \<Rightarrow> death option" where
  "talk m opts r reqs = (case connection m opts r of (c, r1) \<Rightarrow> fst (exchanges m c reqs r1))"

definition redis_ready :: "('w, 'u, 'r) machine \<Rightarrow> options \<Rightarrow> 'r \<Rightarrow> bool" where
  "redis_ready m opts r = fst (Redis_Client.connect (m_net m) (opt_host opts) (opt_port opts) new_client r)"

definition accepted :: "death + response option \<Rightarrow> bool" where
  "accepted reg = (case reg of Inr (Some v) \<Rightarrow> \<not> is_error v | _ \<Rightarrow> False)"

definition services_start :: "('w, 'u, 'r) machine \<Rightarrow> options \<Rightarrow> 'w Netns.host \<Rightarrow> bool" where
  "services_start m opts h = (get_profile new_security_manager (opt_security_profile opts) \<noteq> None \<and> net_ready m opts h)"

text \<open>The program before and after it starts its services.\<close>

definition prepared :: "'r \<Rightarrow> ('w, 'u, 'r) program \<Rightarrow> bool" where
  "prepared r p =
     (program_ok p \<and> declared p = rev components \<and> net_world p = r \<and> security_manager (core p) = new_security_manager \<and>
      \<not> Health_Monitor.has_thread (health p) \<and> \<not> File_Watcher.has_thread (watcher p) \<and>
      Spawn Health_thread \<notin> set (trace p) \<and> sent p = [] \<and> parent_calls p = [])"

definition serving :: "('w, 'u, 'r) program \<Rightarrow> bool" where
  "serving p =
     (program_ok p \<and> security_manager (core p) = new_security_manager \<and>
      Health_Monitor.has_thread (health p) \<and> Spawn Health_thread \<in> set (trace p) \<and> parent_calls p = [])"

text \<open>Requests that keep the protocol of a worker, to some point of it.\<close>

definition keeps_protocol :: "string \<Rightarrow> string list list \<Rightarrow> bool" where
  "keeps_protocol sb reqs = (protocol_run sb Idle reqs \<noteq> None)"

text \<open>The requests so far have all been answered, or given up, over the connection of the program.\<close>

definition linked :: "('w, 'u, 'r) machine \<Rightarrow> options \<Rightarrow> 'r \<Rightarrow> ('w, 'u, 'r) program \<Rightarrow> bool" where
  "linked m opts r p =
     (case connection m opts r of (c, r1) \<Rightarrow> redis p = c \<and> exchanges m c (sent p) r1 = (None, net_world p))"

definition obedient :: "options \<Rightarrow> ('w, 'u, 'r) program \<Rightarrow> bool" where
  "obedient opts p =
     (security_manager (core p) = new_security_manager \<and>
      list_all (respects_policy opts new_security_manager) (parent_calls p))"

definition same_services :: "('w, 'u, 'r) program \<Rightarrow> ('w, 'u, 'r) program \<Rightarrow> bool" where
  "same_services p q =
     (health q = health p \<and> watcher q = watcher p \<and> ipc q = ipc p \<and> sup q = sup p \<and> resources q = resources p \<and>
      metrics_srv q = metrics_srv p \<and> declared q = declared p \<and> trace q = trace p)"

text \<open>
  The program at a return: the thread of the health monitor runs exactly when the program gives up after
  it was started. And after its destructors: every thread is joined, and the resource manager is the
  only object that ended under a thread, in that case.
\<close>

definition at_return :: "int \<Rightarrow> ('w, 'u, 'r) program \<Rightarrow> bool" where
  "at_return code q =
     (program_ok q \<and> (declared q = rev components \<or> declared q = O_redis # rev components) \<and>
      Health_Monitor.has_thread (health q) = (code \<noteq> 0 \<and> Spawn Health_thread \<in> set (trace q)))"

definition threads_ok :: "int \<Rightarrow> ('w, 'u, 'r) program \<Rightarrow> bool" where
  "threads_ok code p =
     (alive {} (trace p) = {} \<and>
      violations {} (trace p) = (if code = 0 \<or> Spawn Health_thread \<notin> set (trace p) then {} else {(Health_thread, O_resource_manager)}))"

section \<open>Lemmas\<close>

subsection \<open>Traces\<close>

lemma alive_append [simp]: "alive ts (es @ es') = alive (alive ts es) es'"
  by (induction es arbitrary: ts) auto

lemma violations_append [simp]: "violations ts (es @ es') = violations ts es \<union> violations (alive ts es) es'"
  by (induction es arbitrary: ts) auto

lemma quiet_events:
  assumes "list_all quiet_event es" shows "alive ts es = ts" "violations ts es = {}"
  using assms by (induction es arbitrary: ts) (auto simp: quiet_event_def split: main_event.splits)

lemma quiet_maps [simp]:
  "alive ts (map Closed xs) = ts" "violations ts (map Closed xs) = {}"
  "alive ts (map Inotify cs) = ts" "violations ts (map Inotify cs) = {}"
  "alive ts (map Supervised effs) = ts" "violations ts (map Supervised effs) = {}"
  by (rule quiet_events; simp add: list_all_iff quiet_event_def)+

lemma emit_fields [simp]:
  "core (emit es p) = core p" "health (emit es p) = health p" "watcher (emit es p) = watcher p" "ipc (emit es p) = ipc p"
  "sup (emit es p) = sup p" "resources (emit es p) = resources p" "declared (emit es p) = declared p"
  "metrics_srv (emit es p) = metrics_srv p" "redis (emit es p) = redis p" "net_world (emit es p) = net_world p"
  "sent (emit es p) = sent p" "parent_calls (emit es p) = parent_calls p" "shell_host (emit es p) = shell_host p"
  "ux_world (emit es p) = ux_world p" "trace (emit es p) = trace p @ es"
  by (simp_all add: emit_def)

subsection \<open>The end of the scope\<close>

lemma destroy_supervisor_empty: "processes s = [] \<Longrightarrow> destroy_supervisor s = Inr []"
  by (simp add: destroy_supervisor_def stop_all_def stop_watchdog_def)

lemmas stop_defs = stop_watcher_def stop_health_def stop_metrics_def close_redis_def File_Watcher.stop_def
  Health_Monitor.stop_def Metrics.stop_def client_close_def

lemma destroy_all_ok:
  assumes "program_ok p" "declared p = rev components \<or> declared p = O_redis # rev components"
  shows "\<exists>p'. destroy_all m (declared p) p = Inr p' \<and> sent p' = sent p \<and> parent_calls p' = parent_calls p \<and>
    alive {} (trace p') = {} \<and> violations {} (trace p') = (if Health_Monitor.has_thread (health p) then {(Health_thread, O_resource_manager)} else {}) \<and>
    (Spawn Health_thread \<in> set (trace p') \<longleftrightarrow> Spawn Health_thread \<in> set (trace p))"
proof -
  have ok: "alive {} (trace p) = held_threads p" "violations {} (trace p) = {}"
    "Health_Monitor.running (health p) = Health_Monitor.has_thread (health p)"
    "File_Watcher.running (watcher p) = File_Watcher.has_thread (watcher p)" "processes (sup p) = []" "monitors (resources p) = []"
    using assms(1) by (simp_all add: program_ok_def)
  define es where "es = (if channel_threads (ipc p) then [Join Ipc_thread] else []) @ [Destroyed O_ipc_manager, Destroyed O_net_manager,
     Destroyed O_security_manager, Destroyed O_process_supervisor, Destroyed O_resource_manager] @
     (if File_Watcher.has_thread (watcher p) then [Join Watch_thread] else []) @
     map Inotify (fst (File_Watcher.stop (watcher p))) @ [Destroyed O_file_watcher, Destroyed O_log_agg] @
     (if Health_Monitor.has_thread (health p) then [Join Health_thread] else []) @ [Destroyed O_health_monitor] @
     map Closed (fst (Metrics.stop (metrics_srv p))) @ [Destroyed O_metrics_server, Destroyed O_metrics]"
  have d: "\<exists>p'. destroy_all m (rev components) q = Inr p' \<and> sent p' = sent q \<and> parent_calls p' = parent_calls q \<and>
      trace p' = trace q @ es"
    if "health q = health p" "watcher q = watcher p" "ipc q = ipc p" "sup q = sup p" "resources q = resources p"
      "metrics_srv q = metrics_srv p" for q
    unfolding es_def using that ok(5,6)
    by (cases "ipc p"; cases "net_manager (core q)")
      (simp_all add: components_def stop_watcher_def stop_health_def stop_metrics_def destroy_supervisor_empty channel_threads_def
        case_prod_beta)
  have ev: "alive (held_threads p) es = {}" "violations (held_threads p) es = (if Health_Monitor.has_thread (health p) then {(Health_thread, O_resource_manager)} else {})"
    "Spawn Health_thread \<notin> set es"
    by (auto simp: es_def held_threads_def)
  let ?q = "emit [Destroyed O_redis] (close_redis m p)"
  have q: "health ?q = health p" "watcher ?q = watcher p" "ipc ?q = ipc p" "sup ?q = sup p" "resources ?q = resources p"
    "metrics_srv ?q = metrics_srv p" "sent ?q = sent p" "parent_calls ?q = parent_calls p" "trace ?q = trace p @ [Destroyed O_redis]"
    by (simp_all add: close_redis_def split: prod.splits)
  have "\<forall>t \<in> held_threads p. O_redis \<notin> set (refers_to t)" by (auto simp: held_threads_def)
  then show ?thesis using assms(2) d [of p] d [OF q(1-6)] ok(1,2) ev q(7-9) by auto
qed

subsection \<open>The stages\<close>

lemma held_threads_emit [simp]: "held_threads (emit es p) = held_threads p"
  by (simp add: held_threads_def)

lemma program_ok_emit: "list_all quiet_event es \<Longrightarrow> program_ok (emit es p) = program_ok p"
  by (simp add: program_ok_def quiet_events)

lemma init_prepared:
  "prepared r (register_checks now (init_components opts h u r))" "ipc (register_checks now (init_components opts h u r)) = None"
  "shell_host (register_checks now (init_components opts h u r)) = h"
  by (simp_all add: prepared_def program_ok_def held_threads_def register_checks_def register_check_def init_components_def
      declare_object_def components_def new_health_monitor_def new_file_watcher_def new_supervisor_def new_resource_manager_def
      new_main_state_def channel_threads_def)

lemma fail_prepared: "prepared r p \<Longrightarrow> fail msg p = (Some (Return 1), p') \<Longrightarrow> prepared r p'"
  by (auto simp: fail_def prepared_def program_ok_emit quiet_event_def)

lemma init_network_stage:
  assumes "prepared r p" "ipc p = None" "shell_host p = h"
  shows "fst (init_network m opts p) = (if net_ready m opts h then None else Some (Return 1))"
    "prepared r (snd (init_network m opts p))" "ipc (snd (init_network m opts p)) = None"
  using assms
  by (auto simp: init_network_def net_ready_def fail_def Let_def prepared_def program_ok_def held_threads_def split: prod.splits)

lemma registered_channel:
  assumes "register_sandbox ux i (new_ipc_manager cfg) w = (res, mgr, w')"
  shows "case res of None \<Rightarrow> channels mgr = [] | Some ch \<Rightarrow> ipc_is_connected ch \<and> channels mgr = [(i, ch)]"
  using assms
  by (auto simp: register_sandbox_def new_ipc_manager_def ipc_connect_def put_channel_def ipc_is_connected_def Let_def
      split: prod.splits if_splits)

lemma init_ipc_stage:
  assumes "prepared r p" "ipc p = None"
  shows "fst (init_ipc m opts p) = None" "prepared r (snd (init_ipc m opts p))"
proof -
  obtain res mgr u where reg: "register_sandbox (m_ux m) (opt_id opts) (new_ipc_manager (main_ipc_config opts) :: ipc_callback ipc_manager)
      (ux_world p) = (res, mgr, u)"
    by (metis prod_cases3)
  show "fst (init_ipc m opts p) = None" by (simp add: init_ipc_def reg split: option.splits)
  show "prepared r (snd (init_ipc m opts p))"
    using registered_channel [OF reg] assms
    by (cases res) (simp_all add: init_ipc_def reg prepared_def program_ok_def held_threads_def channel_threads_def
        put_channel_def subscribe_def ipc_is_connected_def)
qed

lemma start_services_stage:
  assumes "prepared r p"
  shows "fst (start_services m opts p) = None" "serving (snd (start_services m opts p))"
    "declared (snd (start_services m opts p)) = rev components" "net_world (snd (start_services m opts p)) = r"
    "sent (snd (start_services m opts p)) = []"
proof -
  obtain ok fds srv where m: "Metrics.start (m_socket m) (m_bind m) (m_listen m) (metrics_srv p) = (ok, fds, srv)"
    by (metis prod_cases3)
  have w: "File_Watcher.running (snd (watch a b fw)) = File_Watcher.running fw"
    "File_Watcher.has_thread (snd (watch a b fw)) = File_Watcher.has_thread fw" for a b fw
    by (simp_all add: watch_def Let_def)
  note defs = start_services_def start_watcher_def start_health_def start_metrics_def m on_event_def Let_def
  show "fst (start_services m opts p) = None" "declared (snd (start_services m opts p)) = rev components"
    "net_world (snd (start_services m opts p)) = r" "sent (snd (start_services m opts p)) = []"
    using assms by (simp_all add: defs prepared_def)
  show "serving (snd (start_services m opts p))"
    using assms
    by (auto simp: defs w prepared_def serving_def program_ok_def held_threads_def Health_Monitor.start_def File_Watcher.start_def
        Health_Monitor.set_interval_ms_def File_Watcher.on_change_def)
qed

lemma connect_stage:
  assumes "serving p" "declared p = rev components" "net_world p = r" "sent p = []"
  shows "fst (connect_redis m opts p) = (if redis_ready m opts r then None else Some (Return 1))"
    "serving (snd (connect_redis m opts p))" "declared (snd (connect_redis m opts p)) = O_redis # rev components"
    "sent (snd (connect_redis m opts p)) = []"
    "redis_ready m opts r \<Longrightarrow> linked m opts r (snd (connect_redis m opts p))"
  using assms
  by (auto simp: connect_redis_def redis_ready_def linked_def connection_def fail_def declare_object_def serving_def program_ok_def
      held_threads_def Let_def split: prod.splits)

lemma exchanges_append:
  "exchanges m c (reqs @ reqs') r =
     (case exchanges m c reqs r of (Some d, r1) \<Rightarrow> (Some d, r1) | (None, r1) \<Rightarrow> exchanges m c reqs' r1)"
  by (induction reqs arbitrary: r) (auto split: prod.splits sum.splits)

lemma request_stage:
  assumes "linked m opts r p" "request m req p = (reply, q)"
  shows "same_services p q \<and> core q = core p \<and> shell_host q = shell_host p \<and> parent_calls q = parent_calls p \<and> sent q = sent p @ [req] \<and>
    (case reply of Inl d \<Rightarrow> talk m opts r (sent q) = Some d | Inr _ \<Rightarrow> linked m opts r q)"
  using assms
  by (auto simp: request_def linked_def talk_def same_services_def exchanges_append split: prod.splits sum.splits)

lemma registration_linked:
  "linked m opts r p \<Longrightarrow> sent p = [] \<Longrightarrow> fst (request m (register_request opts) p) = registration m opts r"
  by (auto simp: request_def linked_def registration_def split: prod.splits)

lemma register_stage:
  assumes "serving p" "sent p = []" "linked m opts r p"
  shows "fst (register_worker m opts p) =
      (case registration m opts r of Inl d \<Rightarrow> Some (Die d) | _ \<Rightarrow> if accepted (registration m opts r) then None else Some (Return 1))"
    "serving (snd (register_worker m opts p))" "declared (snd (register_worker m opts p)) = declared p"
    "sent (snd (register_worker m opts p)) = [register_request opts]"
    "accepted (registration m opts r) \<Longrightarrow> linked m opts r (snd (register_worker m opts p))"
proof -
  obtain reply q where q: "request m (register_request opts) p = (reply, q)" by fastforce
  have reg: "registration m opts r = reply" using registration_linked [OF assms(3,2)] q by simp
  have sv: "serving (emit es q')" if "list_all quiet_event es" "q' = q" for es q'
    using request_stage [OF assms(3) q] assms(1) that
    by (auto simp: serving_def program_ok_def same_services_def held_threads_def quiet_events)
  note stage = request_stage [OF assms(3) q] sv [of "[]" q]
  show "fst (register_worker m opts p) =
      (case registration m opts r of Inl d \<Rightarrow> Some (Die d) | _ \<Rightarrow> if accepted (registration m opts r) then None else Some (Return 1))"
    by (auto simp: reg register_worker_def q accepted_def fail_def split: sum.split option.split)
  show "serving (snd (register_worker m opts p))"
    using sv [of "[]" q] sv [OF _ refl] by (auto simp: register_worker_def q fail_def quiet_event_def emit_def split: sum.split option.split)
  show "declared (snd (register_worker m opts p)) = declared p" "sent (snd (register_worker m opts p)) = [register_request opts]"
    using stage assms(2) by (auto simp: register_worker_def q fail_def same_services_def split: sum.split option.split)
  show "linked m opts r (snd (register_worker m opts p))" if "accepted (registration m opts r)"
    using stage that by (auto simp: reg register_worker_def q accepted_def linked_def split: sum.splits option.splits)
qed

text \<open>The requests of a turn are all made, or those before one that ends the program and that one.\<close>

lemma requests_stage:
  "linked m opts r p \<Longrightarrow> requests m reqs p = (e, q) \<Longrightarrow>
   (case e of
      None \<Rightarrow> linked m opts r q \<and> same_services p q \<and> core q = core p \<and> shell_host q = shell_host p \<and>
        parent_calls q = parent_calls p \<and> sent q = sent p @ reqs
    | Some x \<Rightarrow> \<exists>d pre post. x = Die d \<and> reqs = pre @ post \<and> talk m opts r (sent p @ pre) = Some d)"
proof (induction reqs arbitrary: p)
  case (Cons req reqs)
  obtain reply p1 where p1: "request m req p = (reply, p1)" by fastforce
  note st = request_stage [OF Cons.prems(1) p1]
  show ?case
  proof (cases reply)
    case (Inl d)
    then have "e = Some (Die d)" "talk m opts r (sent p @ [req]) = Some d" using Cons.prems(2) p1 st by auto
    moreover have "req # reqs = [req] @ reqs" by simp
    ultimately have "\<exists>pre post. req # reqs = pre @ post \<and> talk m opts r (sent p @ pre) = Some d" by blast
    then show ?thesis using \<open>e = Some (Die d)\<close> by simp
  next
    case (Inr v)
    then have "requests m reqs p1 = (e, q)" "linked m opts r p1" using Cons.prems(2) p1 st by auto
    note ih = Cons.IH [OF this(2,1)]
    show ?thesis
    proof (cases e)
      case (Some x)
      then obtain d pre post where "x = Die d" "reqs = pre @ post" "talk m opts r (sent p1 @ pre) = Some d" using ih by auto
      then have "req # reqs = (req # pre) @ post \<and> talk m opts r (sent p @ req # pre) = Some d" using st by simp
      then have "\<exists>pre post. req # reqs = pre @ post \<and> talk m opts r (sent p @ pre) = Some d" by blast
      then show ?thesis using Some \<open>x = Die d\<close> by simp
    qed (use ih st in \<open>auto simp: same_services_def\<close>)
  qed
qed (simp add: same_services_def)

lemma loop_turn_polls: "\<exists>reqs calls st h'. loop_turn opts sh t st0 h = (cmd_job_next # reqs, calls, st, h')"
  by (auto simp: loop_turn_def split: option.split prod.split)

lemma protocol_prefix: "protocol_run sb Idle (pre @ post) = Some w \<Longrightarrow> keeps_protocol sb pre"
  by (cases "protocol_run sb Idle pre") (simp_all add: keeps_protocol_def protocol_run_append)

lemma poll_turn_stage:
  assumes "linked m opts r p" "obedient opts p" "poll_turn m opts t p = (e, q)"
  shows "case e of
      None \<Rightarrow> linked m opts r q \<and> obedient opts q \<and> same_services p q \<and>
        (\<exists>reqs. sent q = sent p @ reqs \<and> protocol_run (opt_id opts) Idle reqs = Some Idle)
    | Some x \<Rightarrow> \<exists>d reqs. x = Die d \<and> keeps_protocol (opt_id opts) reqs \<and> talk m opts r (sent p @ reqs) = Some d"
proof -
  obtain reply p1 where p1: "request m cmd_job_next p = (reply, p1)" by fastforce
  note st = request_stage [OF assms(1) p1]
  show ?thesis
  proof (cases reply)
    case (Inl d)
    then have "e = Some (Die d)" "talk m opts r (sent p @ [cmd_job_next]) = Some d" using assms(3) p1 st by (auto simp: poll_turn_def)
    moreover have "keeps_protocol (opt_id opts) [cmd_job_next]" by (simp add: keeps_protocol_def)
    ultimately have "\<exists>reqs. keeps_protocol (opt_id opts) reqs \<and> talk m opts r (sent p @ reqs) = Some d" by blast
    then show ?thesis using \<open>e = Some (Die d)\<close> by simp
  next
    case (Inr v)
    obtain reqs calls c h where l: "loop_turn opts (m_shell m) (t\<lparr>t_reply := v\<rparr>) (core p1) (shell_host p1) = (cmd_job_next # reqs, calls, c, h)"
      using loop_turn_polls by blast
    have ob: "protocol_run (opt_id opts) Idle (cmd_job_next # reqs) = Some Idle"
      "list_all (respects_policy opts new_security_manager) calls" "security_manager c = new_security_manager"
      using loop_turn_correct [OF l] assms(2) st by (simp_all add: obedient_def)
    let ?p2 = "p1\<lparr>core := c, shell_host := h, parent_calls := parent_calls p1 @ calls\<rparr>"
    have "linked m opts r ?p2" using st Inr by (cases "connection m opts r") (auto simp: linked_def)
    moreover have "requests m reqs ?p2 = (e, q)" using assms(3) Inr l p1 by (simp add: poll_turn_def)
    ultimately have rs: "case e of
      None \<Rightarrow> linked m opts r q \<and> same_services ?p2 q \<and> core q = core ?p2 \<and> shell_host q = shell_host ?p2 \<and>
        parent_calls q = parent_calls ?p2 \<and> sent q = sent ?p2 @ reqs
    | Some x \<Rightarrow> \<exists>d pre post. x = Die d \<and> reqs = pre @ post \<and> talk m opts r (sent ?p2 @ pre) = Some d"
      by (rule requests_stage)
    show ?thesis
    proof (cases e)
      case None
      with rs ob st assms(2) show ?thesis by (auto simp: same_services_def obedient_def)
    next
      case (Some x)
      with rs obtain d pre post where d: "x = Die d" "reqs = pre @ post" "talk m opts r (sent p @ cmd_job_next # pre) = Some d"
        using st by auto
      moreover have "keeps_protocol (opt_id opts) (cmd_job_next # pre)"
        using protocol_prefix [of "opt_id opts" "cmd_job_next # pre" post] ob(1) d(2) by simp
      ultimately show ?thesis using Some by fastforce
    qed
  qed
qed

lemma poll_turns_stage:
  "linked m opts r p \<Longrightarrow> obedient opts p \<Longrightarrow> poll_turns m opts ts p = (e, q) \<Longrightarrow>
   (case e of
      None \<Rightarrow> linked m opts r q \<and> obedient opts q \<and> same_services p q \<and>
        (\<exists>reqs. sent q = sent p @ reqs \<and> protocol_run (opt_id opts) Idle reqs = Some Idle)
    | Some x \<Rightarrow> \<exists>d reqs. x = Die d \<and> keeps_protocol (opt_id opts) reqs \<and> talk m opts r (sent p @ reqs) = Some d)"
proof (induction ts arbitrary: p)
  case Nil
  then show ?case by (auto simp: same_services_def intro!: exI [of _ "[]"])
next
  case (Cons t ts)
  obtain e1 p1 where t: "poll_turn m opts t p = (e1, p1)" by fastforce
  note st = poll_turn_stage [OF Cons.prems(1,2) t]
  show ?case
  proof (cases e1)
    case (Some x)
    then show ?thesis using st t Cons.prems(3) by (auto simp: and_then_def)
  next
    case None
    then obtain reqs where p1: "linked m opts r p1" "obedient opts p1" "same_services p p1" "sent p1 = sent p @ reqs"
      "protocol_run (opt_id opts) Idle reqs = Some Idle" using st by auto
    have "poll_turns m opts ts p1 = (e, q)" using t None Cons.prems(3) by (simp add: and_then_def)
    note ih = Cons.IH [OF p1(1,2) this]
    have run: "protocol_run (opt_id opts) Idle (reqs @ reqs') = protocol_run (opt_id opts) Idle reqs'"
      "keeps_protocol (opt_id opts) (reqs @ reqs') = keeps_protocol (opt_id opts) reqs'" for reqs'
      using p1(5) by (simp_all add: keeps_protocol_def protocol_run_append)
    show ?thesis
    proof (cases e)
      case None
      with ih p1 run show ?thesis by (auto simp: same_services_def)
    next
      case (Some x)
      then obtain d reqs' where "x = Die d" "keeps_protocol (opt_id opts) reqs'" "talk m opts r (sent p1 @ reqs') = Some d"
        using ih by auto
      then have "x = Die d \<and> keeps_protocol (opt_id opts) (reqs @ reqs') \<and> talk m opts r (sent p @ reqs @ reqs') = Some d"
        using p1(4) run by simp
      then show ?thesis using Some by fastforce
    qed
  qed
qed

lemma talk_linked: "linked m opts r p \<Longrightarrow> talk m opts r (sent p) = None"
  by (auto simp: linked_def talk_def split: prod.splits)

lemma finish_stage:
  assumes "serving p" "declared p = ds" "linked m opts r p"
  shows "(\<exists>q reqs. and_then (poll_jobs m opts p) (shutdown m) = (Some (Return 0), q) \<and> program_ok q \<and>
      \<not> Health_Monitor.has_thread (health q) \<and> Spawn Health_thread \<in> set (trace q) \<and> declared q = ds \<and> sent q = sent p @ reqs \<and>
      protocol_run (opt_id opts) Idle reqs = Some Idle \<and> talk m opts r (sent q) = None \<and>
      list_all (respects_policy opts new_security_manager) (parent_calls q)) \<or>
    (\<exists>q d reqs. and_then (poll_jobs m opts p) (shutdown m) = (Some (Die d), q) \<and>
      keeps_protocol (opt_id opts) reqs \<and> talk m opts r (sent p @ reqs) = Some d)"
proof -
  obtain e q where l: "poll_turns m opts (m_turns m) p = (e, q)" by fastforce
  have "obedient opts p" using assms(1) by (simp add: obedient_def serving_def)
  note st = poll_turns_stage [OF assms(3) this l]
  show ?thesis
  proof (cases e)
    case None
    then obtain reqs where q: "linked m opts r q" "obedient opts q" "same_services p q" "sent q = sent p @ reqs"
      "protocol_run (opt_id opts) Idle reqs = Some Idle" using st by auto
    note q = q talk_linked [OF q(1)]
    have "fst (shutdown m q) = Some (Return 0) \<and> program_ok (snd (shutdown m q)) \<and> \<not> Health_Monitor.has_thread (health (snd (shutdown m q))) \<and>
      Spawn Health_thread \<in> set (trace (snd (shutdown m q))) \<and> declared (snd (shutdown m q)) = ds \<and>
      sent (snd (shutdown m q)) = sent p @ reqs \<and> parent_calls (snd (shutdown m q)) = parent_calls q"
      using assms(1,2) q(3,4)
      by (auto simp: shutdown_def stop_watcher_def stop_health_def stop_metrics_def stop_supervised_def
          close_redis_def Health_Monitor.stop_def File_Watcher.stop_def stop_all_def serving_def program_ok_def held_threads_def
          same_services_def case_prod_beta Let_def)
    then show ?thesis using q None l by (cases "shutdown m q") (auto simp: and_then_def poll_jobs_def obedient_def)
  next
    case (Some x)
    then show ?thesis using st l by (auto simp: and_then_def poll_jobs_def)
  qed
qed

subsection \<open>The whole program\<close>

lemma and_then_simps [simp]: "and_then (None, p) f = f p" "and_then (Some e, p) f = (Some e, p)"
  by (simp_all add: and_then_def)

lemma and_then_fst:
  "fst r = None \<Longrightarrow> and_then r f = f (snd r)" "fst r = Some e \<Longrightarrow> and_then r f = (Some e, snd r)"
  by (simp_all add: and_then_def case_prod_beta split: prod.splits)

lemma main_body_prepared:
  assumes "\<not> services_start m opts h"
  shows "\<exists>p. main_body m opts (init_components opts h u r) = (Some (Return 1), p) \<and> prepared r p"
proof -
  let ?p = "register_checks (m_now m) (init_components opts h u r)"
  have sm: "security_manager (core ?p) = new_security_manager"
    using init_prepared(1) [of r "m_now m" opts h u] by (simp add: prepared_def)
  show ?thesis
  proof (cases "get_profile new_security_manager (opt_security_profile opts)")
    case None
    then have "check_profile opts ?p = fail (''[sandbox] unknown security profile: '' @ opt_security_profile opts) ?p"
      by (simp add: check_profile_def sm)
    then show ?thesis using fail_prepared [OF init_prepared(1) [of r "m_now m" opts h u]] by (simp add: main_body_def fail_def)
  next
    case (Some prof)
    then have "check_profile opts ?p = (None, ?p)" "\<not> net_ready m opts h"
      using assms by (simp_all add: check_profile_def sm services_start_def)
    then show ?thesis
      using init_network_stage [OF init_prepared(1) [of r "m_now m" opts h u] init_prepared(2,3), of m opts] by (simp add: main_body_def and_then_fst(2))
  qed
qed

lemma main_body_started:
  assumes "services_start m opts h"
  obtains p where "main_body m opts (init_components opts h u r) =
      and_then (and_then (and_then (and_then (start_services m opts p) (connect_redis m opts)) (register_worker m opts))
        (poll_jobs m opts)) (shutdown m)" "prepared r p"
proof -
  let ?p = "register_checks (m_now m) (init_components opts h u r)"
  have sm: "security_manager (core ?p) = new_security_manager"
    using init_prepared(1) [of r "m_now m" opts h u] by (simp add: prepared_def)
  have "check_profile opts ?p = (None, ?p)" using assms by (auto simp: check_profile_def sm services_start_def)
  moreover have "fst (init_network m opts ?p) = None" "prepared r (snd (init_network m opts ?p))" "ipc (snd (init_network m opts ?p)) = None"
    using init_network_stage [OF init_prepared(1) [of r "m_now m" opts h u] init_prepared(2,3)] assms by (simp_all add: services_start_def)
  ultimately show ?thesis
    using that init_ipc_stage [of r "snd (init_network m opts ?p)" m opts] by (simp add: main_body_def and_then_fst)
qed

lemma main_body_ends:
  assumes "services_start m opts h"
  shows "if redis_ready m opts r then
      (case registration m opts r of
         Inl d \<Rightarrow> \<exists>q. main_body m opts (init_components opts h u r) = (Some (Die d), q)
       | Inr v \<Rightarrow>
           if accepted (registration m opts r) then
             (\<exists>q reqs. main_body m opts (init_components opts h u r) = (Some (Return 0), q) \<and> at_return 0 q \<and>
                sent q = register_request opts # reqs \<and> protocol_run (opt_id opts) Idle reqs = Some Idle \<and> talk m opts r (sent q) = None \<and>
                list_all (respects_policy opts new_security_manager) (parent_calls q)) \<or>
             (\<exists>q d reqs. main_body m opts (init_components opts h u r) = (Some (Die d), q) \<and>
                keeps_protocol (opt_id opts) reqs \<and> talk m opts r (register_request opts # reqs) = Some d)
           else \<exists>q. main_body m opts (init_components opts h u r) = (Some (Return 1), q) \<and> at_return 1 q \<and>
             Spawn Health_thread \<in> set (trace q) \<and> sent q = [register_request opts] \<and> parent_calls q = [])
    else \<exists>q. main_body m opts (init_components opts h u r) = (Some (Return 1), q) \<and> at_return 1 q \<and>
      Spawn Health_thread \<in> set (trace q) \<and> sent q = [] \<and> parent_calls q = []"
proof -
  obtain p where b: "main_body m opts (init_components opts h u r) =
      and_then (and_then (and_then (and_then (start_services m opts p) (connect_redis m opts)) (register_worker m opts))
        (poll_jobs m opts)) (shutdown m)" and p: "prepared r p"
    using main_body_started [OF assms] by blast
  let ?p1 = "snd (start_services m opts p)" let ?p2 = "snd (connect_redis m opts ?p1)" let ?p3 = "snd (register_worker m opts ?p2)"
  note c = connect_stage [OF start_services_stage(2-5) [OF p], of m opts m opts]
  have s1: "and_then (start_services m opts p) (connect_redis m opts) = connect_redis m opts ?p1"
    using start_services_stage(1) [OF p] by (rule and_then_fst(1))
  have sv: "at_return 1 q \<and> Spawn Health_thread \<in> set (trace q) \<and> parent_calls q = []"
    if "serving q" "declared q = O_redis # rev components" for q
    using that by (auto simp: at_return_def serving_def)
  show ?thesis
  proof (cases "redis_ready m opts r")
    case False
    then show ?thesis using b s1 c(1,4) sv [OF c(2,3)] by (auto simp: and_then_fst(2))
  next
    case True
    note g = register_stage [OF c(2,4) c(5) [OF True]]
    have s2: "and_then (and_then (start_services m opts p) (connect_redis m opts)) (register_worker m opts) = register_worker m opts ?p2"
      using c(1) True by (simp add: s1 and_then_fst(1))
    have dead: "main_body m opts (init_components opts h u r) = (Some e, ?p3)" if "fst (register_worker m opts ?p2) = Some e" for e
      using that by (simp add: b s2 and_then_fst(2))
    show ?thesis
    proof (cases "accepted (registration m opts r)")
      case acc: True
      then have "fst (register_worker m opts ?p2) = None" using g(1) by (auto simp: accepted_def split: sum.splits)
      then have "main_body m opts (init_components opts h u r) = and_then (poll_jobs m opts ?p3) (shutdown m)"
        by (simp add: b s2 and_then_fst(1))
      moreover have "declared ?p3 = O_redis # rev components" using g(3) c(3) by simp
      ultimately show ?thesis
        using finish_stage [OF g(2) _ g(5) [OF acc]] g(4) acc True
        by (cases "registration m opts r") (auto simp: accepted_def at_return_def)
    next
      case False
      then show ?thesis using dead g(1,4) sv [OF g(2)] g(3) c(3) True by (cases "registration m opts r") auto
    qed
  qed
qed

lemma leave_scope_returns:
  assumes "at_return code q"
  shows "\<exists>p. leave_scope m (Some (Return code), q) = Inr (code, p) \<and> sent p = sent q \<and> parent_calls p = parent_calls q \<and>
    threads_ok code p \<and> (Spawn Health_thread \<in> set (trace p) \<longleftrightarrow> Spawn Health_thread \<in> set (trace q))"
  using destroy_all_ok [of q m] assms by (auto simp: at_return_def threads_ok_def leave_scope_def)

text \<open>How the program ends on options that parse, and the threads of its trace.\<close>

lemma program_ends:
  fixes m :: "('w, 'u, 'r) machine" and opts h u r
  defines "end \<equiv> leave_scope m (main_body m opts (init_components opts h u r))"
  shows "if services_start m opts h \<and> redis_ready m opts r then
      (case registration m opts r of
         Inl d \<Rightarrow> end = Inl d
       | Inr v \<Rightarrow>
           if accepted (registration m opts r) then
             (\<exists>p reqs. end = Inr (0, p) \<and> threads_ok 0 p \<and>
                sent p = register_request opts # reqs \<and> protocol_run (opt_id opts) Idle reqs = Some Idle \<and> talk m opts r (sent p) = None \<and>
                list_all (respects_policy opts new_security_manager) (parent_calls p)) \<or>
             (\<exists>d reqs. end = Inl d \<and> keeps_protocol (opt_id opts) reqs \<and> talk m opts r (register_request opts # reqs) = Some d)
           else \<exists>p. end = Inr (1, p) \<and> threads_ok 1 p \<and> sent p = [register_request opts] \<and> parent_calls p = [])
    else \<exists>p. end = Inr (1, p) \<and> threads_ok 1 p \<and> sent p = [] \<and> parent_calls p = []"
proof (cases "services_start m opts h")
  case False
  then obtain q where q: "main_body m opts (init_components opts h u r) = (Some (Return 1), q)" "prepared r q"
    using main_body_prepared [where u = u and r = r] by metis
  then have "at_return 1 q" by (auto simp: at_return_def prepared_def)
  with q False leave_scope_returns [of 1 q m] show ?thesis by (auto simp: end_def prepared_def)
next
  case True
  have dead: "leave_scope m (Some (Die d), q) = Inl d" for d q by (simp add: leave_scope_def)
  have ret: "\<exists>p. end = Inr (code, p) \<and> sent p = sent q \<and> parent_calls p = parent_calls q \<and> threads_ok code p"
    if "main_body m opts (init_components opts h u r) = (Some (Return code), q)" "at_return code q" for code q
    using leave_scope_returns [OF that(2), of m] that(1) by (auto simp: end_def)
  note ends = main_body_ends [OF True, of r u]
  show ?thesis
  proof (cases "redis_ready m opts r \<and> accepted (registration m opts r)")
    case acc: True
    from ends acc consider q reqs where "main_body m opts (init_components opts h u r) = (Some (Return 0), q)" "at_return 0 q"
        "sent q = register_request opts # reqs" "protocol_run (opt_id opts) Idle reqs = Some Idle" "talk m opts r (sent q) = None"
        "list_all (respects_policy opts new_security_manager) (parent_calls q)"
      | q d reqs where "main_body m opts (init_components opts h u r) = (Some (Die d), q)"
        "keeps_protocol (opt_id opts) reqs" "talk m opts r (register_request opts # reqs) = Some d"
      by (cases "registration m opts r") (auto simp: accepted_def)
    then show ?thesis
    proof cases
      case 1
      with ret [OF 1(1,2)] acc True show ?thesis by (cases "registration m opts r") (auto simp: accepted_def)
    next
      case 2
      then have "end = Inl d" by (simp add: end_def dead)
      with 2 acc True show ?thesis by (cases "registration m opts r") (auto simp: accepted_def)
    qed
  next
    case False
    with ends ret True dead show ?thesis
      by (cases "registration m opts r") (fastforce simp: end_def split: if_splits)+
  qed
qed

text \<open>
  The checks the program registers cannot fail: two are constants, and no monitor is ever added to the
  resource manager the third one asks.
\<close>

lemma registered_checks_healthy:
  fixes t0 opts h u r
  defines "p \<equiv> register_checks t0 (init_components opts h u r)"
  shows "map_sum (\<lambda>f. f) (\<lambda>hm. map (\<lambda>s. (hs_id s, healthy s, message s)) (get_all hm))
      (during_sleep me now (run_check clk files (resources p)) (health p)) =
    Inr [(''redis'', True, ''ok''), (''resources'', True, ''ok''), (''sandbox'', True, ''running'')]"
  by (simp add: p_def register_checks_def init_components_def components_def declare_object_def during_sleep_def lock_def unlock_def
      new_health_monitor_def register_check_def run_checks_def checked_status_def get_all_def resources_check_def
      get_resource_global_stats_def new_resource_manager_def less_char_def)

section \<open>Properties\<close>

text \<open>A machine without a network.\<close>

definition deaf_net :: "unit net" where
  "deaf_net =
     \<lparr>sys_socket = (\<lambda>w. (- 1, w)), sys_connect = (\<lambda>s h p w. (- 1, w)), sys_close = (\<lambda>s w. w),
      sys_send = (\<lambda>s d w. (- 1, w)), sys_recv = (\<lambda>s n w. (- 1, [], w))\<rparr>"

definition demo_machine :: "(unit, string set, unit) machine" where
  "demo_machine =
     \<lparr>m_pid = 42, m_prog = ''sandbox'', m_shell = failing_shell (\<lambda>c. False), m_ux = table_ux, m_net = deaf_net, m_epipe = (\<lambda>w. False),
      m_heap = \<lparr>stack_frames = 2, alloc_ok = (\<lambda>n. True), response_size = 100\<rparr>, m_socket = 5, m_bind = 0, m_listen = 0,
      m_inotify = 6, m_add_watch = (\<lambda>fd. 1), m_now = 0, m_turns = []\<rparr>"

lemma demo_starts: "services_start demo_machine default_options quiet_host" "\<not> redis_ready demo_machine default_options ()"
  by (simp_all add: services_start_def net_ready_def default_options_def get_default redis_ready_def demo_machine_def deaf_net_def
      Redis_Client.connect_def)

text \<open>
  C8. How the program ends, for any command line and whatever the kernel, the shell, the server and the jobs do until a
  signal ends the loop. An option whose number does not parse is an exception that ends it; \<^verbatim>\<open>--help\<close> and
  an unknown option print the usage and return 0 and 1. Otherwise: it returns 1, having created no
  child and sent nothing, when the security profile is unknown, the network that was asked for cannot be set up or the server
  cannot be reached; it dies, by an exception or by \<^verbatim>\<open>SIGPIPE\<close>, when the registration does; it returns 1, having sent only the registration,
  when that is refused or not answered. When it is accepted, the program returns 0, and the requests it
  sent are the registration followed by requests that keep the protocol of a worker, each of them answered or given up,
  and it created children only for allowed commands; or else it dies, exactly as the exchange of the last of such requests does.
\<close>

theorem main_outcome:
  "case parse_options cmdline default_options of
     Inl f \<Rightarrow> worker_main m cmdline h u r = Inl (Uncaught f)
   | Inr (Inl code) \<Rightarrow> worker_main m cmdline h u r = Inr (code, Inl (print_usage (m_prog m)))
   | Inr (Inr opts0) \<Rightarrow>
       let opts = final_id (m_pid m) opts0 in
       if services_start m opts h \<and> redis_ready m opts r then
         (case registration m opts r of
            Inl d \<Rightarrow> worker_main m cmdline h u r = Inl d
          | Inr v \<Rightarrow>
              if accepted (registration m opts r) then
                (\<exists>p reqs. worker_main m cmdline h u r = Inr (0, Inr p) \<and> sent p = register_request opts # reqs \<and>
                   protocol_run (opt_id opts) Idle reqs = Some Idle \<and> talk m opts r (sent p) = None \<and>
                   list_all (respects_policy opts new_security_manager) (parent_calls p)) \<or>
                (\<exists>d reqs. worker_main m cmdline h u r = Inl d \<and> keeps_protocol (opt_id opts) reqs \<and>
                   talk m opts r (register_request opts # reqs) = Some d)
              else \<exists>p. worker_main m cmdline h u r = Inr (1, Inr p) \<and> sent p = [register_request opts] \<and> parent_calls p = [])
       else \<exists>p. worker_main m cmdline h u r = Inr (1, Inr p) \<and> sent p = [] \<and> parent_calls p = []"
proof (cases "\<exists>opts0. parse_options cmdline default_options = Inr (Inr opts0)")
  case False
  then show ?thesis by (auto simp: worker_main_def split: sum.split)
next
  case True
  then obtain opts0 where o: "parse_options cmdline default_options = Inr (Inr opts0)" by blast
  define opts where "opts = final_id (m_pid m) opts0"
  have w: "worker_main m cmdline h u r = map_sum (\<lambda>d. d) (\<lambda>(code, p). (code, Inr p)) (leave_scope m (main_body m opts (init_components opts h u r)))"
    by (simp add: worker_main_def o opts_def Let_def)
  show ?thesis
    using program_ends [where m = m and opts = opts and h = h and u = u and r = r] unfolding w o opts_def [symmetric] Let_def
    by (auto simp: opts_def [symmetric] split: if_splits sum.splits)
qed

theorem main_outcome_witness:
  "\<exists>p. worker_main demo_machine [] quiet_host {} () = Inr (1, Inr p) \<and> sent p = []"
proof -
  have o: "final_id (m_pid demo_machine) default_options = default_options" by (simp add: final_id_def default_options_def)
  show ?thesis using main_outcome [where cmdline = "[]" and m = demo_machine and h = quiet_host and u = "{}" and r = "()"] demo_starts by (auto simp: o)
qed

text \<open>
  C11. The threads of the services and the lifetimes of the objects. In every run of the program that returns, each thread
  that was started has been joined. No object is destroyed while a thread still refers to it, with
  exactly one exception: when the program gives up after it has started the health
  monitor (the server cannot be reached, or refuses the registration), the resource manager, declared
  after the health monitor, is destroyed while the thread of the health monitor still runs the check that reads it.
\<close>

theorem service_lifetimes:
  assumes "worker_main m cmdline h u r = Inr (code, Inr p)"
  shows "alive {} (trace p) = {} \<and>
    violations {} (trace p) = (if code = 0 \<or> Spawn Health_thread \<notin> set (trace p) then {} else {(Health_thread, O_resource_manager)})"
proof -
  obtain opts where "leave_scope m (main_body m opts (init_components opts h u r)) = Inr (code, p)"
    using assms by (auto simp: worker_main_def Let_def map_sum_def split: sum.splits)
  then show ?thesis
    using program_ends [where m = m and opts = opts and h = h and u = u and r = r]
    by (auto simp: threads_ok_def split: if_splits sum.splits)
qed

theorem service_lifetimes_witness:
  "\<exists>p. worker_main demo_machine [] quiet_host {} () = Inr (1, Inr p) \<and> alive {} (trace p) = {} \<and>
     violations {} (trace p) = {(Health_thread, O_resource_manager)}"
proof -
  obtain q where q: "main_body demo_machine default_options (init_components default_options quiet_host {} ()) = (Some (Return 1), q)"
    "at_return 1 q" "Spawn Health_thread \<in> set (trace q)"
    using main_body_ends [OF demo_starts(1), where r = "()" and u = "{}"] demo_starts(2) by auto
  then obtain p where "leave_scope demo_machine (Some (Return 1), q) = Inr (1, p)" "Spawn Health_thread \<in> set (trace p)"
    using leave_scope_returns [OF q(2), of demo_machine] by auto
  moreover from this q have "worker_main demo_machine [] quiet_host {} () = Inr (1, Inr p)"
    by (simp add: worker_main_def final_id_def default_options_def [THEN arg_cong, of opt_id])
  ultimately show ?thesis using service_lifetimes [of demo_machine "[]" quiet_host "{}" "()" 1 p] by auto
qed

end
