(* ===== verification/Server_Tasks.thy ===== *)
theory Server_Tasks
  imports Server_Handler
begin

section \<open>Job commands of several connections at once\<close>

text \<open>
  The handler of \<^verbatim>\<open>redisdb/src/handler.rs\<close> takes the lock of the store anew for every call of the store, and between two
  calls the commands of other connections may run. Here the job commands are tasks: a tree of
  calls with a continuation for each answer, one call per \<^verbatim>\<open>await\<close>. Run without interruption a task is the
  command of \<open>Server_Handler\<close>; a pool of tasks runs in any order of its calls.
\<close>

subsection \<open>Calls of the store\<close>

datatype store_op =
    Op_lpush string string | Op_rpop string | Op_set string string | Op_get string
  | Op_lrange string int int | Op_del string

datatype store_answer = A_unit | A_text "string option" | A_list "string list run"

fun exec :: "bool \<Rightarrow> nat \<Rightarrow> store_op \<Rightarrow> store \<Rightarrow> store_answer \<times> store" where
  "exec ck now (Op_lpush k v) st = (A_unit, lpush k v st)"
| "exec ck now (Op_rpop k) st = (case rpop k st of (v, st') \<Rightarrow> (A_text v, st'))"
| "exec ck now (Op_set k v) st = (A_unit, set_str k v st)"
| "exec ck now (Op_get k) st = (A_text (fst (get_str now k st)), st)"
| "exec ck now (Op_lrange k a b) st = (A_list (lrange ck k a b st), st)"
| "exec ck now (Op_del k) st = (A_unit, snd (sdel k st))"

subsection \<open>Tasks\<close>

datatype task = Done "sresponse run" | Call store_op "store_answer \<Rightarrow> task"

definition finish :: "sresponse \<Rightarrow> task" where
  "finish r = Done (Inr r)"

definition submit_task :: "string list \<Rightarrow> task" where
  "submit_task args =
     (if length args < 5 then finish (err_arg_msg ''JOB SUBMIT <id> <name> <target> <command> [args...]'')
      else
        let payload = job_payload (args ! 1) (args ! 2) (args ! 3) (args ! 4) (drop 5 args) in
        Call (Op_lpush QUEUE payload) (\<lambda>_.
        Call (Op_set (job_key (args ! 1)) payload) (\<lambda>_.
        Call (Op_set (status_key (args ! 1)) ''queued'') (\<lambda>_. finish (SStr (args ! 1))))))"

definition next_task :: task where
  "next_task =
     Call (Op_rpop QUEUE) (\<lambda>a.
       case a of
         A_text (Some payload) \<Rightarrow>
           let parts = splitn 5 (CHR ''|'') payload in
           if length parts < 5 then finish (err_unknown ''malformed job payload'')
           else Call (Op_set (status_key (parts ! 0)) ''running'') (\<lambda>_. finish (SArr (map SStr parts)))
       | _ \<Rightarrow> finish SNil)"

definition status_task :: "string list \<Rightarrow> task" where
  "status_task args =
     (if length args \<noteq> 2 then finish err_arg
      else Call (Op_get (status_key (args ! 1))) (\<lambda>a. finish (case a of A_text v \<Rightarrow> str_or_nil v | _ \<Rightarrow> SNil)))"

definition result_task :: "string list \<Rightarrow> task" where
  "result_task args =
     (if length args \<noteq> 4 then finish err_arg
      else case (parse_i64 (args ! 2), parse_i64 (args ! 3)) of
        (Some code, Some dur) \<Rightarrow>
          Call (Op_set (status_key (args ! 1)) (verdict code)) (\<lambda>_.
          Call (Op_set (result_key (args ! 1)) (result_text code dur)) (\<lambda>_.
          Call (Op_lpush RESULTS (result_entry (args ! 1) code dur)) (\<lambda>_. finish (SStr (verdict code)))))
      | _ \<Rightarrow> finish (err_arg_msg ''expect int''))"

fun push_each :: "string \<Rightarrow> string list \<Rightarrow> task" where
  "push_each key [] = finish (SInt 1)"
| "push_each key (v # vs) = Call (Op_lpush key v) (\<lambda>_. push_each key vs)"

definition log_task :: "string list \<Rightarrow> task" where
  "log_task args =
     (if length args < 3 then finish err_arg
      else
        let line = join '' '' (drop 2 args); key = log_key (args ! 1) in
        Call (Op_lrange key 0 (- 1)) (\<lambda>a.
          case a of
            A_list (Inr vals) \<Rightarrow> Call (Op_del key) (\<lambda>_. push_each key (vals @ [line]))
          | A_list (Inl p) \<Rightarrow> Done (Inl p)
          | _ \<Rightarrow> finish SNil))"

subsection \<open>Running\<close>

text \<open>One task alone.\<close>

primrec run_task :: "task \<Rightarrow> bool \<Rightarrow> nat \<Rightarrow> store \<Rightarrow> answer" where
  "run_task (Done r) = (\<lambda>ck now st. (r, st))"
| "run_task (Call op k) = (\<lambda>ck now st. case exec ck now op st of (a, st') \<Rightarrow> run_task (k a) ck now st')"

text \<open>A pool of tasks: any task that is not done makes its next call, at any time; the trace records calls and answers.\<close>

inductive pool_step :: "task list \<times> store \<Rightarrow> store_op \<times> store_answer \<Rightarrow> task list \<times> store \<Rightarrow> bool" where
  call: "i < length ts \<Longrightarrow> ts ! i = Call op k \<Longrightarrow> exec ck now op st = (a, st') \<Longrightarrow>
    pool_step (ts, st) (op, a) (ts[i := k a], st')"

inductive pool_run :: "task list \<times> store \<Rightarrow> (store_op \<times> store_answer) list \<Rightarrow> task list \<times> store \<Rightarrow> bool" where
  stop: "pool_run c [] c"
| more: "pool_step c e c1 \<Longrightarrow> pool_run c1 es c2 \<Longrightarrow> pool_run c (e # es) c2"

inductive_cases pool_stepE: "pool_step (ts, st) e c"
inductive_simps pool_run_Nil: "pool_run c [] c'"

subsection \<open>Specification vocabulary\<close>

text \<open>The payloads that went into the queue and that came out of it.\<close>

fun pushed :: "store_op \<times> store_answer \<Rightarrow> string list" where
  "pushed (Op_lpush k v, a) = (if k = QUEUE then [v] else [])"
| "pushed (op, a) = []"

fun popped :: "store_op \<times> store_answer \<Rightarrow> string list" where
  "popped (Op_rpop k, A_text (Some v)) = (if k = QUEUE then [v] else [])"
| "popped (op, a) = []"

text \<open>Calls that use the queue as a queue only, and tasks that make no others.\<close>

fun op_ok :: "store_op \<Rightarrow> bool" where
  "op_ok (Op_set k v) = (k \<noteq> QUEUE)"
| "op_ok (Op_del k) = (k \<noteq> QUEUE)"
| "op_ok op = True"

inductive task_ok :: "task \<Rightarrow> bool" where
  ended: "task_ok (Done r)"
| calls: "op_ok op \<Longrightarrow> (\<And>a. task_ok (k a)) \<Longrightarrow> task_ok (Call op k)"

inductive_simps task_ok_simps [simp]: "task_ok (Done r)" "task_ok (Call op k)"

text \<open>The job commands, with any arguments.\<close>

inductive job_task :: "task \<Rightarrow> bool" where
  "job_task (submit_task args)"
| "job_task next_task"
| "job_task (status_task args)"
| "job_task (result_task args)"
| "job_task (log_task args)"

text \<open>The run in which the tasks make their calls in a given order.\<close>

fun run_schedule ::
  "bool \<Rightarrow> nat \<Rightarrow> nat list \<Rightarrow> task list \<times> store \<Rightarrow> (store_op \<times> store_answer) list \<times> task list \<times> store" where
  "run_schedule ck now [] c = ([], c)"
| "run_schedule ck now (i # is) (ts, st) =
     (case ts ! i of
        Done r \<Rightarrow> run_schedule ck now is (ts, st)
      | Call op k \<Rightarrow>
          (case exec ck now op st of (a, st') \<Rightarrow>
             (case run_schedule ck now is (ts[i := k a], st') of (es, c) \<Rightarrow> ((op, a) # es, c))))"

section \<open>Lemmas\<close>

subsection \<open>Tasks and commands\<close>

lemma run_push_each: "run_task (push_each key vs) ck now st = (Inr (SInt 1), fold (lpush key) vs st)"
  by (induction vs arbitrary: st) (simp_all add: finish_def)

lemma push_each_ok: "task_ok (push_each key vs)"
  by (induction vs) (simp_all add: finish_def)

lemma job_task_ok: "job_task t \<Longrightarrow> task_ok t"
  by (induction rule: job_task.induct)
    (auto simp: submit_task_def next_task_def status_task_def result_task_def log_task_def finish_def Let_def push_each_ok
      split: option.splits store_answer.splits sum.splits)

subsection \<open>The queue\<close>

lemma list_key_lpush: "list_key k st \<Longrightarrow> list_key k (lpush key x st)"
  by (auto simp: lpush_def inv_intros split: option.splits svalue.splits)

lemma list_key_rpop: "list_key k st \<Longrightarrow> list_key k (snd (rpop key st))"
  by (auto simp: rpop_def inv_intros split: option.splits svalue.splits)

lemma list_at_rpop_other: "k \<noteq> key \<Longrightarrow> list_at k (snd (rpop key st)) = list_at k st"
  by (auto simp: rpop_def split: option.splits svalue.splits)

lemma popped_rpop: "popped (Op_rpop k, A_text v) = (if k = QUEUE then case v of None \<Rightarrow> [] | Some x \<Rightarrow> [x] else [])"
  by (cases v) simp_all

lemma exec_queue:
  assumes "list_key QUEUE st" "op_ok op" "exec ck now op st = (a, st')"
  shows "list_key QUEUE st' \<and> rev (pushed (op, a)) @ list_at QUEUE st = list_at QUEUE st' @ rev (popped (op, a))"
proof (cases op)
  case (Op_lpush k v)
  then show ?thesis
    using assms list_at_cong [OF map_of_lpush_other, of QUEUE k v st] by (auto simp: list_key_lpush lpush_list intro: list_key_put)
next
  case (Op_rpop k)
  then show ?thesis
    using assms list_key_rpop [OF assms(1), of k] list_at_rpop_other [of QUEUE k st]
    by (cases "k = QUEUE") (auto simp: rpop_list popped_rpop inv_intros split: prod.splits option.splits if_splits intro: list_key_put)
qed (use assms in \<open>auto simp: inv_intros\<close>)

text \<open>Every step of a pool of tasks keeps them to the queue's interface.\<close>

lemma pool_step_queue:
  assumes "pool_step (ts, st) e (ts', st')" "list_key QUEUE st" "list_all task_ok ts"
  shows "list_key QUEUE st' \<and> list_all task_ok ts' \<and> rev (pushed e) @ list_at QUEUE st = list_at QUEUE st' @ rev (popped e)"
  using assms(1)
proof (cases rule: pool_step.cases)
  case (call i op k ck now a)
  then have "task_ok (Call op k)" using assms(3) by (metis list_all_length)
  then have "op_ok op" "task_ok (k a)" by simp_all
  then show ?thesis
    using exec_queue [OF assms(2) _ call(5)] call assms(3) by (auto simp: list_all_length nth_list_update)
qed

lemma pool_run_queue:
  assumes "pool_run c es c'" "list_key QUEUE (snd c)" "list_all task_ok (fst c)"
  shows "rev (concat (map pushed es)) @ list_at QUEUE (snd c) = list_at QUEUE (snd c') @ rev (concat (map popped es))"
  using assms
proof (induction rule: pool_run.induct)
  case (more c e c1 es c2)
  then have "list_key QUEUE (snd c1)" "list_all task_ok (fst c1)"
    "rev (pushed e) @ list_at QUEUE (snd c) = list_at QUEUE (snd c1) @ rev (popped e)"
    using pool_step_queue [of "fst c" "snd c" e "fst c1" "snd c1"] by auto
  with more.IH show ?case by (metis (no_types, lifting) append.assoc concat.simps(2) list.simps(9) rev_append)
qed simp

subsection \<open>Schedules\<close>

lemma run_schedule_run:
  "list_all (\<lambda>i. i < length ts) is \<Longrightarrow> run_schedule ck now is (ts, st) = (es, c) \<Longrightarrow> pool_run (ts, st) es c"
proof (induction "is" arbitrary: ts st es)
  case Nil
  then show ?case by (simp add: pool_run_Nil)
next
  case (Cons i "is")
  show ?case
  proof (cases "ts ! i")
    case (Done r)
    with Cons show ?thesis by simp
  next
    case (Call op k)
    obtain a st1 where ex: "exec ck now op st = (a, st1)" by fastforce
    obtain es1 where es: "run_schedule ck now is (ts[i := k a], st1) = (es1, c)" "es = (op, a) # es1"
      using Cons.prems(2) Call ex by (auto split: prod.splits)
    have "pool_run (ts[i := k a], st1) es1 c" using Cons.IH [OF _ es(1)] Cons.prems(1) by simp
    moreover have "pool_step (ts, st) (op, a) (ts[i := k a], st1)"
      using Cons.prems(1) Call ex by (intro pool_step.call) auto
    ultimately show ?thesis using es(2) by (simp add: pool_run.more)
  qed
qed

section \<open>Properties\<close>

text \<open>
  The commands are their tasks run alone: a job command with no other connection in between does
  to the store, and answers, what the corresponding branch of the handler does, for any arguments and
  any store.
\<close>

theorem job_tasks_refine:
  "run_task (submit_task args) (checked env) (clk env 0) st = job_submit env args st \<and>
   run_task next_task (checked env) (clk env 0) st = job_next env args st \<and>
   run_task (status_task args) (checked env) (clk env 0) st = job_status env args st \<and>
   run_task (result_task args) (checked env) (clk env 0) st = job_result env args st \<and>
   run_task (log_task args) (checked env) (clk env 0) st = job_log env args st"
proof (intro conjI)
  show "run_task (submit_task args) (checked env) (clk env 0) st = job_submit env args st"
    by (simp add: submit_task_def job_submit_def finish_def reply_def Let_def)
  show "run_task next_task (checked env) (clk env 0) st = job_next env args st"
    by (simp add: next_task_def job_next_def finish_def reply_def Let_def split: prod.splits option.splits)
  show "run_task (status_task args) (checked env) (clk env 0) st = job_status env args st"
    by (simp add: status_task_def job_status_def finish_def reply_def)
  show "run_task (result_task args) (checked env) (clk env 0) st = job_result env args st"
    by (simp add: result_task_def job_result_def finish_def reply_def Let_def split: option.splits)
  show "run_task (log_task args) (checked env) (clk env 0) st = job_log env args st"
    by (simp add: log_task_def job_log_def finish_def reply_def reply_int_def Let_def run_push_each split: sum.splits)
qed

text \<open>
  C6. The queue is first in first out under every interleaving. Let any number of job commands, with any arguments,
  run at once, their calls of the store interleaved in any order and at any time. Then the payloads
  taken from the queue, in the order in which they were taken, followed by what the queue holds
  in the end, oldest first, are what it held at the beginning followed by the payloads submitted,
  in the order in which they went in: no job is lost and none is handed out twice.
\<close>

theorem queue_linear:
  assumes "pool_run (ts, st) es (ts', st')" "list_all job_task ts" "list_key QUEUE st"
  shows "concat (map popped es) @ rev (list_at QUEUE st') = rev (list_at QUEUE st) @ concat (map pushed es)"
proof -
  have "list_all task_ok ts" using assms(2) job_task_ok by (auto simp: list_all_iff)
  then have "rev (concat (map pushed es)) @ list_at QUEUE st = list_at QUEUE st' @ rev (concat (map popped es))"
    using pool_run_queue [OF assms(1)] assms(3) by simp
  then show ?thesis by (metis rev_append rev_rev_ident)
qed

theorem queue_linear_witness:
  "\<exists>es ts' st'. es \<noteq> [] \<and> pool_run ([submit_task (submit_request (hd demo_jobs)), next_task], new_store) es (ts', st') \<and>
    concat (map popped es) @ rev (list_at QUEUE st') = concat (map pushed es)"
proof -
  let ?ts = "[submit_task (submit_request (hd demo_jobs)), next_task]"
  obtain es ts' st' where r: "run_schedule False 0 [0, 1, 1, 0, 0] (?ts, new_store) = (es, ts', st')" by (metis prod_cases3)
  have run: "pool_run (?ts, new_store) es (ts', st')" by (rule run_schedule_run [OF _ r]) simp
  have "list_all job_task ?ts" by (simp add: job_task.intros)
  moreover have "list_key QUEUE new_store" "list_at QUEUE new_store = []"
    by (simp_all add: list_key_def list_at_def new_store_def umap_inv_def)
  moreover have "es \<noteq> []" using r by (auto simp: submit_task_def submit_request_def demo_jobs_def Let_def split: prod.splits)
  ultimately show ?thesis using queue_linear [OF run] run by auto
qed

text \<open>
  The status of a job can fall behind. For every job there is an interleaving of its submission with a worker that takes
  it and reports a result, all three commands being answered as if they had run alone, after which the
  result is recorded and the status of the job says that it is still queued: the
  submission puts the job into the queue before it writes the status.
\<close>

theorem submitted_status_race:
  assumes "sj_ok j" "list_key QUEUE st" "list_at QUEUE st = []" "list_key RESULTS st" "i64_range code" "i64_range dur"
  shows "\<exists>es st'. pool_run
      ([submit_task (submit_request j), next_task, result_task [''job result'', sj_id j, dec_of_int code, dec_of_int dur]], st) es
      ([finish (SStr (sj_id j)), finish (job_reply j), finish (SStr (verdict code))], st') \<and>
    map_of st' (status_key (sj_id j)) = Some \<lparr>e_typ = VStr ''queued'', exp_at = None\<rparr> \<and>
    map_of st' (result_key (sj_id j)) = Some \<lparr>e_typ = VStr (result_text code dur), exp_at = None\<rparr> \<and>
    list_at RESULTS st' = result_entry (sj_id j) code dur # list_at RESULTS st"
proof -
  let ?ts = "[submit_task (submit_request j), next_task, result_task [''job result'', sj_id j, dec_of_int code, dec_of_int dur]]"
  let ?st1 = "set_str (job_key (sj_id j)) (sj_payload j) (put_value QUEUE (VList [sj_payload j]) st)"
  have q: "list_key QUEUE ?st1" "list_at QUEUE ?st1 = [sj_payload j]" "list_key RESULTS ?st1" "list_at RESULTS ?st1 = list_at RESULTS st"
    using assms by (simp_all add: inv_intros)
  let ?st2 = "set_str (result_key (sj_id j)) (result_text code dur) (set_str (status_key (sj_id j)) (verdict code)
      (set_str (status_key (sj_id j)) ''running'' (put_value QUEUE (VList []) ?st1)))"
  have r: "list_key RESULTS ?st2" "list_at RESULTS ?st2 = list_at RESULTS st"
    using q(3,4) by (simp_all add: inv_intros)
  obtain es where "run_schedule False 0 [0, 0, 1, 1, 2, 2, 2, 0] (?ts, st) =
      (es, [finish (SStr (sj_id j)), finish (job_reply j), finish (SStr (verdict code))],
       set_str (status_key (sj_id j)) ''queued'' (put_value RESULTS (VList (result_entry (sj_id j) code dur # list_at RESULTS st)) ?st2))"
    using lpush_list [OF assms(2)] rpop_list [OF q(1)] lpush_list [OF r(1)] q(2) r(2) assms
    by (simp add: submit_task_def submit_request_def next_task_def result_task_def finish_def Let_def sj_payload_def [symmetric]
        split_payload job_reply_def parse_i64_dec)
  from run_schedule_run [OF _ this] show ?thesis
    by (intro exI conjI) (assumption | simp)+
qed

theorem submitted_status_race_witness:
  "\<exists>es st'. pool_run ([submit_task (submit_request (hd demo_jobs)), next_task, result_task [''job result'', ''1'', dec_of_int 0, dec_of_int 5]],
      new_store) es ([finish (SStr ''1''), finish (job_reply (hd demo_jobs)), finish (SStr ''passed'')], st') \<and>
    map_of st' (status_key ''1'') = Some \<lparr>e_typ = VStr ''queued'', exp_at = None\<rparr>"
proof -
  have "sj_ok (hd demo_jobs)" "sj_id (hd demo_jobs) = ''1''" "verdict 0 = ''passed''"
    by (simp_all add: demo_jobs_def sj_ok_def no_bar_def verdict_def)
  moreover have "list_key QUEUE new_store" "list_at QUEUE new_store = []" "list_key RESULTS new_store"
    by (simp_all add: list_key_def list_at_def new_store_def umap_inv_def)
  ultimately show ?thesis
    using submitted_status_race [of "hd demo_jobs" new_store 0 5] by (auto simp: i64_range_def)
qed

text \<open>
  Log lines can be lost. Two lines logged for a job at once, by two connections, can both be acknowledged
  while only one of them is kept: each command reads the whole list, deletes the key and writes the
  list again.
\<close>

theorem concurrent_log_loses_line:
  assumes "list_key (log_key i) st" "list_at (log_key i) st = []"
  shows "\<exists>es st'. pool_run ([log_task [''job log'', i, a], log_task [''job log'', i, b]], st) es
      ([finish (SInt 1), finish (SInt 1)], st') \<and> list_at (log_key i) st' = [b]"
proof -
  let ?ts = "[log_task [''job log'', i, a], log_task [''job log'', i, b]]" and ?d = "snd (sdel (log_key i) st)"
  have d: "list_key (log_key i) ?d" "list_at (log_key i) ?d = []"
    using assms(1) by (simp_all add: list_key_sdel list_at_sdel)
  let ?e = "snd (sdel (log_key i) (put_value (log_key i) (VList [a]) ?d))"
  have e: "list_key (log_key i) ?e" "list_at (log_key i) ?e = []"
    using list_key_sdel [OF list_key_put [OF d(1)]] by (simp_all add: list_at_sdel)
  have r: "lrange False (log_key i) 0 (- 1) st = Inr []" using lrange_all [OF assms(1)] assms(2) by simp
  obtain es where "run_schedule False 0 [0, 1, 0, 0, 1, 1] (?ts, st) =
      (es, [finish (SInt 1), finish (SInt 1)], put_value (log_key i) (VList [b]) ?e)"
    using lpush_list [OF d(1)] lpush_list [OF e(1)] d(2) e(2) r by (simp add: log_task_def Let_def join.simps)
  from run_schedule_run [OF _ this] show ?thesis
    by (intro exI conjI) (assumption | simp)+
qed

theorem concurrent_log_loses_line_witness:
  "\<exists>es st'. pool_run ([log_task [''job log'', ''7'', ''first''], log_task [''job log'', ''7'', ''second'']], new_store) es
      ([finish (SInt 1), finish (SInt 1)], st') \<and> list_at (log_key ''7'') st' = [''second'']"
  by (rule concurrent_log_loses_line) (simp_all add: list_key_def list_at_def new_store_def umap_inv_def)

end
