(* ===== verification/Server_Accept.thy ===== *)
theory Server_Accept
  imports Server_Handler
begin

section \<open>Accepting connections\<close>

text \<open>
  \<^verbatim>\<open>serve\<close> and \<^verbatim>\<open>listen_and_serve\<close> of \<^verbatim>\<open>redisdb/src/server.rs\<close>, with the counters of \<^verbatim>\<open>stats.rs\<close>. The loop takes a permit of the semaphore before it
  accepts, hands it to the task of the connection, and the task drops it when it ends; a permit
  that goes out of scope, also by a panic that unwinds the task, returns to the semaphore. The
  tasks take their turns in any order; a turn is \<open>conn_turn\<close> on the bytes that have arrived.
\<close>

subsection \<open>Configuration\<close>

record config =
  cfg_addr :: string
  max_connections :: nat
  read_timeout :: nat

definition default_server_config :: config where
  "default_server_config = \<lparr>cfg_addr = ''127.0.0.1:1234'', max_connections = 1000, read_timeout = 30000\<rparr>"

definition max_sem :: "config \<Rightarrow> nat" where
  "max_sem cfg = (if max_connections cfg = 0 then 1000 else max_connections cfg)"

subsection \<open>The loop and its tasks\<close>

datatype acceptor = Wants_permit | Has_permit

record front =
  permits :: nat
  acceptor :: acceptor
  conns :: "nat list"
  f_server :: server
  f_stats :: stats

definition new_front :: "config \<Rightarrow> server \<Rightarrow> stats \<Rightarrow> front" where
  "new_front cfg srv s = \<lparr>permits = max_sem cfg, acceptor = Wants_permit, conns = [], f_server = srv, f_stats = s\<rparr>"

datatype front_event = Acquired | Accepted nat | Accept_failed | Served nat | Ended nat | Crashed nat

definition acquire :: "front \<Rightarrow> front" where
  "acquire f = f\<lparr>permits := permits f - 1, acceptor := Has_permit\<rparr>"

text \<open>An error of \<^verbatim>\<open>accept\<close> drops the permit.\<close>

definition accept_failed :: "front \<Rightarrow> front" where
  "accept_failed f = f\<lparr>permits := permits f + 1, acceptor := Wants_permit\<rparr>"

definition accept :: "nat \<Rightarrow> front \<Rightarrow> front" where
  "accept c f = f\<lparr>acceptor := Wants_permit, conns := conns f @ [c], f_stats := inc_conn (f_stats f)\<rparr>"

text \<open>How the task of a connection leaves: by its last line, or by a panic, which skips that line.\<close>

definition task_ends :: "nat \<Rightarrow> front \<Rightarrow> front" where
  "task_ends c f = f\<lparr>permits := permits f + 1, conns := remove1 c (conns f), f_stats := dec_conn (f_stats f)\<rparr>"

definition task_panics :: "nat \<Rightarrow> front \<Rightarrow> front" where
  "task_panics c f = f\<lparr>permits := permits f + 1, conns := remove1 c (conns f)\<rparr>"

text \<open>A connection also ends when a read times out or a write fails.\<close>

inductive front_step :: "front \<Rightarrow> front_event \<Rightarrow> front \<Rightarrow> bool" where
  acquired: "acceptor f = Wants_permit \<Longrightarrow> 0 < permits f \<Longrightarrow> front_step f Acquired (acquire f)"
| accepted: "acceptor f = Has_permit \<Longrightarrow> c \<notin> set (conns f) \<Longrightarrow> front_step f (Accepted c) (accept c f)"
| failed: "acceptor f = Has_permit \<Longrightarrow> front_step f Accept_failed (accept_failed f)"
| served: "c \<in> set (conns f) \<Longrightarrow> conn_turn env bytes (f_server f) (f_stats f) = (Open, out, rest, srv, s) \<Longrightarrow>
    front_step f (Served c) (f\<lparr>f_server := srv, f_stats := s\<rparr>)"
| closed: "c \<in> set (conns f) \<Longrightarrow> conn_turn env bytes (f_server f) (f_stats f) = (Closed, out, rest, srv, s) \<Longrightarrow>
    front_step f (Ended c) (task_ends c (f\<lparr>f_server := srv, f_stats := s\<rparr>))"
| lost: "c \<in> set (conns f) \<Longrightarrow> front_step f (Ended c) (task_ends c f)"
| panicked: "c \<in> set (conns f) \<Longrightarrow> conn_turn env bytes (f_server f) (f_stats f) = (Panicked p, out, rest, srv, s) \<Longrightarrow>
    front_step f (Crashed c) (task_panics c (f\<lparr>f_server := srv, f_stats := s\<rparr>))"

inductive front_run :: "front \<Rightarrow> front_event list \<Rightarrow> front \<Rightarrow> bool" where
  here: "front_run f [] f"
| further: "front_run f es f1 \<Longrightarrow> front_step f1 e f2 \<Longrightarrow> front_run f (es @ [e]) f2"

record stats_snapshot =
  snap_total :: u64
  snap_active :: i64
  snap_commands :: u64
  snap_last :: "string list"
  snap_uptime :: nat
  snap_addr :: string

definition snapshot :: "nat \<Rightarrow> string \<Rightarrow> stats \<Rightarrow> stats_snapshot" where
  "snapshot uptime addr s =
     \<lparr>snap_total = total_connections s, snap_active = active_connections s, snap_commands = total_commands s,
      snap_last = last_cmds s, snap_uptime = uptime, snap_addr = addr\<rparr>"

section \<open>Lemmas\<close>

fun is_accepted :: "front_event \<Rightarrow> bool" where
  "is_accepted (Accepted c) = True" | "is_accepted _ = False"

fun is_crashed :: "front_event \<Rightarrow> bool" where
  "is_crashed (Crashed c) = True" | "is_crashed _ = False"

definition counted :: "(front_event \<Rightarrow> bool) \<Rightarrow> front_event list \<Rightarrow> nat" where
  "counted t es = length (filter t es)"

definition held :: "front \<Rightarrow> nat" where
  "held f = (case acceptor f of Has_permit \<Rightarrow> 1 | Wants_permit \<Rightarrow> 0)"

text \<open>A turn counts its command and no connection.\<close>

lemma turn_counters:
  assumes "conn_turn env bytes srv s = (c, out, rest, srv', s')"
  shows "total_connections s' = total_connections s" "active_connections s' = active_connections s"
  using assms by (auto simp: conn_turn_def inc_cmd_def Let_def split: sum.splits prod.splits)

lemma step_permits:
  assumes "front_step f e f'" "distinct (conns f)"
  shows "permits f' + length (conns f') + held f' = permits f + length (conns f) + held f \<and> distinct (conns f')"
  using assms
  by (cases rule: front_step.cases)
    (auto simp: acquire_def accept_def accept_failed_def task_ends_def task_panics_def held_def length_remove1
      dest: length_pos_if_in_set)

lemma step_counters:
  assumes "front_step f e f'"
  shows "total_connections (f_stats f') = total_connections (f_stats f) + of_nat (counted is_accepted [e])"
    and "active_connections (f_stats f') - of_nat (length (conns f')) =
      active_connections (f_stats f) - of_nat (length (conns f)) + of_nat (counted is_crashed [e])"
proof -
  have one: "of_nat (length (remove1 c xs)) = (of_nat (length xs) - 1 :: i64)" if "c \<in> set xs" for c xs
    using that length_pos_if_in_set [OF that] by (simp add: length_remove1 of_nat_diff Suc_le_eq)
  show "total_connections (f_stats f') = total_connections (f_stats f) + of_nat (counted is_accepted [e])"
    using assms by (cases rule: front_step.cases)
      (simp_all add: acquire_def accept_def accept_failed_def task_ends_def task_panics_def inc_conn_def dec_conn_def counted_def turn_counters)
  show "active_connections (f_stats f') - of_nat (length (conns f')) =
      active_connections (f_stats f) - of_nat (length (conns f)) + of_nat (counted is_crashed [e])"
    using assms by (cases rule: front_step.cases)
      (simp_all add: acquire_def accept_def accept_failed_def task_ends_def task_panics_def inc_conn_def dec_conn_def counted_def turn_counters one)
qed

lemma counted_append: "counted t (es @ es') = counted t es + counted t es'"
  by (simp add: counted_def)

section \<open>Properties\<close>

text \<open>
  C15. The number of connections is bounded and counted. Whatever the peers send and however the tasks of the connections take their turns, there are
  never more connections than the configured limit, no permit is lost, also when a task panics, the total counts every
  connection accepted, and the number of active connections that the server reports is that of the open ones
  plus one for every task that has panicked, because a panic skips the line that counts down.
\<close>

theorem connections_accounted:
  assumes "front_run (new_front cfg srv new_stats) es f"
  shows "length (conns f) \<le> max_sem cfg \<and> permits f + length (conns f) + held f = max_sem cfg \<and>
    snap_total (snapshot up a (f_stats f)) = of_nat (counted is_accepted es) \<and>
    snap_active (snapshot up a (f_stats f)) = of_nat (length (conns f) + counted is_crashed es)"
proof -
  have "distinct (conns f) \<and> permits f + length (conns f) + held f = max_sem cfg \<and>
      total_connections (f_stats f) = of_nat (counted is_accepted es) \<and>
      active_connections (f_stats f) - of_nat (length (conns f)) = of_nat (counted is_crashed es)"
    using assms
  proof (induction "new_front cfg srv new_stats" es f rule: front_run.induct)
    case here
    then show ?case by (simp add: new_front_def held_def new_stats_def counted_def)
  next
    case (further es f1 e f2)
    then show ?case using step_permits [of f1 e f2] step_counters [of f1 e f2] by (simp add: counted_append)
  qed
  then show ?thesis by (simp add: snapshot_def algebra_simps)
qed

text \<open>A request that panics: \<^verbatim>\<open>lrange\<close> up to the largest number.\<close>

definition crash_request :: "string list" where
  "crash_request = [''lrange'', ''k'', ''0'', ''9223372036854775807'']"

definition one_list :: server where
  "one_list = \<lparr>db = lpush ''k'' ''a'' [], auth = new_auth_config\<rparr>"

lemma crash_turn:
  "\<exists>p rest srv s'. conn_turn env (write_response (request_payload crash_request)) one_list s = (Panicked p, [], rest, srv, s') "
proof -
  have "\<forall>a \<in> set crash_request. arg_ok a"
    by (auto simp: crash_request_def arg_ok_def bytes_of_string_def byte_of_char_def intro!: utf8_valid_ascii)
  then have r: "read_request (write_response (request_payload crash_request)) = Inr (crash_request, [])"
    using read_request_frame [of crash_request "[]"]
    by (simp add: crash_request_def MAX_ARGS_def MAX_MSG_SIZE_def request_payload_def arg_bytes_def)
  have "map_of (db one_list) ''k'' = Some \<lparr>e_typ = VList [''a''], exp_at = None\<rparr>" by (simp add: one_list_def lpush_def)
  then obtain p where p: "lrange (checked env) ''k'' 0 (2 ^ 63 - 1) (db one_list) = Inl p"
    using list_slice_max [of 0 "[''a'']" "checked env"] by (auto simp: lrange_def i64_range_def)
  have c: "to_lowercase ''lrange'' = ''lrange''" "map_of commands ''lrange'' = Some do_lrange" 
    by (simp_all add: ascii_lower_def commands_def)
  have n: "parse_i64 ''0'' = Some 0" "parse_i64 ''9223372036854775807'' = Some (2 ^ 63 - 1)"
    by (simp_all add: parse_i64_def dec_value_def is_digit_def digit_val_def i64_range_def)
  have "respond env crash_request one_list = (Inl p, one_list\<lparr>db := db one_list\<rparr>)"
    unfolding crash_request_def using respond_command [OF c, of env "[''k'', ''0'', ''9223372036854775807'']" one_list] n p
    by (simp add: do_lrange_def reply_run_def)
  then show ?thesis using r by (simp add: conn_turn_def dispatch_def Let_def)
qed

theorem connections_accounted_witness:
  "\<exists>f. front_run (new_front default_server_config one_list new_stats) [Acquired, Accepted 5, Crashed 5] f \<and> conns f = [] \<and>
     permits f = 1000 \<and> snap_active (snapshot 0 [] (f_stats f)) = 1"
proof -
  let ?f0 = "new_front default_server_config one_list new_stats"
  let ?f2 = "accept 5 (acquire ?f0)"
  have f0: "acceptor ?f0 = Wants_permit" "0 < permits ?f0" "f_server ?f2 = one_list" "conns ?f2 = [5]"
    by (simp_all add: new_front_def accept_def acquire_def max_sem_def default_server_config_def)
  obtain p rest srv s where t: "conn_turn demo_env (write_response (request_payload crash_request)) one_list (f_stats ?f2) =
      (Panicked p, [], rest, srv, s)" using crash_turn by blast
  have "front_run ?f0 ([] @ [Acquired]) (acquire ?f0)" using f0 by (blast intro: front_run.intros front_step.acquired)
  then have "front_run ?f0 (([] @ [Acquired]) @ [Accepted 5]) ?f2"
    by (rule front_run.further) (rule front_step.accepted, simp_all add: acquire_def new_front_def)
  then have run: "front_run ?f0 ((([] @ [Acquired]) @ [Accepted 5]) @ [Crashed 5]) (task_panics 5 (?f2\<lparr>f_server := srv, f_stats := s\<rparr>))"
    (is "front_run _ _ ?f3")
    by (rule front_run.further) (rule front_step.panicked [of _ _ demo_env "write_response (request_payload crash_request)" p "[]" rest], simp_all add: f0 t)
  have c: "conns ?f3 = []" by (simp add: task_panics_def f0)
  with connections_accounted [OF run, of 0 "[]"] have "snap_active (snapshot 0 [] (f_stats ?f3)) = 1" "permits ?f3 + held ?f3 = 1000"
    by (simp_all add: counted_def default_server_config_def max_sem_def)
  moreover have "held ?f3 = 0" by (simp add: held_def task_panics_def accept_def)
  ultimately show ?thesis using run c by (intro exI [of _ ?f3]) simp
qed

end
