(* ===== verification/Server_Streams.thy ===== *)
theory Server_Streams
  imports Rust_Prims Bytes "HOL-Library.List_Lexorder"
begin

section \<open>Streams\<close>

text \<open>
  \<^verbatim>\<open>redisdb/src/streams.rs\<close>: append-only streams of entries by name. The fields of an entry are the list of the pairs of its map. Strings are compared by their
  bytes, as Rust compares them. Operations under the lock of the map are one step.
\<close>

record stream_entry =
  se_id :: string
  se_fields :: "(string \<times> string) list"

record stream =
  s_entries :: "stream_entry list"
  s_next :: u64

definition new_stream :: stream where
  "new_stream = \<lparr>s_entries = [], s_next = 1\<rparr>"

definition entry_id :: "u64 \<Rightarrow> string" where
  "entry_id n = dec_of_nat (unat n) @ ''-0''"

definition s_append :: "(string \<times> string) list \<Rightarrow> stream \<Rightarrow> string \<times> stream" where
  "s_append fs s =
     (let i = entry_id (s_next s) in (i, s\<lparr>s_entries := s_entries s @ [\<lparr>se_id = i, se_fields = fs\<rparr>], s_next := s_next s + 1\<rparr>))"

definition str_le :: "string \<Rightarrow> string \<Rightarrow> bool" where
  "str_le a b = (bytes_of_string a \<le> bytes_of_string b)"

definition s_range :: "string \<Rightarrow> string \<Rightarrow> stream \<Rightarrow> stream_entry list" where
  "s_range a b s = filter (\<lambda>e. str_le a (se_id e) \<and> str_le (se_id e) b) (s_entries s)"

definition s_last_n :: "nat \<Rightarrow> stream \<Rightarrow> stream_entry list" where
  "s_last_n n s = drop (length (s_entries s) - n) (s_entries s)"

definition s_len :: "stream \<Rightarrow> nat" where
  "s_len s = length (s_entries s)"

definition s_trim :: "nat \<Rightarrow> stream \<Rightarrow> stream" where
  "s_trim n s = (if n < length (s_entries s) then s\<lparr>s_entries := drop (length (s_entries s) - n) (s_entries s)\<rparr> else s)"

subsection \<open>Streams by name\<close>

type_synonym streams = "(string \<times> stream) list"

definition new_streams :: streams where
  "new_streams = []"

definition streams_append :: "string \<Rightarrow> (string \<times> string) list \<Rightarrow> streams \<Rightarrow> string \<times> streams" where
  "streams_append k fs m =
     (case s_append fs (case map_of m k of None \<Rightarrow> new_stream | Some s \<Rightarrow> s) of (i, s) \<Rightarrow> (i, AList.update k s m))"

definition streams_range :: "string \<Rightarrow> string \<Rightarrow> string \<Rightarrow> streams \<Rightarrow> stream_entry list" where
  "streams_range k a b m = (case map_of m k of Some s \<Rightarrow> s_range a b s | None \<Rightarrow> [])"

definition streams_last_n :: "string \<Rightarrow> nat \<Rightarrow> streams \<Rightarrow> stream_entry list" where
  "streams_last_n k n m = (case map_of m k of Some s \<Rightarrow> s_last_n n s | None \<Rightarrow> [])"

definition streams_len :: "string \<Rightarrow> streams \<Rightarrow> nat" where
  "streams_len k m = (case map_of m k of Some s \<Rightarrow> s_len s | None \<Rightarrow> 0)"

definition streams_trim :: "string \<Rightarrow> nat \<Rightarrow> streams \<Rightarrow> streams" where
  "streams_trim k n m = (case map_of m k of Some s \<Rightarrow> AList.update k (s_trim n s) m | None \<Rightarrow> m)"

definition list_streams :: "streams \<Rightarrow> string list" where
  "list_streams m = map fst m"

subsection \<open>Specification vocabulary\<close>

datatype stream_op = Append string "(string \<times> string) list" | Trim string nat

fun stream_step :: "stream_op \<Rightarrow> streams \<Rightarrow> streams" where
  "stream_step (Append k fs) m = snd (streams_append k fs m)"
| "stream_step (Trim k n) m = streams_trim k n m"

text \<open>All that was ever appended to a stream, numbered, and how much of it is kept.\<close>

fun appended :: "string \<Rightarrow> stream_op list \<Rightarrow> (string \<times> string) list list" where
  "appended k [] = []"
| "appended k (Append k' fs # ps) = (if k' = k then [fs] else []) @ appended k ps"
| "appended k (Trim k' n # ps) = appended k ps"

fun kept :: "string \<Rightarrow> stream_op list \<Rightarrow> nat \<Rightarrow> nat" where
  "kept k [] l = l"
| "kept k (Append k' fs # ps) l = kept k ps (if k' = k then l + 1 else l)"
| "kept k (Trim k' n # ps) l = kept k ps (if k' = k then min l n else l)"

definition numbered :: "(string \<times> string) list list \<Rightarrow> stream_entry list" where
  "numbered fss = map2 (\<lambda>n fs. \<lparr>se_id = dec_of_nat n @ ''-0'', se_fields = fs\<rparr>) [1 ..< Suc (length fss)] fss"

section \<open>Lemmas\<close>

text \<open>Decimal numbers with the same number of digits are in order exactly if their texts are.\<close>

lemma bytes_append: "bytes_of_string (a @ b) = bytes_of_string a @ bytes_of_string b"
  by (simp add: bytes_of_string_def)

lemma lex_append_same_length:
  fixes a b x y :: "u8 list"
  assumes "length a = length b"
  shows "a @ x < b @ y \<longleftrightarrow> a < b \<or> a = b \<and> x < y"
  using assms by (induction a b rule: list_induct2) auto

lemma less_div_mod: "m < n \<longleftrightarrow> m div 10 < n div 10 \<or> m div 10 = n div 10 \<and> m mod 10 < n mod (10 :: nat)"
proof -
  have *: "a * 10 + r < b * 10 + q \<longleftrightarrow> a < b \<or> a = b \<and> r < q" if "r < 10" "q < 10" for a b r q :: nat
    using that by linarith
  show ?thesis using * [of "m mod 10" "n mod 10" "m div 10" "n div 10"] by simp
qed

lemma digit_less: "d < 10 \<Longrightarrow> e < 10 \<Longrightarrow> byte_of_char (digit_char d) < byte_of_char (digit_char e) \<longleftrightarrow> d < e"
  using unat_of_nat_byte [of "48 + d"] unat_of_nat_byte [of "48 + e"]
  by (simp add: byte_of_char_def digit_char_def word_less_nat_alt del: of_nat_add)

lemma dec_step: "10 \<le> n \<Longrightarrow> dec_of_nat n = dec_of_nat (n div 10) @ [digit_char (n mod 10)]"
  by (subst dec_of_nat.simps) simp

lemma dec_small: "n < 10 \<Longrightarrow> dec_of_nat n = [digit_char n]"
  by (subst dec_of_nat.simps) simp

lemma dec_less:
  "length (dec_of_nat m) = length (dec_of_nat n) \<Longrightarrow>
   bytes_of_string (dec_of_nat m) < bytes_of_string (dec_of_nat n) \<longleftrightarrow> m < n"
proof (induction m arbitrary: n rule: dec_of_nat.induct)
  case (1 m)
  show ?case
  proof (cases "m < 10")
    case True
    then have "n < 10" using 1(2) dec_step [of n] dec_of_nat_nonempty [of "n div 10"]
      by (cases "n < 10") (simp_all add: dec_small)
    with True show ?thesis by (simp add: dec_small bytes_of_string_def digit_less)
  next
    case False
    then have n: "10 \<le> n" using 1(2) dec_step [of m] dec_of_nat_nonempty [of "m div 10"]
      by (cases "n < 10") (simp_all add: dec_small)
    have len: "length (dec_of_nat (m div 10)) = length (dec_of_nat (n div 10))" using 1(2) False n by (simp add: dec_step)
    have eq: "bytes_of_string (dec_of_nat (m div 10)) = bytes_of_string (dec_of_nat (n div 10)) \<longleftrightarrow> m div 10 = n div 10"
      by (metis dec_value_dec_of_nat string_of_bytes_of_string)
    have "bytes_of_string (dec_of_nat m) < bytes_of_string (dec_of_nat n) \<longleftrightarrow>
        m div 10 < n div 10 \<or> m div 10 = n div 10 \<and> m mod 10 < n mod 10"
      using 1(1) [OF False len] len eq False n
      by (simp add: dec_step bytes_append lex_append_same_length) (simp add: bytes_of_string_def digit_less)
    also have "\<dots> \<longleftrightarrow> m < n" by (rule less_div_mod [symmetric])
    finally show ?thesis .
  qed
qed

lemma id_le:
  assumes "length (dec_of_nat m) = length (dec_of_nat n)"
  shows "str_le (dec_of_nat m @ ''-0'') (dec_of_nat n @ ''-0'') \<longleftrightarrow> m \<le> n"
proof -
  have "str_le (dec_of_nat m @ ''-0'') (dec_of_nat n @ ''-0'') \<longleftrightarrow> \<not> bytes_of_string (dec_of_nat n) < bytes_of_string (dec_of_nat m)"
    using assms by (simp add: str_le_def bytes_append lex_append_same_length flip: not_less)
  then show ?thesis using dec_less [of n m] assms by auto
qed

subsection \<open>The window of a stream\<close>

definition window_ok :: "string \<Rightarrow> (string \<times> string) list list \<Rightarrow> nat \<Rightarrow> streams \<Rightarrow> bool" where
  "window_ok k fss l m =
     (case map_of m k of
        None \<Rightarrow> fss = [] \<and> l = 0
      | Some s \<Rightarrow> l \<le> length fss \<and> s_next s = of_nat (length fss + 1) \<and>
          s_entries s = drop (length fss - l) (numbered fss))"

lemma numbered_snoc: "numbered (fss @ [fs]) = numbered fss @ [\<lparr>se_id = dec_of_nat (length fss + 1) @ ''-0'', se_fields = fs\<rparr>]"
  using upt_Suc_append [of 1 "Suc (length fss)"] by (simp add: numbered_def del: upt_Suc)

lemma length_numbered [simp]: "length (numbered fss) = length fss"
  by (simp add: numbered_def del: upt_Suc)

lemma window_append:
  assumes "window_ok k fss l m" "length fss + 1 < 2 ^ 64"
  shows "window_ok k (fss @ [fs]) (l + 1) (snd (streams_append k fs m))"
proof -
  have n: "unat (of_nat (length fss + 1) :: u64) = length fss + 1" using assms(2) by (simp add: unat_of_nat del: of_nat_add of_nat_Suc)
  show ?thesis
  proof (cases "map_of m k")
    case None
    with assms(1) have "fss = []" "l = 0" by (simp_all add: window_ok_def)
    with None show ?thesis
      by (simp add: window_ok_def streams_append_def s_append_def new_stream_def entry_id_def Let_def numbered_def update_conv')
  next
    case (Some s)
    with assms(1) have "l \<le> length fss" "s_next s = of_nat (length fss + 1)" "s_entries s = drop (length fss - l) (numbered fss)"
      by (simp_all add: window_ok_def)
    with Some n show ?thesis
      by (simp add: window_ok_def streams_append_def s_append_def entry_id_def Let_def numbered_snoc update_conv' del: of_nat_add of_nat_Suc)
        (simp add: algebra_simps)
  qed
qed

lemma window_trim:
  assumes "window_ok k fss l m" shows "window_ok k fss (min l n) (streams_trim k n m)"
  using assms
  by (auto simp: window_ok_def streams_trim_def s_trim_def update_conv' min_def split: option.splits)

lemma window_other:
  "k' \<noteq> k \<Longrightarrow> window_ok k fss l m \<Longrightarrow> window_ok k fss l (snd (streams_append k' fs m)) \<and> window_ok k fss l (streams_trim k' n m)"
  by (auto simp: window_ok_def streams_append_def s_append_def streams_trim_def update_conv' Let_def split: option.splits)

lemma window_run:
  "window_ok k fss l m \<Longrightarrow> length fss + length ps < 2 ^ 64 - 1 \<Longrightarrow>
   window_ok k (fss @ appended k ps) (kept k ps l) (fold stream_step ps m)"
proof (induction ps arbitrary: fss l m)
  case (Cons p ps)
  show ?case
  proof (cases p)
    case (Append k' fs)
    then show ?thesis
      using Cons.IH [of "fss @ [fs]" "l + 1" "snd (streams_append k' fs m)"] Cons.IH [of fss l "snd (streams_append k' fs m)"]
        window_append [OF Cons.prems(1), of fs] window_other [OF _ Cons.prems(1), of k' fs] Cons.prems(2)
      by auto
  next
    case (Trim k' n)
    then show ?thesis
      using Cons.IH [of fss "min l n" "streams_trim k' n m"] Cons.IH [of fss l "streams_trim k' n m"]
        window_trim [OF Cons.prems(1), of n] window_other [OF _ Cons.prems(1), of k' _ n] Cons.prems(2)
      by (auto simp: min.commute)
  qed
qed simp

section \<open>Properties\<close>

text \<open>
  C30. A stream is a window on all that was appended to it. After any appends and trims on any streams, a stream holds the most recent
  entries appended to it, in order and numbered consecutively from the first append on; as many as the trims since
  have left, and the last \<open>n\<close> of them are what \<^verbatim>\<open>last_n\<close> returns.
\<close>

theorem stream_window:
  assumes "length ps < 2 ^ 63"
  shows "streams_len k (fold stream_step ps new_streams) = kept k ps 0 \<and>
    streams_last_n k n (fold stream_step ps new_streams) =
      drop (length (appended k ps) - min n (kept k ps 0)) (numbered (appended k ps))"
proof -
  have "window_ok k (appended k ps) (kept k ps 0) (fold stream_step ps new_streams)"
    using window_run [of k "[]" 0 new_streams ps] assms by (simp add: window_ok_def new_streams_def)
  then show ?thesis
    by (auto simp: window_ok_def streams_len_def s_len_def streams_last_n_def s_last_n_def numbered_def min_def split: option.splits)
qed

theorem stream_window_witness:
  "streams_len ''a'' (fold stream_step [Append ''a'' [], Append ''b'' [], Append ''a'' [(''x'', ''1'')], Append ''a'' [], Trim ''a'' 2] new_streams) = 2"
  using stream_window [of "[Append ''a'' [], Append ''b'' [], Append ''a'' [(''x'', ''1'')], Append ''a'' [], Trim ''a'' 2]" "''a''" 0] by simp

text \<open>
  Ranges compare texts. Among entries whose numbers have as many decimal digits as both ends of a range, the range returns exactly the
  ones between its ends; but ids are compared as strings, and the range from the second to the tenth entry is empty.
\<close>

theorem stream_range_exact:
  assumes "s_entries s = numbered fss" "length (dec_of_nat a) = d" "length (dec_of_nat b) = d"
  shows "filter (\<lambda>e. length (se_id e) = d + 2) (s_range (dec_of_nat a @ ''-0'') (dec_of_nat b @ ''-0'') s) =
      map (\<lambda>n. \<lparr>se_id = dec_of_nat n @ ''-0'', se_fields = fss ! (n - 1)\<rparr>)
        (filter (\<lambda>n. length (dec_of_nat n) = d \<and> a \<le> n \<and> n \<le> b) [1 ..< Suc (length fss)]) \<and>
    s_range ''2-0'' ''10-0'' s = []"
proof
  let ?e = "\<lambda>n. \<lparr>se_id = dec_of_nat n @ ''-0'', se_fields = fss ! (n - 1)\<rparr>"
  have num: "numbered fss = map ?e [1 ..< Suc (length fss)]"
    by (rule nth_equalityI) (simp_all add: numbered_def del: upt_Suc)
  have "filter (\<lambda>e. length (se_id e) = d + 2) (s_range (dec_of_nat a @ ''-0'') (dec_of_nat b @ ''-0'') s) =
      map ?e (filter (\<lambda>n. length (dec_of_nat n) = d \<and> str_le (dec_of_nat a @ ''-0'') (dec_of_nat n @ ''-0'') \<and>
        str_le (dec_of_nat n @ ''-0'') (dec_of_nat b @ ''-0'')) [1 ..< Suc (length fss)])"
    by (simp add: s_range_def assms(1) num filter_map comp_def conj_ac del: upt_Suc)
  also have "\<dots> = map ?e (filter (\<lambda>n. length (dec_of_nat n) = d \<and> a \<le> n \<and> n \<le> b) [1 ..< Suc (length fss)])"
    using assms(2,3) by (intro arg_cong [where f = "map ?e"] filter_cong) (auto simp: id_le simp del: upt_Suc)
  finally show "filter (\<lambda>e. length (se_id e) = d + 2) (s_range (dec_of_nat a @ ''-0'') (dec_of_nat b @ ''-0'') s) = \<dots>" .
  have "\<not> str_le ''2-0'' ''10-0''" by (simp add: str_le_def bytes_of_string_def byte_of_char_def)
  then have "\<not> (str_le ''2-0'' x \<and> str_le x ''10-0'')" for x by (meson order_trans str_le_def)
  then show "s_range ''2-0'' ''10-0'' s = []" by (simp add: s_range_def)
qed

theorem stream_range_exact_witness:
  "let s = \<lparr>s_entries = numbered (replicate 12 []), s_next = 13\<rparr> in
   map se_id (filter (\<lambda>e. length (se_id e) = 3) (s_range ''3-0'' ''5-0'' s)) = [''3-0'', ''4-0'', ''5-0''] \<and> s_range ''2-0'' ''10-0'' s = []"
proof -
  have d: "dec_of_nat 3 = ''3''" "dec_of_nat 4 = ''4''" "dec_of_nat 5 = ''5''" by code_simp+
  have f: "filter (\<lambda>n. length (dec_of_nat n) = 1 \<and> 3 \<le> n \<and> n \<le> 5) [1 ..< Suc 12] = [3, 4, 5]" by code_simp
  show ?thesis
    using stream_range_exact [of "\<lparr>s_entries = numbered (replicate 12 []), s_next = 13\<rparr>" "replicate 12 []" 3 1 5] d f
    by (simp add: numeral_3_eq_3 del: upt_Suc)
qed

end
