(* ===== verification/Server_PubSub.thy ===== *)
theory Server_PubSub
  imports Rust_Prims
begin

section \<open>Publish and subscribe\<close>

text \<open>
  \<^verbatim>\<open>redisdb/src/pubsub.rs\<close>: named channels over the broadcast channel of the runtime, which is not part of the repository and so an
  argument: a record of its operations, with its documented behaviour as the hypothesis \<open>broadcast_ok\<close>. Operations under
  the lock of the map are one step.
\<close>

record ('c, 'r) broadcast =
  bc_channel :: "nat \<Rightarrow> 'c run"
  bc_subscribe :: "'c \<Rightarrow> 'r \<times> 'c"
  bc_send :: "string \<Rightarrow> 'c \<Rightarrow> 'c"
  bc_receiver_count :: "'c \<Rightarrow> nat"

record 'c pubsub =
  channels :: "(string \<times> 'c) list"
  max_subscribers :: nat

definition with_capacity :: "nat \<Rightarrow> 'c pubsub" where
  "with_capacity n = \<lparr>channels = [], max_subscribers = n\<rparr>"

definition new_pubsub :: "'c pubsub" where
  "new_pubsub = with_capacity 1024"

definition subscribe :: "('c, 'r) broadcast \<Rightarrow> string \<Rightarrow> 'c pubsub \<Rightarrow> 'r run \<times> 'c pubsub" where
  "subscribe bc k ps =
     (case (case map_of (channels ps) k of Some c \<Rightarrow> Inr c | None \<Rightarrow> bc_channel bc (max_subscribers ps)) of
        Inl p \<Rightarrow> (Inl p, ps)
      | Inr c \<Rightarrow> (case bc_subscribe bc c of (r, c') \<Rightarrow> (Inr r, ps\<lparr>channels := AList.update k c' (channels ps)\<rparr>)))"

definition publish :: "('c, 'r) broadcast \<Rightarrow> string \<Rightarrow> string \<Rightarrow> 'c pubsub \<Rightarrow> nat \<times> 'c pubsub" where
  "publish bc k msg ps =
     (case map_of (channels ps) k of
        None \<Rightarrow> (0, ps)
      | Some c \<Rightarrow>
          let c' = bc_send bc msg c in (bc_receiver_count bc c', ps\<lparr>channels := AList.update k c' (channels ps)\<rparr>))"

definition unsubscribe :: "string \<Rightarrow> 'c pubsub \<Rightarrow> 'c pubsub" where
  "unsubscribe k ps = ps\<lparr>channels := AList.delete k (channels ps)\<rparr>"

definition channel_count :: "'c pubsub \<Rightarrow> nat" where
  "channel_count ps = length (channels ps)"

definition subscriber_count :: "('c, 'r) broadcast \<Rightarrow> string \<Rightarrow> 'c pubsub \<Rightarrow> nat" where
  "subscriber_count bc k ps = (case map_of (channels ps) k of None \<Rightarrow> 0 | Some c \<Rightarrow> bc_receiver_count bc c)"

subsection \<open>Specification vocabulary\<close>

text \<open>
  What the documentation of \<^verbatim>\<open>tokio::sync::broadcast\<close> promises: \<open>queue r c\<close> is what receiver \<open>r\<close> of the channel has not yet read, a
  new receiver begins with nothing, and a message goes to the end of the queue of every receiver that has
  room for it; \<open>cap c\<close> is the capacity.
\<close>

definition broadcast_ok :: "('c, 'r) broadcast \<Rightarrow> ('r \<Rightarrow> 'c \<Rightarrow> string list option) \<Rightarrow> ('c \<Rightarrow> nat) \<Rightarrow> bool" where
  "broadcast_ok bc queue cap =
     ((\<forall>n c. bc_channel bc n = Inr c \<longrightarrow> bc_receiver_count bc c = 0 \<and> n \<le> cap c) \<and>
      (\<forall>c r c'. bc_subscribe bc c = (r, c') \<longrightarrow> bc_receiver_count bc c' = bc_receiver_count bc c + 1 \<and> cap c' = cap c \<and>
         queue r c' = Some [] \<and> (\<forall>r' q. queue r' c = Some q \<longrightarrow> queue r' c' = Some q)) \<and>
      (\<forall>c msg. bc_receiver_count bc (bc_send bc msg c) = bc_receiver_count bc c \<and> cap (bc_send bc msg c) = cap c \<and>
         (\<forall>r q. queue r c = Some q \<longrightarrow> length q < cap c \<longrightarrow> queue r (bc_send bc msg c) = Some (q @ [msg]))))"

datatype pubsub_op = Subscribe string | Publish string string | Unsubscribe string

fun pubsub_step :: "('c, 'r) broadcast \<Rightarrow> pubsub_op \<Rightarrow> 'c pubsub \<Rightarrow> 'c pubsub" where
  "pubsub_step bc (Subscribe k) ps = snd (subscribe bc k ps)"
| "pubsub_step bc (Publish k msg) ps = snd (publish bc k msg ps)"
| "pubsub_step bc (Unsubscribe k) ps = unsubscribe k ps"

fun published :: "string \<Rightarrow> pubsub_op \<Rightarrow> string list" where
  "published k (Publish k' msg) = (if k' = k then [msg] else [])"
| "published k p = []"

definition subscriptions :: "string \<Rightarrow> pubsub_op list \<Rightarrow> nat" where
  "subscriptions k ps = length (filter (\<lambda>p. p = Subscribe k) ps)"

section \<open>Lemmas\<close>

definition follows :: "('r \<Rightarrow> 'c \<Rightarrow> string list option) \<Rightarrow> ('c \<Rightarrow> nat) \<Rightarrow> nat \<Rightarrow> 'r \<Rightarrow> string \<Rightarrow> string list \<Rightarrow>
  ('c, 'r) broadcast \<Rightarrow> nat \<Rightarrow> 'c pubsub \<Rightarrow> bool" where
  "follows queue cap room r k msgs bc n ps =
     (\<exists>c. map_of (channels ps) k = Some c \<and> queue r c = Some msgs \<and> room \<le> cap c \<and> bc_receiver_count bc c = n)"

lemma follows_step:
  assumes "broadcast_ok bc queue cap" "follows queue cap room r k msgs bc n ps" "p \<noteq> Unsubscribe k" "length (msgs @ published k p) \<le> room"
  shows "follows queue cap room r k (msgs @ published k p) bc (n + subscriptions k [p]) (pubsub_step bc p ps)"
proof -
  obtain c where c: "map_of (channels ps) k = Some c" "queue r c = Some msgs" "room \<le> cap c" "bc_receiver_count bc c = n"
    using assms(2) by (auto simp: follows_def)
  show ?thesis
  proof (cases p)
    case (Subscribe k')
    then show ?thesis
      using assms(1) c
      by (auto simp: follows_def subscribe_def subscriptions_def update_conv' broadcast_ok_def split: option.splits sum.splits prod.splits)
  next
    case (Publish k' msg)
    then show ?thesis
      using assms(1,4) c
      by (auto simp: follows_def publish_def subscriptions_def update_conv' broadcast_ok_def Let_def split: option.splits)
  next
    case (Unsubscribe k')
    then show ?thesis
      using assms(3) c by (auto simp: follows_def unsubscribe_def subscriptions_def delete_conv')
  qed
qed

lemma subscriptions_Cons: "subscriptions k (p # ops) = subscriptions k [p] + subscriptions k ops"
  by (simp add: subscriptions_def)

lemma follows_run:
  assumes "broadcast_ok bc queue cap"
  shows "follows queue cap room r k msgs bc n ps \<Longrightarrow> Unsubscribe k \<notin> set ops \<Longrightarrow> length (msgs @ concat (map (published k) ops)) \<le> room \<Longrightarrow>
    follows queue cap room r k (msgs @ concat (map (published k) ops)) bc (n + subscriptions k ops) (fold (pubsub_step bc) ops ps)"
proof (induction ops arbitrary: msgs n ps)
  case (Cons p ops)
  have "follows queue cap room r k (msgs @ published k p) bc (n + subscriptions k [p]) (pubsub_step bc p ps)"
    using Cons.prems(2,3) by (intro follows_step [OF assms Cons.prems(1)]) auto
  from Cons.IH [OF this] Cons.prems(2,3) show ?case
    by (simp add: subscriptions_Cons [of k p ops] add.assoc del: published.simps pubsub_step.simps)
qed (simp add: subscriptions_def)

section \<open>Properties\<close>

text \<open>
  A subscriber gets what is published. After a subscription to a channel, as long as nobody removes the channel, no receiver is dropped and no more
  messages come than it has room for, the subscriber has waiting exactly the messages published to this channel since, in
  order, and a further message reaches it and is reported with the number of subscribers of the channel. One call
  of \<^verbatim>\<open>unsubscribe\<close>, by anybody, cuts off all of them: what is published then is counted as received by no one.
\<close>

theorem pubsub_delivers:
  assumes "broadcast_ok bc queue cap" "subscribe bc k ps = (Inr r, ps1)" "Unsubscribe k \<notin> set ops"
    and "\<And>c. map_of (channels ps1) k = Some c \<Longrightarrow> length (concat (map (published k) ops)) < cap c"
  shows "let ps2 = fold (pubsub_step bc) ops ps1 in
    (\<exists>c. map_of (channels ps2) k = Some c \<and> queue r c = Some (concat (map (published k) ops))) \<and>
    fst (publish bc k msg ps2) = subscriber_count bc k ps1 + subscriptions k ops \<and>
    (\<exists>c. map_of (channels (snd (publish bc k msg ps2))) k = Some c \<and> queue r c = Some (concat (map (published k) ops) @ [msg])) \<and>
    fst (publish bc k msg (unsubscribe k ps2)) = 0"
proof -
  let ?room = "length (concat (map (published k) ops)) + 1" and ?ps2 = "fold (pubsub_step bc) ops ps1"
  obtain c1 where c1: "map_of (channels ps1) k = Some c1" "queue r c1 = Some []"
    using assms(1,2) by (auto simp: subscribe_def update_conv' broadcast_ok_def split: option.splits sum.splits prod.splits)
  then have "follows queue cap ?room r k [] bc (subscriber_count bc k ps1) ps1"
    using assms(4) by (auto simp: follows_def subscriber_count_def)
  from follows_run [OF assms(1) this assms(3)]
  have f: "follows queue cap ?room r k (concat (map (published k) ops)) bc (subscriber_count bc k ps1 + subscriptions k ops) ?ps2" by simp
  have g: "follows queue cap ?room r k (concat (map (published k) ops) @ [msg]) bc (subscriber_count bc k ps1 + subscriptions k ops)
      (snd (publish bc k msg ?ps2))"
    using follows_step [OF assms(1) f, of "Publish k msg"] by (simp add: subscriptions_def)
  have "fst (publish bc k msg ?ps2) = subscriber_count bc k ps1 + subscriptions k ops"
    using f assms(1) by (auto simp: follows_def publish_def Let_def broadcast_ok_def)
  moreover have "fst (publish bc k msg (unsubscribe k ?ps2)) = 0" by (simp add: publish_def unsubscribe_def delete_conv')
  ultimately show ?thesis using f g by (auto simp: follows_def Let_def)
qed

text \<open>A broadcast channel with a queue for every receiver.\<close>

definition queues :: "(nat \<times> string list list, nat) broadcast" where
  "queues = \<lparr>bc_channel = (\<lambda>n. if n = 0 then Inl Overflow else Inr (n, [])),
     bc_subscribe = (\<lambda>(n, qs). (length qs, (n, qs @ [[]]))),
     bc_send = (\<lambda>msg (n, qs). (n, map (\<lambda>q. q @ [msg]) qs)),
     bc_receiver_count = (\<lambda>(n, qs). length qs)\<rparr>"

lemma queues_ok: "broadcast_ok queues (\<lambda>r (n, qs). if r < length qs then Some (qs ! r) else None) fst"
  by (auto simp: broadcast_ok_def queues_def nth_append split: if_splits)

theorem pubsub_delivers_witness:
  "let ps1 = snd (subscribe queues ''news'' new_pubsub); ps2 = fold (pubsub_step queues) [Publish ''news'' ''a'', Subscribe ''news'', Publish ''x'' ''b''] ps1 in
   fst (publish queues ''news'' ''c'' ps2) = 2 \<and> fst (publish queues ''news'' ''c'' (unsubscribe ''news'' ps2)) = 0"
proof -
  have s: "subscribe queues ''news'' new_pubsub = (Inr 0, \<lparr>channels = [(''news'', (1024, [[]]))], max_subscribers = 1024\<rparr>)"
    by (simp add: subscribe_def new_pubsub_def with_capacity_def queues_def)
  show ?thesis
    using pubsub_delivers [OF queues_ok s, of "[Publish ''news'' ''a'', Subscribe ''news'', Publish ''x'' ''b'']" "''c''"]
    by (simp add: s Let_def subscriber_count_def subscriptions_def) (simp add: queues_def)
qed

end
