(* ===== verification/Http_Text.thy ===== *)
theory Http_Text
  imports Containers
begin

section \<open>Reading HTTP answers\<close>

text \<open>
  What a client does with an answer: the status line, the header lines up to the empty one, and as many bytes of body
  as the header says. It is the specification that the pages of the worker's metrics server and of the server's HTTP interface
  are measured with; nothing here models code.
\<close>

fun split_line :: "string \<Rightarrow> (string \<times> string) option" where
  "split_line (c # d # cs) =
     (if c = CHR 0x0D \<and> d = CHR 0x0A then Some ([], cs) else map_option (apfst (Cons c)) (split_line (d # cs)))"
| "split_line _ = None"

lemma split_line_shorter: "split_line s = Some (l, rest) \<Longrightarrow> length rest < length s"
  by (induction s arbitrary: l rule: split_line.induct) (auto split: if_splits)

function head_lines :: "string \<Rightarrow> (string list \<times> string) option" where
  "head_lines s =
     (case split_line s of
        None \<Rightarrow> None
      | Some (l, rest) \<Rightarrow> if l = [] then Some ([], rest) else map_option (apfst (Cons l)) (head_lines rest))"
  by auto
termination by (relation "measure length") (auto dest: split_line_shorter)

declare head_lines.simps [simp del]

fun header :: "string \<Rightarrow> string list \<Rightarrow> string option" where
  "header nm [] = None"
| "header nm (l # ls) = (if take (length nm) l = nm then Some (drop (length nm) l) else header nm ls)"

definition read_page :: "string \<Rightarrow> (nat \<times> string \<times> string) option" where
  "read_page s =
     (case head_lines s of
        Some (l # ls, rest) \<Rightarrow>
          (case (header ''HTTP/1.1 '' [l], header ''Content-Type: '' ls, header ''Content-Length: '' ls) of
             (Some st, Some kind, Some n) \<Rightarrow>
               if n \<noteq> [] \<and> list_all is_digit n \<and> length rest = dec_value n
               then Some (dec_value (takeWhile is_digit st), kind, rest) else None
           | _ \<Rightarrow> None)
      | _ \<Rightarrow> None)"

section \<open>Lemmas\<close>

definition one_line :: "string \<Rightarrow> bool" where
  "one_line l = (l \<noteq> [] \<and> CHR 0x0D \<notin> set l)"

lemma split_line_line: "CHR 0x0D \<notin> set l \<Longrightarrow> split_line (l @ CHR 0x0D # CHR 0x0A # rest) = Some (l, rest)"
proof (induction l)
  case (Cons c l)
  then show ?case by (cases l) auto
qed simp

lemma head_lines_lines:
  "\<forall>l \<in> set ls. one_line l \<Longrightarrow>
   head_lines (concat (map (\<lambda>l. l @ [CHR 0x0D, CHR 0x0A]) ls) @ CHR 0x0D # CHR 0x0A # rest) = Some (ls, rest)"
proof (induction ls)
  case Nil
  then show ?case by (subst head_lines.simps) simp
next
  case (Cons l ls)
  then show ?case
    by (subst head_lines.simps) (simp add: split_line_line one_line_def)
qed

text \<open>The form of every answer the two servers send.\<close>

lemma read_page_page:
  assumes "CHR 0x0D \<notin> set kind" "CHR 0x0D \<notin> set st"
  shows "read_page (''HTTP/1.1 '' @ dec_of_nat code @ '' '' @ st @ [CHR 0x0D, CHR 0x0A] @ ''Content-Type: '' @ kind @
      [CHR 0x0D, CHR 0x0A] @ ''Content-Length: '' @ dec_of_nat (length body) @ [CHR 0x0D, CHR 0x0A] @ ''Connection: close'' @
      [CHR 0x0D, CHR 0x0A] @ [CHR 0x0D, CHR 0x0A] @ body) = Some (code, kind, body)"
proof -
  have d: "CHR 0x0D \<notin> set (dec_of_nat n)" for n
    using dec_of_nat_digits [of n] by (auto simp: is_digit_def)
  have t: "takeWhile is_digit (dec_of_nat code @ CHR '' '' # st) = dec_of_nat code"
    using takeWhile_digits_append [of "CHR '' '' # st" "dec_of_nat code"] dec_of_nat_digits [of code] by (simp add: is_digit_def)
  have a: "list_all is_digit (dec_of_nat n)" for n using dec_of_nat_digits [of n] by (simp add: list_all_iff)
  have "head_lines (concat (map (\<lambda>l. l @ [CHR 0x0D, CHR 0x0A]) [''HTTP/1.1 '' @ dec_of_nat code @ '' '' @ st, ''Content-Type: '' @ kind,
      ''Content-Length: '' @ dec_of_nat (length body), ''Connection: close'']) @ CHR 0x0D # CHR 0x0A # body) =
    Some ([''HTTP/1.1 '' @ dec_of_nat code @ '' '' @ st, ''Content-Type: '' @ kind,
      ''Content-Length: '' @ dec_of_nat (length body), ''Connection: close''], body)"
    by (rule head_lines_lines) (use assms d in \<open>auto simp: one_line_def\<close>)
  then show ?thesis by (simp add: read_page_def t a str_simps)
qed

end
