(* ===== verification/Server_Http.thy ===== *)
theory Server_Http
  imports Server_Accept Server_Streams Server_PubSub Http_Text Metrics
begin

section \<open>The HTTP pages and the plugins of the server\<close>

text \<open>
  \<^verbatim>\<open>redisdb/src/http.rs\<close>: the answer to a request, composed of the statistics, the channels and the streams; reading the request from
  the socket is its text. \<^verbatim>\<open>redisdb/src/plugins.rs\<close>: named handlers and the built-in ones, which are registered by four tasks in
  any order.
\<close>

subsection \<open>Responses\<close>

definition CRLF :: string where "CRLF = [CHR 0x0D, CHR 0x0A]"

definition status_text :: "nat \<Rightarrow> string" where
  "status_text code = (if code = 200 then ''OK'' else if code = 400 then ''Bad Request'' else if code = 404 then ''Not Found''
     else ''Internal Server Error'')"

definition page_text :: "nat \<Rightarrow> string \<Rightarrow> string \<Rightarrow> string \<Rightarrow> string" where
  "page_text code status kind body =
     ''HTTP/1.1 '' @ dec_of_nat code @ '' '' @ status @ CRLF @ ''Content-Type: '' @ kind @ CRLF @
     ''Content-Length: '' @ dec_of_nat (length body) @ CRLF @ ''Connection: close'' @ CRLF @ CRLF @ body"

definition http_response :: "nat \<Rightarrow> string \<Rightarrow> string" where
  "http_response code body = page_text code (status_text code) ''text/plain'' body"

definition http_json :: "nat \<Rightarrow> string \<Rightarrow> string" where
  "http_json code body = page_text code (if code = 200 then ''OK'' else ''Not Found'') ''application/json'' body"

subsection \<open>Requests\<close>

text \<open>
  \<^verbatim>\<open>lines().next()\<close> and \<^verbatim>\<open>split_whitespace\<close>. The white space of Unicode, as the UTF-8 text begins with it: how many bytes it takes there. The
  bytes it begins with begin a character wherever they occur, so the text may be searched byte by byte.
\<close>

definition white_space :: "string list" where
  "white_space =
     [[CHR 0xC2, CHR 0x85], [CHR 0xC2, CHR 0xA0], [CHR 0xE1, CHR 0x9A, CHR 0x80],
      [CHR 0xE2, CHR 0x80, CHR 0x80], [CHR 0xE2, CHR 0x80, CHR 0x81], [CHR 0xE2, CHR 0x80, CHR 0x82], [CHR 0xE2, CHR 0x80, CHR 0x83],
      [CHR 0xE2, CHR 0x80, CHR 0x84], [CHR 0xE2, CHR 0x80, CHR 0x85], [CHR 0xE2, CHR 0x80, CHR 0x86], [CHR 0xE2, CHR 0x80, CHR 0x87],
      [CHR 0xE2, CHR 0x80, CHR 0x88], [CHR 0xE2, CHR 0x80, CHR 0x89], [CHR 0xE2, CHR 0x80, CHR 0x8A], [CHR 0xE2, CHR 0x80, CHR 0xA8],
      [CHR 0xE2, CHR 0x80, CHR 0xA9], [CHR 0xE2, CHR 0x80, CHR 0xAF], [CHR 0xE2, CHR 0x81, CHR 0x9F], [CHR 0xE3, CHR 0x80, CHR 0x80]]"

definition space_len :: "string \<Rightarrow> nat" where
  "space_len s =
     (case s of [] \<Rightarrow> 0
      | c # cs \<Rightarrow> if isspace c then 1 else (case find (\<lambda>w. take (length w) s = w) white_space of Some w \<Rightarrow> length w | None \<Rightarrow> 0))"

definition first_line :: "string \<Rightarrow> string" where
  "first_line req =
     (let l = takeWhile (\<lambda>c. c \<noteq> CHR 0x0A) req in
      if length l < length req \<and> l \<noteq> [] \<and> last l = CHR 0x0D then butlast l else l)"

function words_acc :: "string \<Rightarrow> string \<Rightarrow> string list" where
  "words_acc acc [] = (if acc = [] then [] else [acc])"
| "words_acc acc (c # cs) =
     (if 0 < space_len (c # cs)
      then (if acc = [] then [] else [acc]) @ words_acc [] (drop (space_len (c # cs) - 1) cs)
      else words_acc (acc @ [c]) cs)"
  by pat_completeness auto
termination by (relation "measure (\<lambda>(acc, s). length s)") auto

definition split_whitespace :: "string \<Rightarrow> string list" where
  "split_whitespace s = words_acc [] s"

definition q :: string where "q = [CHR 0x22]"

definition dec_u64 :: "u64 \<Rightarrow> string" where "dec_u64 n = dec_of_nat (unat n)"
definition dec_i64 :: "i64 \<Rightarrow> string" where "dec_i64 n = dec_of_int (sint n)"

definition status_body :: "stats_snapshot \<Rightarrow> string" where
  "status_body s = ''{'' @ q @ ''connections'' @ q @ '':'' @ dec_i64 (snap_active s) @ '','' @ q @ ''commands'' @ q @ '':'' @
     dec_u64 (snap_commands s) @ '','' @ q @ ''uptime'' @ q @ '':'' @ dec_of_nat (snap_uptime s) @ ''}''"

definition stats_body :: "stats_snapshot \<Rightarrow> string" where
  "stats_body s = ''{'' @ q @ ''total_connections'' @ q @ '':'' @ dec_u64 (snap_total s) @ '','' @ q @ ''active_connections'' @ q @ '':'' @
     dec_i64 (snap_active s) @ '','' @ q @ ''total_commands'' @ q @ '':'' @ dec_u64 (snap_commands s) @ '','' @ q @ ''last_cmds'' @ q @ '':'' @
     dec_of_nat (length (snap_last s)) @ ''}''"

definition nl :: string where "nl = [CHR 0x0A]"

definition metrics_body :: "stats_snapshot \<Rightarrow> string" where
  "metrics_body s = ''# HELP redisops_connections Total connections'' @ nl @ ''# TYPE redisops_connections counter'' @ nl @
     ''redisops_connections '' @ dec_u64 (snap_total s) @ nl @ ''# HELP redisops_commands_total Total commands'' @ nl @
     ''# TYPE redisops_commands_total counter'' @ nl @ ''redisops_commands_total '' @ dec_u64 (snap_commands s) @ nl"

definition streams_body :: "string list \<Rightarrow> string" where
  "streams_body ks = ''['' @ join '','' (map (\<lambda>k. q @ k @ q) ks) @ '']''"

definition handle_request :: "string \<Rightarrow> 'c pubsub \<Rightarrow> streams \<Rightarrow> stats_snapshot \<Rightarrow> string" where
  "handle_request req ps strs s =
     (let parts = split_whitespace (first_line req) in
      if length parts < 2 then http_response 400 ''Bad Request''
      else
        let path = parts ! 1 in
        if path = ''/health'' then http_response 200 ''ok''
        else if path = ''/status'' then http_json 200 (status_body s)
        else if path = ''/stats'' then http_json 200 (stats_body s)
        else if path = ''/pubsub/channels'' then http_json 200 (''{'' @ q @ ''channels'' @ q @ '':'' @ dec_of_nat (channel_count ps) @ ''}'')
        else if path = ''/streams'' then http_json 200 (streams_body (list_streams strs))
        else if path = ''/metrics'' then http_response 200 (metrics_body s)
        else http_response 404 ''Not Found'')"

text \<open>
  A connection: \<open>received\<close> is the text of the at most 8192 bytes the one \<^verbatim>\<open>read\<close> delivered, empty at its end or after an error, and then
  nothing is sent.
\<close>

definition serve_request :: "string \<Rightarrow> 'c pubsub \<Rightarrow> streams \<Rightarrow> stats_snapshot \<Rightarrow> string option" where
  "serve_request received ps strs s = (if received = [] then None else Some (handle_request received ps strs s))"

subsection \<open>Plugins\<close>

text \<open>A handler may read the clock: its first argument is the time of the call.\<close>

record plugin =
  p_description :: string
  p_handler :: "nat \<Rightarrow> string list \<Rightarrow> string"

type_synonym plugins = "(string \<times> plugin) list"

definition register :: "string \<Rightarrow> string \<Rightarrow> (nat \<Rightarrow> string list \<Rightarrow> string) \<Rightarrow> plugins \<Rightarrow> plugins" where
  "register nm descr f ps = AList.update nm \<lparr>p_description = descr, p_handler = f\<rparr> ps"

definition execute :: "nat \<Rightarrow> string \<Rightarrow> string list \<Rightarrow> plugins \<Rightarrow> string option" where
  "execute nanos nm args ps = map_option (\<lambda>p. p_handler p nanos args) (map_of ps nm)"

definition list_plugins :: "plugins \<Rightarrow> (string \<times> string) list" where
  "list_plugins ps = map (\<lambda>(nm, p). (nm, p_description p)) ps"

definition has_plugin :: "string \<Rightarrow> plugins \<Rightarrow> bool" where
  "has_plugin nm ps = (map_of ps nm \<noteq> None)"

text \<open>The built-in handlers, given the time of the call in nanoseconds since the epoch; \<^verbatim>\<open>{:032x}\<close> fills with zeros up to 32 digits.\<close>

definition echo :: "string list \<Rightarrow> string" where
  "echo args =
     (if args = [] then ''$-1'' @ CRLF
      else let msg = join '' '' args in ''$'' @ dec_of_nat (length msg) @ CRLF @ msg @ CRLF)"

function hex_digits :: "nat \<Rightarrow> nat \<Rightarrow> string" where
  "hex_digits k n =
     (if k = 0 \<and> n = 0 then []
      else hex_digits (k - 1) (n div 16) @ [char_of (if n mod 16 < 10 then 48 + n mod 16 else 87 + n mod 16)])"
  by auto
termination
proof (relation "measure (\<lambda>(k, n). k + n)", goal_cases)
  case (2 k n)
  have "n div 16 < n \<or> n = 0" by auto
  with 2 show ?case by (cases "k = 0") auto
qed simp

declare hex_digits.simps [simp del]

definition time_reply :: "nat \<Rightarrow> string" where
  "time_reply nanos = '':'' @ dec_of_nat (nanos div 1000000000) @ CRLF"

definition uuid_reply :: "nat \<Rightarrow> string" where
  "uuid_reply nanos = ''+'' @ hex_digits 32 nanos @ CRLF"

definition builtins :: "(string \<times> string \<times> (nat \<Rightarrow> string list \<Rightarrow> string)) list" where
  "builtins =
     [(''ping'', ''Simple ping/pong'', \<lambda>_ _. ''+PONG'' @ CRLF),
      (''time'', ''Current server time'', \<lambda>nanos _. time_reply nanos),
      (''echo'', ''Echo back arguments'', \<lambda>_. echo),
      (''uuid'', ''Generate a UUID v4'', \<lambda>nanos _. uuid_reply nanos)]"

text \<open>The four registrations are tasks of their own; \<open>order\<close> is the order in which they get the lock.\<close>

definition register_builtins :: "(string \<times> string \<times> (nat \<Rightarrow> string list \<Rightarrow> string)) list \<Rightarrow> plugins \<Rightarrow> plugins" where
  "register_builtins order ps = fold (\<lambda>(nm, descr, f). register nm descr f) order ps"

subsection \<open>Specification vocabulary\<close>

definition pages :: "'c pubsub \<Rightarrow> streams \<Rightarrow> stats_snapshot \<Rightarrow> (string \<times> string \<times> string) list" where
  "pages ps strs s =
     [(''/health'', ''text/plain'', ''ok''),
      (''/status'', ''application/json'', status_body s),
      (''/stats'', ''application/json'', stats_body s),
      (''/pubsub/channels'', ''application/json'', ''{'' @ q @ ''channels'' @ q @ '':'' @ dec_of_nat (channel_count ps) @ ''}''),
      (''/streams'', ''application/json'', streams_body (list_streams strs)),
      (''/metrics'', ''text/plain'', metrics_body s)]"

definition hex_number :: "string \<Rightarrow> nat" where
  "hex_number ds = foldl (\<lambda>n c. 16 * n + (if of_char c < (58 :: nat) then of_char c - 48 else of_char c - 87)) 0 ds"

section \<open>Lemmas\<close>

lemma read_http_response: "read_page (http_response code body) = Some (code, ''text/plain'', body)"
  unfolding http_response_def page_text_def CRLF_def by (rule read_page_page) (auto simp: status_text_def)

lemma read_http_json: "read_page (http_json code body) = Some (code, ''application/json'', body)"
  unfolding http_json_def page_text_def CRLF_def by (rule read_page_page) auto

lemma read_build_response:
  assumes "0 \<le> code"
  shows "read_page (build_response body code) = Some (nat code, ''text/plain; version=0.0.4; charset=utf-8'', body)"
  using read_page_page [of "''text/plain; version=0.0.4; charset=utf-8''" "if code = 200 then ''OK'' else ''Not Found''" "nat code" body] assms
  by (simp add: build_response_def crlf_def dec_of_int_def)

lemma handle_request_page:
  "read_page (handle_request req ps strs s) = Some
     (case split_whitespace (first_line req) of
        _ # path # _ \<Rightarrow>
          (case map_of (pages ps strs s) path of Some (kind, body) \<Rightarrow> (200, kind, body) | None \<Rightarrow> (404, ''text/plain'', ''Not Found''))
      | _ \<Rightarrow> (400, ''text/plain'', ''Bad Request''))"
  by (simp add: handle_request_def Let_def read_http_response read_http_json pages_def split: list.split)

text \<open>Registrations under different names may come in any order.\<close>

lemma map_of_register: "map_of (register nm descr f ps) = (map_of ps)(nm \<mapsto> \<lparr>p_description = descr, p_handler = f\<rparr>)"
  by (simp add: register_def update_conv')

lemma map_of_register_builtins:
  "distinct (map fst order) \<Longrightarrow> map_of (register_builtins order ps) nm =
     (case map_of order nm of Some (descr, f) \<Rightarrow> Some \<lparr>p_description = descr, p_handler = f\<rparr> | None \<Rightarrow> map_of ps nm)"
proof (induction order arbitrary: ps)
  case (Cons r order)
  obtain nm' descr f where r: "r = (nm', descr, f)" by (cases r)
  from Cons.prems r have "map_of order nm' = None" by (simp add: map_of_eq_None_iff)
  with Cons.IH [of "register nm' descr f ps"] Cons.prems r show ?case
    by (auto simp: register_builtins_def map_of_register split: option.splits)
qed (simp add: register_builtins_def)

lemma map_of_builtins_order: "mset order = mset builtins \<Longrightarrow> distinct (map fst order) \<and> map_of order = map_of builtins"
proof -
  assume m: "mset order = mset builtins"
  then have "mset (map fst order) = mset (map fst builtins)" by simp
  moreover have b: "distinct (map fst builtins)" by (simp add: builtins_def)
  ultimately have d: "distinct (map fst order)" by (metis mset_eq_imp_distinct_iff)
  from m have "set order = set builtins" by (metis set_mset_mset)
  then have "map_of order = map_of builtins" using map_of_inject_set [OF d b] by simp
  with d show ?thesis ..
qed

lemma hex_digits_length: "n < 16 ^ k \<Longrightarrow> length (hex_digits k n) = k"
proof (induction k arbitrary: n)
  case 0
  then show ?case by (simp add: hex_digits.simps)
next
  case (Suc k)
  then have "n div 16 < 16 ^ k" by (simp add: less_mult_imp_div_less mult.commute)
  from Suc.IH [OF this] show ?case by (subst hex_digits.simps) simp
qed

lemma hex_number_snoc:
  "hex_number (ds @ [c]) = 16 * hex_number ds + (if of_char c < (58 :: nat) then of_char c - 48 else of_char c - 87)"
  by (simp add: hex_number_def)

lemma hex_digits_value: "hex_number (hex_digits k n) = n"
proof (induction k n rule: hex_digits.induct)
  case (1 k n)
  have d: "n mod 16 < 16" by simp
  show ?case
  proof (cases "k = 0 \<and> n = 0")
    case True
    then show ?thesis by (subst hex_digits.simps) (simp add: hex_number_def)
  next
    case False
    with "1" d show ?thesis by (subst hex_digits.simps) (auto simp: hex_number_snoc)
  qed
qed

section \<open>Properties\<close>

text \<open>
  C29. Every page can be read. A client that takes the status line, the header lines and as many bytes as they announce gets from every
  answer of the server's HTTP interface a whole page with nothing left over, whatever the bodies hold: the page whose name is the second word of the
  first line of the request (words being separated by Unicode white space), 404 for any other name, and 400 for a line of fewer than two words. From the worker's metrics
  server it gets a whole page in the same way: the metrics if \<^verbatim>\<open>GET /metrics\<close> occurs anywhere in the request, so also for a longer
  path, else the health text if \<^verbatim>\<open>GET /health\<close> does, else 404.
\<close>

theorem pages_readable:
  "map_option read_page (serve_request req ps strs s) =
     (if req = [] then None
      else Some (Some
        (case split_whitespace (first_line req) of
           _ # path # _ \<Rightarrow>
             (case map_of (pages ps strs s) path of Some (kind, body) \<Rightarrow> (200, kind, body) | None \<Rightarrow> (404, ''text/plain'', ''Not Found''))
         | _ \<Rightarrow> (400, ''text/plain'', ''Bad Request'')))) \<and>
   map_option (map_option (\<lambda>(code, kind, body). (code, body)) \<circ> read_page) (handle_client show_g ms received server) =
     (if received = [] then None
      else Some (Some
        (let request = takeWhile (\<lambda>c. c \<noteq> CHR 0x00) received in
         if str_find ''GET /metrics'' request \<noteq> None \<and> has_exporter server then (200, render_prometheus show_g ms)
         else if str_find ''GET /health'' request \<noteq> None then (200, ''ok'' @ newline) else (404, []))))"
  by (simp add: serve_request_def handle_request_page handle_client_def Let_def read_build_response)

theorem pages_readable_witness:
  "map_option read_page (serve_request (''GET'' @ [CHR 0xC2, CHR 0xA0] @ ''/health HTTP/1.1'' @ CRLF) (new_pubsub :: unit pubsub) [] (snapshot 0 [] new_stats)) =
     Some (Some (200, ''text/plain'', ''ok'')) \<and>
   map_option (map_option (\<lambda>(code, kind, body). (code, body)) \<circ> read_page)
     (handle_client (\<lambda>_. ''1'') ([] :: unit exporter) ''GET /metricsfoo'' (set_exporter True (new_metrics_server 9090))) =
     Some (Some (200, []))"
proof -
  have "split_whitespace (first_line (''GET'' @ [CHR 0xC2, CHR 0xA0] @ ''/health HTTP/1.1'' @ CRLF)) = [''GET'', ''/health'', ''HTTP/1.1'']"
    by (simp add: first_line_def CRLF_def split_whitespace_def space_len_def white_space_def isspace_def)
  then show ?thesis
    using pages_readable [of "''GET'' @ [CHR 0xC2, CHR 0xA0] @ ''/health HTTP/1.1'' @ CRLF" "new_pubsub :: unit pubsub" "[]" "snapshot 0 [] new_stats"
        "\<lambda>_. ''1''" "[] :: unit exporter" "''GET /metricsfoo''" "set_exporter True (new_metrics_server 9090)"]
    by (simp add: pages_def set_exporter_def new_metrics_server_def render_prometheus_def grouped_def)
qed

text \<open>
  The built-in plugins. The four tasks of \<^verbatim>\<open>register_builtins\<close> may run in any order on any table: afterwards each of the four names executes
  its own handler and every other name does what it did before. The \<^verbatim>\<open>uuid\<close> is 32 hexadecimal digits, but they are the number
  of nanoseconds since the epoch and nothing else, so that a call gives away the identifier of another call at a known time.
\<close>

theorem builtins_any_order:
  assumes "mset order = mset builtins" "nanos < 16 ^ 32"
  shows "let ps' = register_builtins order ps in
    execute nanos ''ping'' args ps' = Some (''+PONG'' @ CRLF) \<and>
    execute nanos ''time'' args ps' = Some (time_reply nanos) \<and>
    execute nanos ''echo'' args ps' = Some (echo args) \<and>
    (\<exists>digits. execute nanos ''uuid'' args ps' = Some (''+'' @ digits @ CRLF) \<and> length digits = 32 \<and> hex_number digits = nanos) \<and>
    (nm \<notin> {''ping'', ''time'', ''echo'', ''uuid''} \<longrightarrow> execute nanos nm args ps' = execute nanos nm args ps)"
proof -
  have m: "map_of (register_builtins order ps) k =
      (case map_of builtins k of Some (descr, f) \<Rightarrow> Some \<lparr>p_description = descr, p_handler = f\<rparr> | None \<Rightarrow> map_of ps k)" for k
    using map_of_builtins_order [OF assms(1)] by (simp add: map_of_register_builtins)
  show ?thesis
    using hex_digits_length [OF assms(2)] by (auto simp: Let_def execute_def m builtins_def uuid_reply_def hex_digits_value)
qed

theorem builtins_any_order_witness:
  "execute 0 ''time'' [] (register_builtins (rev builtins) []) = Some ('':0'' @ CRLF)"
  using builtins_any_order [of "rev builtins" 0 "[]" "[]" "''none''"] by (simp add: Let_def time_reply_def dec_of_nat.simps digit_char_def char_of_def bit_0)

end
