(* ===== verification/Storage_Wal.thy ===== *)
theory Storage_Wal
  imports Rust_Prims Bytes
begin

section \<open>The write-ahead log\<close>

text \<open>
  \<^verbatim>\<open>redisdb/src/btree/wal.rs\<close>: the log file of the storage engine as a list of bytes, the operations that append to
  it, and \<^verbatim>\<open>replay\<close>, a total function of whatever the file holds. The disk takes every write; a log that ends
  inside a record, as a crash leaves it, is an argument of the theorems.
\<close>

datatype wal_error = Wal_not_opened | Wal_open_failed | Wal_short_read

record wal =
  w_file :: "u8 list option"
  w_opened :: bool
  w_next_tx :: u64

definition new_wal :: "u8 list option \<Rightarrow> wal" where
  "new_wal f = \<lparr>w_file = f, w_opened = False, w_next_tx = 1\<rparr>"

definition wal_open :: "wal \<Rightarrow> wal" where
  "wal_open w = w\<lparr>w_file := Some (case w_file w of None \<Rightarrow> [] | Some bs \<Rightarrow> bs), w_opened := True\<rparr>"

definition wal_append :: "u8 list \<Rightarrow> wal \<Rightarrow> (wal_error + unit) \<times> wal" where
  "wal_append bs w =
     (if w_opened w then (Inr (), w\<lparr>w_file := Some ((case w_file w of None \<Rightarrow> [] | Some log \<Rightarrow> log) @ bs)\<rparr>)
      else (Inl Wal_not_opened, w))"

text \<open>The number of the transaction in a record is the next one to be given out.\<close>

definition append_write :: "u64 \<Rightarrow> u8 list \<Rightarrow> wal \<Rightarrow> (wal_error + unit) \<times> wal" where
  "append_write page_id data w =
     wal_append ([1] @ u64_bytes (w_next_tx w) @ u64_bytes page_id @ u32_bytes (of_nat (length data)) @ data) w"

definition append_commit :: "u64 \<Rightarrow> wal \<Rightarrow> (wal_error + unit) \<times> wal" where
  "append_commit tx w = wal_append ([2] @ u64_bytes tx) w"

definition append_rollback :: "u64 \<Rightarrow> wal \<Rightarrow> (wal_error + unit) \<times> wal" where
  "append_rollback tx w = wal_append ([3] @ u64_bytes tx) w"

definition next_tx_id :: "wal \<Rightarrow> u64 \<times> wal" where
  "next_tx_id w = (w_next_tx w, w\<lparr>w_next_tx := w_next_tx w + 1\<rparr>)"

definition wal_truncate :: "wal \<Rightarrow> wal" where
  "wal_truncate w = (if w_opened w then w\<lparr>w_file := Some []\<rparr> else w)"

subsection \<open>Replay\<close>

datatype wal_record = Rec_write u64 u64 "u8 list" | Rec_commit u64 | Rec_rollback u64

definition take_bytes :: "nat \<Rightarrow> u8 list \<Rightarrow> wal_error + (u8 list \<times> u8 list)" where
  "take_bytes n bs = (if n \<le> length bs then Inr (take n bs, drop n bs) else Inl Wal_short_read)"

definition take_u64 :: "u8 list \<Rightarrow> wal_error + (u64 \<times> u8 list)" where
  "take_u64 bs = (case take_bytes 8 bs of Inl e \<Rightarrow> Inl e | Inr (b, rest) \<Rightarrow> Inr (of_nat (of_le b), rest))"

text \<open>One turn of the loop reads a record; the loop ends at the end of the file and at an unknown type.\<close>

definition next_record :: "u8 list \<Rightarrow> (wal_error + (wal_record \<times> u8 list)) option" where
  "next_record bs =
     (case bs of
        [] \<Rightarrow> None
      | t # b0 \<Rightarrow>
          if t = 1 then
            Some (case take_u64 b0 of
                Inl e \<Rightarrow> Inl e
              | Inr (tx, b1) \<Rightarrow>
                  (case take_u64 b1 of
                     Inl e \<Rightarrow> Inl e
                   | Inr (page, b2) \<Rightarrow>
                       (case take_bytes 4 b2 of
                          Inl e \<Rightarrow> Inl e
                        | Inr (l, b3) \<Rightarrow>
                            (case take_bytes (of_le l) b3 of
                               Inl e \<Rightarrow> Inl e
                             | Inr (data, b4) \<Rightarrow> Inr (Rec_write tx page data, b4)))))
          else if t = 2 then
            Some (case take_u64 b0 of Inl e \<Rightarrow> Inl e | Inr (tx, b1) \<Rightarrow> Inr (Rec_commit tx, b1))
          else if t = 3 then
            Some (case take_u64 b0 of Inl e \<Rightarrow> Inl e | Inr (tx, b1) \<Rightarrow> Inr (Rec_rollback tx, b1))
          else None)"

lemma next_record_shorter: "next_record bs = Some (Inr (r, rest)) \<Longrightarrow> length rest < length bs"
  by (auto simp: next_record_def take_u64_def take_bytes_def split: list.splits if_splits sum.splits prod.splits)

function replay_loop :: "u8 list \<Rightarrow> u64 list \<Rightarrow> (u64 \<times> u8 list) list \<Rightarrow> wal_error + (u64 \<times> u8 list) list" where
  "replay_loop bs committed entries =
     (case next_record bs of
        None \<Rightarrow> Inr entries
      | Some (Inl e) \<Rightarrow> Inl e
      | Some (Inr (Rec_write tx page data, rest)) \<Rightarrow>
          replay_loop rest committed (if tx \<in> set committed then entries @ [(page, data)] else entries)
      | Some (Inr (Rec_commit tx, rest)) \<Rightarrow> replay_loop rest (List.insert tx committed) entries
      | Some (Inr (Rec_rollback tx, rest)) \<Rightarrow> replay_loop rest (removeAll tx committed) entries)"
  by pat_completeness auto
termination
  by (relation "measure (length \<circ> fst)") (auto dest: next_record_shorter)

declare replay_loop.simps [simp del]

definition wal_replay :: "wal \<Rightarrow> wal_error + (u64 \<times> u8 list) list" where
  "wal_replay w = (case w_file w of None \<Rightarrow> Inl Wal_open_failed | Some bs \<Rightarrow> replay_loop bs [] [])"

subsection \<open>Specification vocabulary\<close>

fun record_bytes :: "wal_record \<Rightarrow> u8 list" where
  "record_bytes (Rec_write tx page data) = 1 # u64_bytes tx @ u64_bytes page @ u32_bytes (of_nat (length data)) @ data"
| "record_bytes (Rec_commit tx) = 2 # u64_bytes tx"
| "record_bytes (Rec_rollback tx) = 3 # u64_bytes tx"

fun record_ok :: "wal_record \<Rightarrow> bool" where
  "record_ok (Rec_write tx page data) = (length data < 2 ^ 32)"
| "record_ok r = True"

text \<open>The writes whose transaction is committed at their own place in the log.\<close>

fun survivors :: "u64 set \<Rightarrow> wal_record list \<Rightarrow> (u64 \<times> u8 list) list" where
  "survivors c [] = []"
| "survivors c (Rec_write tx page data # rs) = (if tx \<in> c then [(page, data)] else []) @ survivors c rs"
| "survivors c (Rec_commit tx # rs) = survivors (insert tx c) rs"
| "survivors c (Rec_rollback tx # rs) = survivors (c - {tx}) rs"

text \<open>What a transaction of the B-tree does to the log: a number, the pages written, the commit.\<close>

definition transaction :: "(u64 \<times> u8 list) list \<Rightarrow> wal \<Rightarrow> wal" where
  "transaction ws w =
     (case next_tx_id w of (tx, w1) \<Rightarrow>
        snd (append_commit tx (fold (\<lambda>(p, d) w. snd (append_write p d w)) ws w1)))"

section \<open>Lemmas\<close>

lemma take_u64_bytes [simp]: "take_u64 (u64_bytes x @ rest) = Inr (x, rest)"
  by (simp add: take_u64_def take_bytes_def u64_of_le)

lemma of_le_length: "n < 2 ^ 32 \<Longrightarrow> of_le (u32_bytes (of_nat n)) = n"
  by (simp add: u32_bytes_def of_le_le_bytes unat_of_nat)

lemma next_record_bytes:
  assumes "record_ok r" shows "next_record (record_bytes r @ rest) = Some (Inr (r, rest))"
  using assms by (cases r) (simp_all add: next_record_def take_bytes_def of_le_length)

lemma replay_step:
  assumes "record_ok r"
  shows "replay_loop (record_bytes r @ rest) committed entries =
    (case r of
       Rec_write tx page data \<Rightarrow> replay_loop rest committed (if tx \<in> set committed then entries @ [(page, data)] else entries)
     | Rec_commit tx \<Rightarrow> replay_loop rest (List.insert tx committed) entries
     | Rec_rollback tx \<Rightarrow> replay_loop rest (removeAll tx committed) entries)"
  by (subst replay_loop.simps) (simp add: next_record_bytes [OF assms] split: wal_record.splits)

lemma replay_records:
  "list_all record_ok rs \<Longrightarrow>
   replay_loop (concat (map record_bytes rs) @ tail) committed entries =
     replay_loop tail (fold (\<lambda>r c. case r of Rec_commit tx \<Rightarrow> List.insert tx c | Rec_rollback tx \<Rightarrow> removeAll tx c | _ \<Rightarrow> c) rs committed)
       (entries @ survivors (set committed) rs)"
proof (induction rs arbitrary: committed entries)
  case (Cons r rs)
  then show ?case
    using replay_step [of r "concat (map record_bytes rs) @ tail" committed entries] by (cases r) simp_all
qed simp

lemma replay_end: "replay_loop [] committed entries = Inr entries"
  by (subst replay_loop.simps) (simp add: next_record_def)

text \<open>A record that is cut off.\<close>

lemma take_u64_take: "take_u64 (take k (u64_bytes x @ rest)) = (if 8 \<le> k then Inr (x, take (k - 8) rest) else Inl Wal_short_read)"
  by (auto simp: take_u64_def take_bytes_def u64_of_le min_def)

lemma next_record_torn:
  assumes "record_ok r" "0 < k" "k < length (record_bytes r)"
  shows "next_record (take k (record_bytes r)) = Some (Inl Wal_short_read)"
proof -
  obtain k' where k: "k = Suc k'" using assms(2) gr0_implies_Suc by blast
  show ?thesis
  proof (cases r)
    case (Rec_write tx page data)
    let ?l = "u32_bytes (of_nat (length data)) :: u8 list"
    have l: "take_bytes 4 (take n (?l @ data)) = (if 4 \<le> n then Inr (?l, take (n - 4) data) else Inl Wal_short_read)" for n
      by (auto simp: take_bytes_def min_def)
    have d: "take_bytes (length data) (take n data) = Inl Wal_short_read" if "n < length data" for n
      using that by (simp add: take_bytes_def)
    from assms(1,3) show ?thesis
      by (simp add: Rec_write k next_record_def take_u64_take of_le_length l d del: take_append)
  next
    case (Rec_commit tx)
    with assms(3) show ?thesis using take_u64_take [of k' tx "[]"] by (simp add: k next_record_def)
  next
    case (Rec_rollback tx)
    with assms(3) show ?thesis using take_u64_take [of k' tx "[]"] by (simp add: k next_record_def)
  qed
qed

subsection \<open>Transactions\<close>

text \<open>The records a sequence of transactions leaves, the first with number \<open>n\<close>.\<close>

fun transaction_records :: "u64 \<Rightarrow> (u64 \<times> u8 list) list list \<Rightarrow> wal_record list" where
  "transaction_records n [] = []"
| "transaction_records n (ws # wss) =
     map (\<lambda>(p, d). Rec_write (n + 1) p d) ws @ [Rec_commit n] @ transaction_records (n + 1) wss"

lemma fold_append_write:
  "w_opened w \<Longrightarrow> w_file w = Some log \<Longrightarrow>
   fold (\<lambda>(p, d) w. snd (append_write p d w)) ws w =
     w\<lparr>w_file := Some (log @ concat (map record_bytes (map (\<lambda>(p, d). Rec_write (w_next_tx w) p d) ws)))\<rparr>"
  by (induction ws arbitrary: w log) (auto simp: append_write_def wal_append_def)

lemma transaction_log:
  assumes "w_opened w" "w_file w = Some log"
  shows "transaction ws w = w\<lparr>w_file := Some (log @ concat (map record_bytes (transaction_records (w_next_tx w) [ws]))),
    w_next_tx := w_next_tx w + 1\<rparr>"
  using assms
  by (simp add: transaction_def next_tx_id_def append_commit_def wal_append_def
      fold_append_write [of "w\<lparr>w_next_tx := w_next_tx w + 1\<rparr>" log])

lemma transactions_log:
  "w_opened w \<Longrightarrow> w_file w = Some log \<Longrightarrow>
   w_file (fold transaction wss w) = Some (log @ concat (map record_bytes (transaction_records (w_next_tx w) wss)))"
proof (induction wss arbitrary: w log)
  case (Cons ws wss)
  then show ?case by (simp add: transaction_log)
qed simp

text \<open>A write is tagged with the number after that of its transaction, which is committed later, if ever.\<close>

lemma survivors_writes: "tx \<notin> c \<Longrightarrow> survivors c (map (\<lambda>(p, d). Rec_write tx p d) ws @ rs) = survivors c rs"
  by (induction ws) auto

lemma survivors_transactions:
  "\<forall>tx \<in> c. unat tx < unat n \<Longrightarrow> unat n + length wss < 2 ^ 64 \<Longrightarrow> survivors c (transaction_records n wss) = []"
proof (induction wss arbitrary: n c)
  case (Cons ws wss)
  have n: "unat (n + 1) = unat n + 1" using Cons.prems(2) by (simp add: unat_word_ariths)
  then have "n + 1 \<notin> c" using Cons.prems(1) by fastforce
  moreover have "survivors (insert n c) (transaction_records (n + 1) wss) = []"
    using Cons.prems n by (intro Cons.IH) auto
  ultimately show ?case by (simp add: survivors_writes)
qed simp

lemma records_ok: "\<forall>ws \<in> set wss. \<forall>(p, d) \<in> set ws. length d < 2 ^ 32 \<Longrightarrow> list_all record_ok (transaction_records n wss)"
  by (induction wss arbitrary: n) (auto simp: list_all_iff)

section \<open>Properties\<close>

text \<open>
  C33. What replaying a log gives: of any sequence of records, exactly the page writes whose transaction number is
  committed, and not rolled back since, at the place of the write itself, in their order. And if
  the log ends inside a record, as a crash during an append leaves it, the replay fails altogether.
\<close>

theorem wal_replay_exact:
  assumes "list_all record_ok rs" "w_file w = Some (concat (map record_bytes rs) @ take k (record_bytes r))"
    and "record_ok r" "k < length (record_bytes r)"
  shows "wal_replay w = (if k = 0 then Inr (survivors {} rs) else Inl Wal_short_read)"
proof (cases "k = 0")
  case True
  with assms(2) replay_records [OF assms(1), of "[]" "[]" "[]"] show ?thesis by (simp add: wal_replay_def replay_end)
next
  case False
  then have "replay_loop (take k (record_bytes r)) c es = Inl Wal_short_read" for c es
    using next_record_torn [OF assms(3) _ assms(4)] by (subst replay_loop.simps) simp
  with False assms(2) replay_records [OF assms(1), of "take k (record_bytes r)" "[]" "[]"] show ?thesis
    by (simp add: wal_replay_def)
qed

theorem wal_replay_exact_witness:
  "wal_replay \<lparr>w_file = Some (concat (map record_bytes [Rec_commit 1, Rec_write 1 5 [7], Rec_write 2 6 [8]]) @
     take 3 (record_bytes (Rec_commit 2))), w_opened = True, w_next_tx = 3\<rparr> = Inl Wal_short_read \<and>
   wal_replay \<lparr>w_file = Some (concat (map record_bytes [Rec_commit 1, Rec_write 1 5 [7], Rec_write 2 6 [8]]) @
     take 0 (record_bytes (Rec_commit 2))), w_opened = True, w_next_tx = 3\<rparr> = Inr [(5, [7])]"
  using wal_replay_exact [of "[Rec_commit 1, Rec_write 1 5 [7], Rec_write 2 6 [8]]"
      "\<lparr>w_file = Some (concat (map record_bytes [Rec_commit 1, Rec_write 1 5 [7], Rec_write 2 6 [8]]) @
        take 3 (record_bytes (Rec_commit 2))), w_opened = True, w_next_tx = 3\<rparr>" 3 "Rec_commit 2"]
    wal_replay_exact [of "[Rec_commit 1, Rec_write 1 5 [7], Rec_write 2 6 [8]]"
      "\<lparr>w_file = Some (concat (map record_bytes [Rec_commit 1, Rec_write 1 5 [7], Rec_write 2 6 [8]]) @
        take 0 (record_bytes (Rec_commit 2))), w_opened = True, w_next_tx = 3\<rparr>" 0 "Rec_commit 2"]
  by simp

text \<open>
  The log recovers nothing. After any number of transactions on a new log, each writing any pages and
  committing, a replay returns no page at all: a write carries the number after that of its
  transaction, and the commit is looked for before the write and not behind it.
\<close>

theorem wal_recovers_nothing:
  assumes "length wss < 2 ^ 63" "\<forall>ws \<in> set wss. \<forall>(p, d) \<in> set ws. length d < 2 ^ 32"
  shows "wal_replay (fold transaction wss (wal_open (new_wal None))) = Inr []"
proof -
  let ?rs = "transaction_records 1 wss"
  have "w_file (fold transaction wss (wal_open (new_wal None))) = Some (concat (map record_bytes ?rs))"
    using transactions_log [of "wal_open (new_wal None)" "[]" wss] by (simp add: wal_open_def new_wal_def)
  moreover have "survivors {} ?rs = []" using assms(1) by (intro survivors_transactions) simp_all
  ultimately show ?thesis
    using replay_records [OF records_ok [OF assms(2)], of 1 "[]" "[]" "[]"] by (simp add: wal_replay_def replay_end)
qed

theorem wal_recovers_nothing_witness:
  "wal_replay (fold transaction [[(1, [7, 8])], [(1, [9]), (2, [])]] (wal_open (new_wal None))) = Inr []"
  by (rule wal_recovers_nothing) auto

end
