(* ===== verification/Storage_Pool.thy ===== *)
theory Storage_Pool
  imports Storage_Wal
begin

section \<open>Pages and the buffer pool\<close>

text \<open>
  \<^verbatim>\<open>redisdb/src/btree/page.rs\<close> and \<^verbatim>\<open>buffer_pool.rs\<close>: pages of 4096 bytes whose every access checks its bounds, as the
  slices of the code do, and the cache of pages over the database file. What becomes of a write is an argument (\<open>fate\<close>): it may fail after
  some of the bytes, and since the code never flushes the file of the runtime, \<^verbatim>\<open>write_all\<close> may also return before the bytes
  are in the file. Operations of the pool run one after another: \<^verbatim>\<open>get_page\<close>, which takes its locks
  three times, is one step, and nothing is said of several of them at once.
\<close>

subsection \<open>Results\<close>

datatype db_error = Db_open_failed | Db_short_read | Db_write_failed | Db_wal wal_error

subsection \<open>Pages\<close>

definition PAGE_SIZE :: nat where "PAGE_SIZE = 4096"

record page =
  pg_id :: u64
  pg_data :: "u8 list"
  pg_dirty :: bool

definition new_page :: "u64 \<Rightarrow> page" where
  "new_page i = \<lparr>pg_id = i, pg_data = replicate PAGE_SIZE 0, pg_dirty = False\<rparr>"

definition read_slice :: "nat \<Rightarrow> nat \<Rightarrow> page \<Rightarrow> u8 list run" where
  "read_slice offset n p =
     (if offset + n \<le> length (pg_data p) then Inr (slice (pg_data p) offset n) else Inl Index_out_of_range)"

definition write_slice :: "nat \<Rightarrow> u8 list \<Rightarrow> page \<Rightarrow> page run" where
  "write_slice offset bs p =
     (if offset + length bs \<le> length (pg_data p)
      then Inr (p\<lparr>pg_data := memcpy_at (pg_data p) offset bs, pg_dirty := True\<rparr>) else Inl Index_out_of_range)"

definition read_u64 :: "nat \<Rightarrow> page \<Rightarrow> u64 run" where
  "read_u64 offset p = run_bind (read_slice offset 8 p) (\<lambda>b. Inr (of_nat (of_le b)))"

definition write_u64 :: "nat \<Rightarrow> u64 \<Rightarrow> page \<Rightarrow> page run" where
  "write_u64 offset v p = write_slice offset (u64_bytes v) p"

definition read_u32 :: "nat \<Rightarrow> page \<Rightarrow> u32 run" where
  "read_u32 offset p = run_bind (read_slice offset 4 p) (\<lambda>b. Inr (of_nat (of_le b)))"

definition write_u32 :: "nat \<Rightarrow> u32 \<Rightarrow> page \<Rightarrow> page run" where
  "write_u32 offset v p = write_slice offset (u32_bytes v) p"

subsection \<open>The buffer pool\<close>

text \<open>
  The fate of a write: it is done when \<^verbatim>\<open>save_page\<close> returns, it fails when so many bytes are in the file (none
  when the file cannot be opened), or \<^verbatim>\<open>save_page\<close> returns first and the write is still to be done. \<open>fates\<close> are those of the coming
  writes, in order (behind the end of the list all are done), \<open>pending\<close> the writes still to be done. Writes reach the
  file in the order they were made.
\<close>

datatype fate = Write_done | Write_error nat | Write_late

record pool =
  frames :: "(u64 \<times> page) list"
  lru :: "u64 list"
  capacity :: nat
  db_file :: "u8 list option"
  fates :: "fate list"
  pending :: "(nat \<times> u8 list) list"

definition new_pool :: "nat \<Rightarrow> u8 list option \<Rightarrow> pool" where
  "new_pool cap f = \<lparr>frames = [], lru = [], capacity = cap, db_file = f, fates = [], pending = []\<rparr>"

definition touch_lru :: "u64 \<Rightarrow> pool \<Rightarrow> pool" where
  "touch_lru i bp = bp\<lparr>lru := filter (\<lambda>j. j \<noteq> i) (lru bp) @ [i]\<rparr>"

text \<open>The offset is computed in 64 bits and wraps around.\<close>

definition page_offset :: "u64 \<Rightarrow> nat" where
  "page_offset i = unat (i * 4096)"

definition load_page :: "u64 \<Rightarrow> pool \<Rightarrow> db_error + page" where
  "load_page i bp =
     (case db_file bp of
        None \<Rightarrow> Inl Db_open_failed
      | Some bs \<Rightarrow>
          let offset = page_offset i in
          if offset + PAGE_SIZE \<le> length bs
          then Inr \<lparr>pg_id = i, pg_data = slice bs offset PAGE_SIZE, pg_dirty = False\<rparr> else Inl Db_short_read)"

text \<open>Writing behind the end of a file fills the gap with zeros; writing nothing leaves it as it is.\<close>

definition write_at :: "nat \<Rightarrow> u8 list \<Rightarrow> u8 list option \<Rightarrow> u8 list option" where
  "write_at offset d f =
     (if d = [] then f
      else
        let bs = (case f of None \<Rightarrow> [] | Some bs \<Rightarrow> bs); bs1 = bs @ replicate (offset + length d - length bs) 0 in
        Some (memcpy_at bs1 offset d))"

text \<open>The runtime does the writes that are still to be done.\<close>

definition settle :: "pool \<Rightarrow> pool" where
  "settle bp = bp\<lparr>db_file := fold (\<lambda>(offset, d). write_at offset d) (pending bp) (db_file bp), pending := []\<rparr>"

definition next_fate :: "pool \<Rightarrow> fate" where
  "next_fate bp = (case fates bp of [] \<Rightarrow> Write_done | x # _ \<Rightarrow> x)"

definition save_page :: "page \<Rightarrow> pool \<Rightarrow> (db_error + unit) \<times> pool" where
  "save_page p bp =
     (let offset = page_offset (pg_id p); bp1 = bp\<lparr>fates := tl (fates bp)\<rparr>; bp2 = settle bp1 in
      case next_fate bp of
        Write_done \<Rightarrow> (Inr (), bp2\<lparr>db_file := write_at offset (pg_data p) (db_file bp2)\<rparr>)
      | Write_error n \<Rightarrow> (Inl Db_write_failed, bp2\<lparr>db_file := write_at offset (take n (pg_data p)) (db_file bp2)\<rparr>)
      | Write_late \<Rightarrow> (Inr (), bp1\<lparr>pending := pending bp @ [(offset, pg_data p)]\<rparr>))"

definition flush_page :: "u64 \<Rightarrow> pool \<Rightarrow> (db_error + unit) \<times> pool" where
  "flush_page i bp =
     (case map_of (frames bp) i of
        None \<Rightarrow> (Inr (), bp)
      | Some p \<Rightarrow>
          if \<not> pg_dirty p then (Inr (), bp)
          else
            (case save_page p bp of
               (Inl e, bp1) \<Rightarrow> (Inl e, bp1)
             | (Inr _, bp1) \<Rightarrow> (Inr (), bp1\<lparr>frames := AList.update i (p\<lparr>pg_dirty := False\<rparr>) (frames bp1)\<rparr>)))"

fun flush_pages :: "u64 list \<Rightarrow> pool \<Rightarrow> (db_error + unit) \<times> pool" where
  "flush_pages [] bp = (Inr (), bp)"
| "flush_pages (i # is) bp =
     (case flush_page i bp of (Inl e, bp1) \<Rightarrow> (Inl e, bp1) | (Inr _, bp1) \<Rightarrow> flush_pages is bp1)"

definition flush_all :: "pool \<Rightarrow> (db_error + unit) \<times> pool" where
  "flush_all bp = flush_pages (map fst (filter (\<lambda>(i, p). pg_dirty p) (frames bp))) bp"

text \<open>The result of the write is dropped, and the page with it.\<close>

definition evict_if_needed :: "pool \<Rightarrow> pool" where
  "evict_if_needed bp =
     (if length (frames bp) \<le> capacity bp then bp
      else case lru bp of
        [] \<Rightarrow> bp
      | i # rest \<Rightarrow>
          let bp1 = snd (flush_page i (bp\<lparr>lru := rest\<rparr>)) in bp1\<lparr>frames := AList.delete i (frames bp1)\<rparr>)"

definition get_page :: "u64 \<Rightarrow> pool \<Rightarrow> (db_error + page) \<times> pool" where
  "get_page i bp =
     (case map_of (frames bp) i of
        Some p \<Rightarrow> (Inr p, touch_lru i bp)
      | None \<Rightarrow>
          (case load_page i bp of
             Inl e \<Rightarrow> (Inl e, bp)
           | Inr p \<Rightarrow> (Inr p, evict_if_needed (bp\<lparr>frames := AList.update i p (frames bp)\<rparr>))))"

definition put_page :: "page \<Rightarrow> pool \<Rightarrow> pool" where
  "put_page p bp = touch_lru (pg_id p) (bp\<lparr>frames := AList.update (pg_id p) p (frames bp)\<rparr>)"

definition mark_dirty :: "u64 \<Rightarrow> pool \<Rightarrow> pool" where
  "mark_dirty i bp =
     (case map_of (frames bp) i of
        None \<Rightarrow> bp | Some p \<Rightarrow> bp\<lparr>frames := AList.update i (p\<lparr>pg_dirty := True\<rparr>) (frames bp)\<rparr>)"

definition page_count :: "pool \<Rightarrow> nat" where
  "page_count bp = length (frames bp)"

definition file_size :: "pool \<Rightarrow> nat" where
  "file_size bp = (case db_file bp of None \<Rightarrow> 0 | Some bs \<Rightarrow> length bs)"

section \<open>Specification\<close>

text \<open>
  The bytes of a page as the pool gives them once all writes are done: the frame if there is one, else the file.
\<close>

definition file_page :: "pool \<Rightarrow> u64 \<Rightarrow> u8 list option" where
  "file_page bp i = (case load_page i (settle bp) of Inl e \<Rightarrow> None | Inr p \<Rightarrow> Some (pg_data p))"

definition view :: "pool \<Rightarrow> u64 \<Rightarrow> u8 list option" where
  "view bp i = (case map_of (frames bp) i of Some p \<Rightarrow> Some (pg_data p) | None \<Rightarrow> file_page bp i)"

text \<open>A page number whose offset does not wrap around, and a page the tree hands over.\<close>

definition page_ok :: "u64 \<Rightarrow> bool" where
  "page_ok i \<longleftrightarrow> unat i < 2 ^ 52"

definition handed_over :: "page \<Rightarrow> bool" where
  "handed_over p \<longleftrightarrow> page_ok (pg_id p) \<and> length (pg_data p) = PAGE_SIZE \<and> pg_dirty p"

text \<open>
  Frames carry their own number, and a frame that is not dirty is on the file once all writes are done.
\<close>

definition frame_ok :: "pool \<Rightarrow> u64 \<Rightarrow> page \<Rightarrow> bool" where
  "frame_ok bp i p \<longleftrightarrow> pg_id p = i \<and> page_ok i \<and> length (pg_data p) = PAGE_SIZE \<and>
     (\<not> pg_dirty p \<longrightarrow> file_page bp i = Some (pg_data p))"

definition pool_inv :: "pool \<Rightarrow> bool" where
  "pool_inv bp \<longleftrightarrow> distinct (map fst (frames bp)) \<and> (\<forall>i p. map_of (frames bp) i = Some p \<longrightarrow> frame_ok bp i p)"

text \<open>
  What is done with a pool, and the page writes among it. The runtime has done the writes of one
  operation before the next one begins.
\<close>

datatype pool_op = Get_page u64 | Put_page page | Mark_dirty u64 | Flush_page u64 | Flush_all

fun pool_call :: "pool_op \<Rightarrow> pool \<Rightarrow> pool" where
  "pool_call (Get_page i) bp = snd (get_page i bp)"
| "pool_call (Put_page p) bp = put_page p bp"
| "pool_call (Mark_dirty i) bp = mark_dirty i bp"
| "pool_call (Flush_page i) bp = snd (flush_page i bp)"
| "pool_call Flush_all bp = snd (flush_all bp)"

definition pool_step :: "pool_op \<Rightarrow> pool \<Rightarrow> pool" where
  "pool_step p bp = settle (pool_call p bp)"

fun op_ok :: "pool_op \<Rightarrow> bool" where
  "op_ok (Get_page i) = page_ok i"
| "op_ok (Put_page p) = handed_over p"
| "op_ok (Mark_dirty i) = True"
| "op_ok (Flush_page i) = True"
| "op_ok Flush_all = True"

fun spec_step :: "pool_op \<Rightarrow> (u64 \<Rightarrow> u8 list option) \<Rightarrow> u64 \<Rightarrow> u8 list option" where
  "spec_step (Put_page p) m = m(pg_id p := Some (pg_data p))"
| "spec_step _ m = m"

text \<open>A pool between two operations, and one on a disk that fails no write.\<close>

definition pool_idle :: "pool \<Rightarrow> bool" where
  "pool_idle bp \<longleftrightarrow> pool_inv bp \<and> pending bp = []"

definition no_error :: "fate list \<Rightarrow> bool" where
  "no_error fs = list_all (\<lambda>x. \<forall>n. x \<noteq> Write_error n) fs"

definition calm :: "pool \<Rightarrow> bool" where
  "calm bp \<longleftrightarrow> pool_idle bp \<and> no_error (fates bp)"

section \<open>Lemmas\<close>

subsection \<open>The file\<close>

lemma slice_memcpy_same: "off + length ys \<le> length xs \<Longrightarrow> slice (memcpy_at xs off ys) off (length ys) = ys"
  by (simp add: slice_def memcpy_at_def)

lemma slice_memcpy_before:
  "off' + n \<le> off \<Longrightarrow> off \<le> length xs \<Longrightarrow> slice (memcpy_at xs off ys) off' n = slice xs off' n"
  by (simp add: slice_def memcpy_at_def min_def take_drop)

lemma slice_memcpy_after:
  "off + length ys \<le> off' \<Longrightarrow> off + length ys \<le> length xs \<Longrightarrow> slice (memcpy_at xs off ys) off' n = slice xs off' n"
  by (simp add: slice_def memcpy_at_def)

lemma slice_append1: "off + n \<le> length xs \<Longrightarrow> slice (xs @ ys) off n = slice xs off n"
  by (simp add: slice_def)

lemma page_offset_ok: "page_ok i \<Longrightarrow> page_offset i = unat i * 4096"
  by (simp add: page_ok_def page_offset_def unat_word_ariths)

lemma page_offsets_apart:
  assumes "page_ok i" "page_ok j" "i \<noteq> j"
  shows "page_offset i + 4096 \<le> page_offset j \<or> page_offset j + 4096 \<le> page_offset i"
proof -
  from assms(3) have "unat i < unat j \<or> unat j < unat i" by (metis nat_neq_iff word_unat_eq_iff)
  then show ?thesis by (auto simp: page_offset_ok assms(1,2))
qed

lemma settle_simps [simp]:
  "frames (settle bp) = frames bp" "lru (settle bp) = lru bp" "capacity (settle bp) = capacity bp"
  "fates (settle bp) = fates bp" "pending (settle bp) = []" "settle (settle bp) = settle bp"
  by (simp_all add: settle_def)

lemma settle_idle: "pending bp = [] \<Longrightarrow> settle bp = bp"
  by (simp add: settle_def)

lemma load_page_file_page:
  "pending bp = [] \<Longrightarrow> load_page i bp = Inr p \<Longrightarrow>
   file_page bp i = Some (pg_data p) \<and> pg_id p = i \<and> \<not> pg_dirty p \<and> length (pg_data p) = PAGE_SIZE"
  by (auto simp: file_page_def settle_idle load_page_def Let_def PAGE_SIZE_def length_slice split: option.splits if_splits)

lemma file_page_Some: "pending bp = [] \<Longrightarrow> file_page bp i = Some d \<Longrightarrow> \<exists>p. load_page i bp = Inr p \<and> pg_data p = d"
  by (auto simp: file_page_def settle_idle split: sum.splits)

lemma file_page_cong: "db_file (settle bp) = db_file (settle bp') \<Longrightarrow> file_page bp i = file_page bp' i"
  by (simp add: file_page_def load_page_def)

lemma file_page_settle [simp]: "file_page (settle bp) = file_page bp" "view (settle bp) = view bp" "pool_inv (settle bp) = pool_inv bp"
  by (simp_all add: file_page_def view_def pool_inv_def frame_ok_def fun_eq_iff split: option.split)

text \<open>A write into the place of one page gives that page if it is whole, and no other.\<close>

lemma write_at_same:
  "length d = PAGE_SIZE \<Longrightarrow> db_file (settle bp) = write_at (page_offset i) d f \<Longrightarrow> file_page bp i = Some d"
  using slice_memcpy_same [of "page_offset i" d]
  by (auto simp: file_page_def load_page_def write_at_def Let_def PAGE_SIZE_def)

lemma write_at_other:
  assumes "length d \<le> PAGE_SIZE" "page_ok i" "page_ok j" "i \<noteq> j"
    and "db_file (settle bp') = write_at (page_offset j) d (db_file (settle bp))" "file_page bp i = Some c"
  shows "file_page bp' i = Some c"
  using assms(6) page_offsets_apart [OF assms(2,3,4)] assms(1,5)
  by (auto simp: file_page_def load_page_def write_at_def Let_def PAGE_SIZE_def slice_append1
      slice_memcpy_before slice_memcpy_after split: option.splits if_splits)

text \<open>Whatever its fate, a write has put so many of its bytes into the file when all writes are done.\<close>

fun reach :: "fate \<Rightarrow> nat" where
  "reach (Write_error n) = n"
| "reach _ = PAGE_SIZE"

lemma save_page_simps [simp]:
  "frames (snd (save_page p bp)) = frames bp" "lru (snd (save_page p bp)) = lru bp"
  "capacity (snd (save_page p bp)) = capacity bp" "fates (snd (save_page p bp)) = tl (fates bp)"
  by (simp_all add: save_page_def Let_def split: fate.split)

lemma save_page_result:
  "fst (save_page p bp) = (case next_fate bp of Write_error n \<Rightarrow> Inl Db_write_failed | _ \<Rightarrow> Inr ())"
  by (simp add: save_page_def Let_def split: fate.split)

lemma save_page_settled:
  "length (pg_data p) = PAGE_SIZE \<Longrightarrow> db_file (settle (snd (save_page p bp))) =
     write_at (page_offset (pg_id p)) (take (reach (next_fate bp)) (pg_data p)) (db_file (settle bp))"
  by (simp add: save_page_def settle_def Let_def split: fate.split)

subsection \<open>The invariant\<close>

lemma map_of_update_frames [simp]: "map_of (AList.update i p fs) j = (if j = i then Some p else map_of fs j)"
  by (simp add: update_conv')

lemma map_of_delete_frames [simp]: "map_of (AList.delete i fs) j = (if j = i then None else map_of fs j)"
  by (simp add: delete_conv')

lemma pool_invI:
  "distinct (map fst (frames bp)) \<Longrightarrow> (\<And>i p. map_of (frames bp) i = Some p \<Longrightarrow> frame_ok bp i p) \<Longrightarrow> pool_inv bp"
  by (simp add: pool_inv_def)

lemma pool_inv_frame: "pool_inv bp \<Longrightarrow> map_of (frames bp) i = Some p \<Longrightarrow> frame_ok bp i p"
  by (simp add: pool_inv_def)

lemma file_page_update [simp]:
  "file_page (bp\<lparr>lru := l\<rparr>) = file_page bp" "file_page (bp\<lparr>frames := fs\<rparr>) = file_page bp"
  by (auto simp: fun_eq_iff settle_def intro!: file_page_cong)

lemma pool_inv_lru [simp]: "pool_inv (bp\<lparr>lru := l\<rparr>) = pool_inv bp" "view (bp\<lparr>lru := l\<rparr>) = view bp"
  by (simp_all add: pool_inv_def frame_ok_def view_def fun_eq_iff split: option.split)

lemma clean_frame: "\<not> pg_dirty p \<Longrightarrow> p\<lparr>pg_dirty := False\<rparr> = p"
  by (cases p) simp

lemma put_page_inv: "pool_inv bp \<Longrightarrow> handed_over p \<Longrightarrow> pool_inv (put_page p bp)"
  by (auto simp: put_page_def touch_lru_def pool_inv_def handed_over_def frame_ok_def distinct_update
      split: if_splits)

lemma put_page_view: "view (put_page p bp) = (view bp)(pg_id p := Some (pg_data p))"
  by (simp add: put_page_def touch_lru_def view_def fun_eq_iff split: option.split)

lemma mark_dirty_inv: "pool_inv bp \<Longrightarrow> pool_inv (mark_dirty i bp)" "view (mark_dirty i bp) = view bp"
proof -
  show "pool_inv (mark_dirty i bp)" if inv: "pool_inv bp"
  proof (cases "map_of (frames bp) i")
    case (Some p)
    then have "frame_ok bp i p" using pool_inv_frame [OF inv] by blast
    then show ?thesis
      using inv Some by (intro pool_invI) (auto simp: mark_dirty_def pool_inv_def frame_ok_def distinct_update split: if_splits)
  qed (simp add: mark_dirty_def inv)
qed (simp add: mark_dirty_def view_def fun_eq_iff split: option.split)

text \<open>A flush keeps the invariant and the pages whatever the fate of its write.\<close>

lemma flush_page_idle: "(\<And>p. map_of (frames bp) i = Some p \<Longrightarrow> \<not> pg_dirty p) \<Longrightarrow> flush_page i bp = (Inr (), bp)"
  by (simp add: flush_page_def split: option.split)

lemma flush_page_saves:
  "map_of (frames bp) i = Some p \<Longrightarrow> pg_dirty p \<Longrightarrow> flush_page i bp =
     (case save_page p bp of
        (Inl e, bp1) \<Rightarrow> (Inl e, bp1) | (Inr _, bp1) \<Rightarrow> (Inr (), bp1\<lparr>frames := AList.update i (p\<lparr>pg_dirty := False\<rparr>) (frames bp)\<rparr>))"
  using save_page_simps(1) [of p bp] by (cases "save_page p bp") (simp add: flush_page_def split: sum.split)

lemma save_page_pages:
  assumes "pool_inv bp" "map_of (frames bp) i = Some p"
  shows "page_ok j \<Longrightarrow> j \<noteq> i \<Longrightarrow> file_page bp j = Some d \<Longrightarrow> file_page (snd (save_page p bp)) j = Some d"
    and "fst (save_page p bp) = Inr () \<Longrightarrow> file_page (snd (save_page p bp)) i = Some (pg_data p)"
proof -
  have p: "pg_id p = i" "page_ok i" "length (pg_data p) = PAGE_SIZE"
    using pool_inv_frame [OF assms] by (simp_all add: frame_ok_def)
  show "file_page (snd (save_page p bp)) j = Some d" if "page_ok j" "j \<noteq> i" "file_page bp j = Some d"
    using write_at_other [of "take (reach (next_fate bp)) (pg_data p)" j i "snd (save_page p bp)" bp d] save_page_settled [OF p(3), of bp] that p by simp
  assume "fst (save_page p bp) = Inr ()"
  then have "take (reach (next_fate bp)) (pg_data p) = pg_data p" using p by (auto simp: save_page_result split: fate.splits)
  then show "file_page (snd (save_page p bp)) i = Some (pg_data p)"
    using write_at_same [OF p(3)] save_page_settled [OF p(3), of bp] p(1) by simp
qed

lemma flush_page_keeps:
  assumes "pool_inv bp"
  shows "pool_inv (snd (flush_page i bp)) \<and>
    (\<forall>j d. page_ok j \<longrightarrow> view bp j = Some d \<longrightarrow> view (snd (flush_page i bp)) j = Some d)"
proof (cases "\<exists>p. map_of (frames bp) i = Some p \<and> pg_dirty p")
  case True
  then obtain p where p: "map_of (frames bp) i = Some p" "pg_dirty p" by blast
  obtain r bp' where s: "save_page p bp = (r, bp')" by fastforce
  note pages = save_page_pages [OF assms p(1), unfolded s, simplified]
  have fr: "frames bp' = frames bp" using save_page_simps(1) [of p bp] s by simp
  have f: "frame_ok bp i p" using pool_inv_frame [OF assms p(1)] .
  have ok: "frame_ok bp' j q" if "map_of (frames bp) j = Some q" "j \<noteq> i" for j q
    using pool_inv_frame [OF assms that(1)] that(2) pages(1) by (simp add: frame_ok_def)
  have v: "view bp' j = Some d" if "page_ok j" "view bp j = Some d" for j d
    using that pages(1) p(1) fr by (cases "j = i") (auto simp: view_def split: option.splits)
  show ?thesis
  proof (cases r)
    case (Inl e)
    have "frame_ok bp' i p" using f p(2) by (simp add: frame_ok_def)
    then have "pool_inv bp'"
      using assms fr ok p(1) by (metis option.inject pool_inv_def)
    with v Inl s show ?thesis by (simp add: flush_page_saves p)
  next
    case (Inr u)
    let ?bp = "bp'\<lparr>frames := AList.update i (p\<lparr>pg_dirty := False\<rparr>) (frames bp)\<rparr>"
    have "frame_ok ?bp j q" if "map_of (frames ?bp) j = Some q" for j q
      using that ok [of j q] f pages(2) Inr by (cases "j = i") (auto simp: frame_ok_def)
    then have "pool_inv ?bp" using assms by (intro pool_invI) (simp_all add: pool_inv_def distinct_update)
    moreover have "view ?bp j = view bp' j" for j using p(1) fr by (simp add: view_def split: option.split)
    ultimately show ?thesis using v Inr s by (simp add: flush_page_saves p)
  qed
next
  case False
  then show ?thesis using assms flush_page_idle [of bp i] by fastforce
qed

lemmas flush_page_inv = flush_page_keeps [THEN conjunct1]
lemmas flush_page_view = flush_page_keeps [THEN conjunct2, rule_format]

lemma flush_page_frame:
  "fst (flush_page i bp) = Inr () \<Longrightarrow> map_of (frames (snd (flush_page i bp))) j =
     (if j = i then map_option (\<lambda>p. p\<lparr>pg_dirty := False\<rparr>) (map_of (frames bp) i) else map_of (frames bp) j)"
proof (cases "\<exists>p. map_of (frames bp) i = Some p \<and> pg_dirty p")
  case True
  then obtain p where p: "map_of (frames bp) i = Some p" "pg_dirty p" by blast
  assume "fst (flush_page i bp) = Inr ()"
  with p show ?thesis by (cases "save_page p bp") (auto simp: flush_page_saves split: sum.splits)
next
  case False
  then show ?thesis using flush_page_idle [of bp i] by (cases "map_of (frames bp) i") (auto simp: clean_frame)
qed

lemma flush_page_fates: "no_error (fates bp) \<Longrightarrow> fst (flush_page i bp) = Inr () \<and> no_error (fates (snd (flush_page i bp)))"
proof (cases "\<exists>p. map_of (frames bp) i = Some p \<and> pg_dirty p")
  case True
  then obtain p where p: "map_of (frames bp) i = Some p" "pg_dirty p" by blast
  assume "no_error (fates bp)"
  then have "fst (save_page p bp) = Inr () \<and> no_error (fates (snd (save_page p bp)))"
    by (cases "fates bp") (auto simp: save_page_result next_fate_def no_error_def split: fate.split)
  then show ?thesis by (cases "save_page p bp") (simp add: flush_page_saves [OF p])
next
  case False
  assume "no_error (fates bp)"
  with False show ?thesis using flush_page_idle [of bp i] by fastforce
qed

subsection \<open>Eviction and reading\<close>

lemma evict_keeps:
  assumes "pool_inv bp"
  shows "pool_inv (evict_if_needed bp) \<and>
    (no_error (fates bp) \<longrightarrow> no_error (fates (evict_if_needed bp)) \<and>
       (\<forall>j d. page_ok j \<longrightarrow> view bp j = Some d \<longrightarrow> view (evict_if_needed bp) j = Some d))"
proof (cases "length (frames bp) \<le> capacity bp \<or> lru bp = []")
  case True
  then show ?thesis using assms by (auto simp: evict_if_needed_def)
next
  case False
  then obtain i rest where l: "lru bp = i # rest" by (cases "lru bp") auto
  let ?b = "bp\<lparr>lru := rest\<rparr>"
  let ?f = "snd (flush_page i ?b)"
  let ?e = "?f\<lparr>frames := AList.delete i (frames ?f)\<rparr>"
  have e: "evict_if_needed bp = ?e" using False l by (simp add: evict_if_needed_def Let_def)
  have inv: "pool_inv ?f" using assms by (simp add: flush_page_inv)
  then have "pool_inv ?e" by (auto simp: pool_inv_def frame_ok_def distinct_delete split: if_splits)
  moreover have "no_error (fates ?e) \<and> view ?e j = Some d"
    if n: "no_error (fates bp)" and "page_ok j" "view bp j = Some d" for j d
  proof -
    have fl: "fst (flush_page i ?b) = Inr () \<and> no_error (fates ?f)" using flush_page_fates [of ?b i] n by simp
    have "\<not> pg_dirty p" if "map_of (frames ?f) i = Some p" for p
      using that flush_page_frame [of i ?b i] fl by auto
    then have "view ?e = view ?f"
      using pool_inv_frame [OF inv] by (auto simp: view_def fun_eq_iff frame_ok_def split: option.split)
    then show ?thesis using flush_page_view [of ?b j d i] assms that fl by simp
  qed
  moreover have "no_error (fates bp) \<Longrightarrow> no_error (fates ?e)" using flush_page_fates [of ?b i] by simp
  ultimately show ?thesis by (simp add: e)
qed

lemma get_page_keeps:
  assumes "pool_idle bp" "page_ok i"
  shows "pool_inv (snd (get_page i bp)) \<and>
    (no_error (fates bp) \<longrightarrow> no_error (fates (snd (get_page i bp))) \<and>
       (\<forall>j d. page_ok j \<longrightarrow> view bp j = Some d \<longrightarrow> view (snd (get_page i bp)) j = Some d))"
proof (cases "map_of (frames bp) i")
  case (Some p)
  then show ?thesis using assms by (simp add: get_page_def touch_lru_def pool_idle_def)
next
  case None
  show ?thesis
  proof (cases "load_page i bp")
    case (Inl e)
    with None assms show ?thesis by (simp add: get_page_def pool_idle_def)
  next
    case (Inr p)
    have p: "file_page bp i = Some (pg_data p)" "pg_id p = i" "\<not> pg_dirty p" "length (pg_data p) = PAGE_SIZE"
      using load_page_file_page [OF _ Inr] assms(1) by (simp_all add: pool_idle_def)
    let ?bp = "bp\<lparr>frames := AList.update i p (frames bp)\<rparr>"
    have "pool_inv ?bp"
      using assms p by (auto simp: pool_idle_def pool_inv_def frame_ok_def distinct_update split: if_splits)
    moreover have "view ?bp = view bp" using None p by (auto simp: view_def fun_eq_iff split: option.split)
    ultimately show ?thesis using evict_keeps [of ?bp] None Inr by (simp add: get_page_def)
  qed
qed

lemma get_page_returns:
  assumes "pool_idle bp" "page_ok i" "view bp i = Some d"
  shows "\<exists>p. fst (get_page i bp) = Inr p \<and> pg_id p = i \<and> pg_data p = d"
proof (cases "map_of (frames bp) i")
  case (Some p)
  then show ?thesis
    using assms pool_inv_frame [OF _ Some] by (auto simp: pool_idle_def get_page_def view_def frame_ok_def)
next
  case None
  have "pending bp = []" using assms(1) by (simp add: pool_idle_def)
  moreover from this None assms(3) obtain p where "load_page i bp = Inr p" "pg_data p = d"
    by (auto simp: view_def dest: file_page_Some)
  ultimately show ?thesis using None load_page_file_page [of bp i p] by (simp add: get_page_def)
qed

subsection \<open>Flushing everything\<close>

lemma flush_pages_keeps:
  "pool_inv bp \<Longrightarrow> pool_inv (snd (flush_pages is bp)) \<and>
     (\<forall>j d. page_ok j \<longrightarrow> view bp j = Some d \<longrightarrow> view (snd (flush_pages is bp)) j = Some d)"
proof (induction "is" arbitrary: bp)
  case (Cons i "is")
  obtain r bp1 where f: "flush_page i bp = (r, bp1)" by fastforce
  then have "pool_inv bp1" "\<And>j d. page_ok j \<Longrightarrow> view bp j = Some d \<Longrightarrow> view bp1 j = Some d"
    using flush_page_keeps [OF Cons.prems, of i] by simp_all
  then show ?case using Cons.IH [of bp1] f by (simp split: sum.split)
qed simp

lemma flush_pages_frame:
  "fst (flush_pages is bp) = Inr () \<Longrightarrow> map_of (frames (snd (flush_pages is bp))) j =
     (if j \<in> set is then map_option (\<lambda>p. p\<lparr>pg_dirty := False\<rparr>) (map_of (frames bp) j) else map_of (frames bp) j)"
proof (induction "is" arbitrary: bp)
  case (Cons i "is")
  then obtain bp1 where f: "flush_page i bp = (Inr (), bp1)" "fst (flush_pages is bp1) = Inr ()"
    by (auto split: prod.splits sum.splits)
  then show ?case
    using Cons.IH [OF f(2)] flush_page_frame [of i bp j] by (auto simp: option.map_comp comp_def)
qed simp

lemma flush_pages_fates: "no_error (fates bp) \<Longrightarrow> no_error (fates (snd (flush_pages is bp)))"
proof (induction "is" arbitrary: bp)
  case (Cons i "is")
  obtain r bp1 where f: "flush_page i bp = (r, bp1)" by fastforce
  then have "no_error (fates bp1)" using flush_page_fates [OF Cons.prems, of i] by simp
  then show ?case using Cons.IH [of bp1] f by (simp split: sum.split)
qed simp

lemma flush_all_clean:
  assumes "fst (flush_all bp) = Inr ()" "map_of (frames (snd (flush_all bp))) j = Some p"
  shows "\<not> pg_dirty p"
proof -
  let ?is = "map fst (filter (\<lambda>(i, p). pg_dirty p) (frames bp))"
  from assms obtain q where q: "map_of (frames bp) j = Some q" "p = (if j \<in> set ?is then q\<lparr>pg_dirty := False\<rparr> else q)"
    using flush_pages_frame [of ?is bp j] by (auto simp: flush_all_def split: if_splits)
  show ?thesis
  proof (cases "pg_dirty q")
    case True
    with q(1) have "j \<in> set ?is" by (force dest: map_of_SomeD)
    with q(2) show ?thesis by simp
  qed (simp add: q(2))
qed

lemma pool_idle_new: "pool_idle ((new_pool cap f)\<lparr>fates := fs\<rparr>)"
  by (simp add: pool_idle_def pool_inv_def new_pool_def)

lemma calm_new: "no_error fs \<Longrightarrow> calm ((new_pool cap f)\<lparr>fates := fs\<rparr>)"
  by (simp add: calm_def pool_idle_new)

lemma view_new: "view ((new_pool cap f)\<lparr>fates := fs\<rparr>) = view (new_pool cap f)"
  by (simp add: view_def new_pool_def file_page_def load_page_def settle_idle fun_eq_iff)

lemma pool_step_idle: "pool_inv (pool_call p bp) \<Longrightarrow> pool_idle (pool_step p bp)"
  by (simp add: pool_idle_def pool_step_def)

section \<open>The contract of a page cache\<close>

text \<open>
  What the tree relies on. A page store keeps its invariant whatever is done with it; a page
  cache is one in which pages also come back as they were last put, whatever is evicted in between.
  The pool is the one on any disk, and the other on a disk that fails no write.
\<close>

locale page_store =
  fixes inv :: "'s \<Rightarrow> bool" and step :: "pool_op \<Rightarrow> 's \<Rightarrow> 's"
  assumes step_inv: "inv s \<Longrightarrow> op_ok p \<Longrightarrow> inv (step p s)"
begin

lemma steps_inv: "inv s \<Longrightarrow> list_all op_ok ps \<Longrightarrow> inv (fold step ps s)"
  by (induction ps arbitrary: s) (simp_all add: step_inv)

end

locale page_cache = page_store +
  fixes look :: "'a \<Rightarrow> u64 \<Rightarrow> u8 list option"
  assumes step_look: "inv s \<Longrightarrow> op_ok p \<Longrightarrow> page_ok j \<Longrightarrow> spec_step p (look s) j = Some d \<Longrightarrow> look (step p s) j = Some d"
begin

lemma spec_mono:
  "(\<And>i d. page_ok i \<Longrightarrow> m i = Some d \<Longrightarrow> m' i = Some d) \<Longrightarrow> page_ok j \<Longrightarrow>
   fold spec_step ps m j = Some d \<Longrightarrow> fold spec_step ps m' j = Some d"
proof (induction ps arbitrary: m m')
  case (Cons p ps)
  have "spec_step p m' i = Some d" if "page_ok i" "spec_step p m i = Some d" for i d
    using that Cons.prems(1) by (cases p) (auto split: if_splits)
  then show ?case using Cons.IH [of "spec_step p m" "spec_step p m'"] Cons.prems(2,3) by simp
qed simp

lemma steps_look:
  "inv s \<Longrightarrow> list_all op_ok ps \<Longrightarrow> page_ok j \<Longrightarrow> fold spec_step ps (look s) j = Some d \<Longrightarrow> look (fold step ps s) j = Some d"
proof (induction ps arbitrary: s)
  case (Cons p ps)
  have "fold spec_step ps (look (step p s)) j = Some d"
    using spec_mono [of "spec_step p (look s)" "look (step p s)" j ps d] step_look [of s p] Cons.prems by simp
  then show ?case using Cons.IH [of "step p s"] Cons.prems step_inv by simp
qed simp

end

lemma pool_call_inv: "pool_idle s \<Longrightarrow> op_ok p \<Longrightarrow> pool_inv (pool_call p s)"
  by (cases p) (simp_all add: get_page_keeps put_page_inv mark_dirty_inv flush_page_inv flush_all_def flush_pages_keeps, simp_all add: pool_idle_def put_page_inv mark_dirty_inv flush_page_inv flush_pages_keeps)

interpretation kept: page_store pool_idle pool_step
  by unfold_locales (simp add: pool_step_idle pool_call_inv)

lemma pool_call_fates: "calm s \<Longrightarrow> op_ok p \<Longrightarrow> no_error (fates (pool_call p s))"
  by (cases p) (auto simp: calm_def get_page_keeps put_page_def touch_lru_def mark_dirty_def flush_page_fates
      flush_all_def flush_pages_fates split: option.split)

lemma pool_call_view:
  "calm s \<Longrightarrow> op_ok p \<Longrightarrow> page_ok j \<Longrightarrow> spec_step p (view s) j = Some d \<Longrightarrow> view (pool_call p s) j = Some d"
  by (cases p) (auto simp: calm_def pool_idle_def put_page_view mark_dirty_inv flush_page_view flush_all_def flush_pages_keeps
      dest: get_page_keeps [rotated] split: if_splits)

interpretation cache: page_cache calm pool_step view
proof
  fix s p assume *: "calm s" "op_ok p"
  show "calm (pool_step p s)"
    using kept.step_inv [of s p] pool_call_fates * by (simp add: calm_def) (simp add: pool_step_def)
  fix j d assume "page_ok j" "spec_step p (view s) j = Some d"
  with * show "view (pool_step p s) j = Some d" by (simp add: pool_step_def pool_call_view)
qed

section \<open>Properties\<close>

text \<open>
  C21. On a disk that fails no write, and does the writes of one operation before the next (whether
  or not \<^verbatim>\<open>save_page\<close> waits for them), the buffer pool is transparent. Start it on any file with any capacity and put
  dirty pages, get, mark and flush pages in any order, one operation after another and with page numbers below
  \<open>2 ^ 52\<close>: a page that was put is read back with the bytes it was put with last, and a
  page of the file that was never put with the bytes of the file, whichever pages were evicted meanwhile.
\<close>

theorem pool_transparent:
  assumes "no_error fs" "list_all op_ok ps" "page_ok i" "fold spec_step ps (view (new_pool cap f)) i = Some d"
  shows "\<exists>p. fst (get_page i (fold pool_step ps ((new_pool cap f)\<lparr>fates := fs\<rparr>))) = Inr p \<and> pg_id p = i \<and> pg_data p = d"
  using get_page_returns cache.steps_inv cache.steps_look calm_new assms view_new calm_def by metis

theorem pool_transparent_witness:
  "let pg = \<lambda>i b. \<lparr>pg_id = i, pg_data = replicate PAGE_SIZE b, pg_dirty = True\<rparr>;
       ps = [Put_page (pg 1 7), Put_page (pg 2 8), Put_page (pg 1 9), Flush_page 2, Get_page 3, Mark_dirty 3] in
   \<exists>p. fst (get_page 1 (fold pool_step ps ((new_pool 1 (Some (replicate 16384 5)))\<lparr>fates := [Write_late, Write_done]\<rparr>))) =
     Inr p \<and> pg_id p = 1 \<and> pg_data p = replicate PAGE_SIZE 9"
  unfolding Let_def by (rule pool_transparent) (simp_all add: handed_over_def page_ok_def no_error_def)



text \<open>
  C24. A write that fails while a page is evicted loses the page. When \<^verbatim>\<open>get_page\<close> loads a page into a full pool, the page that
  was not used for longest is written and dropped, and the result of the write is ignored: the
  call succeeds, the dirty page is no longer in the pool, and the file has only those of its bytes that were written
  before the error, so that the next read gives the old bytes (when nothing was written) or a mixture. A write that is late
  is not lost, but until it is done a read gives the old bytes too.
\<close>

theorem failed_eviction_loses_page:
  assumes "pool_idle bp" "map_of (frames bp) i = None" "load_page i bp = Inr p" "capacity bp \<le> length (frames bp)"
    and "lru bp = j # rest" "map_of (frames bp) j = Some q" "pg_dirty q" "bp' = snd (get_page i bp)"
  shows "fst (get_page i bp) = Inr p \<and> map_of (frames bp') j = None \<and> fst (get_page j bp') = load_page j bp' \<and>
    (\<forall>n. next_fate bp = Write_error n \<longrightarrow>
       db_file bp' = write_at (page_offset j) (take n (pg_data q)) (db_file bp) \<and> pending bp' = [] \<and>
       (n = 0 \<longrightarrow> load_page j bp' = load_page j bp)) \<and>
    (next_fate bp = Write_late \<longrightarrow> load_page j bp' = load_page j bp \<and> view (settle bp') j = Some (pg_data q))"
proof -
  have "j \<noteq> i" using assms(2,6) by auto
  let ?b = "bp\<lparr>frames := AList.update i p (frames bp), lru := rest\<rparr>"
  have m: "map_of (frames ?b) j = Some q" using \<open>j \<noteq> i\<close> assms(6) by simp
  have "length (AList.update i p (frames bp)) = Suc (length (frames bp))"
    using assms(2) update_keys [of i p "frames bp"] by (auto simp: map_of_eq_None_iff dest: arg_cong [where f = length])
  then have g: "get_page i bp = (Inr p, (snd (flush_page j ?b))\<lparr>frames := AList.delete j (frames (snd (flush_page j ?b)))\<rparr>)"
    using assms by (simp add: get_page_def evict_if_needed_def Let_def)
  have q: "pg_id q = j" "length (pg_data q) = PAGE_SIZE" "pending bp = []"
    using assms(1) pool_inv_frame [OF _ assms(6)] by (simp_all add: pool_idle_def frame_ok_def)
  have saved: "db_file bp' = db_file (snd (save_page q ?b))" "pending bp' = pending (snd (save_page q ?b))" "map_of (frames bp') j = None"
    using g assms(7,8) flush_page_saves [OF m assms(7)] by (auto split: prod.split sum.split)
  have late: "view (settle bp') j = Some (pg_data q)" if "next_fate bp = Write_late"
  proof -
    have "db_file (settle bp') = write_at (page_offset j) (pg_data q) (db_file (settle ?b))"
      using save_page_settled [OF q(2), of ?b] saved(1,2) that q by (simp add: settle_def next_fate_def)
    then show ?thesis using write_at_same [OF q(2)] saved(3) by (simp add: view_def)
  qed
  have "load_page j bp' = load_page j bp" if "db_file bp' = db_file bp" using that by (simp add: load_page_def)
  then show ?thesis
    using g saved late q by (auto simp: get_page_def save_page_def next_fate_def settle_def write_at_def Let_def split: sum.split)
qed

theorem failed_eviction_loses_page_witness:
  "let q = \<lparr>pg_id = 1, pg_data = replicate PAGE_SIZE 9, pg_dirty = True\<rparr>;
       bp = \<lparr>frames = [(1, q)], lru = [1], capacity = 1, db_file = Some (replicate 16384 5), fates = [Write_error 0], pending = []\<rparr> in
   fst (get_page 1 bp) = Inr q \<and>
   fst (get_page 1 (snd (get_page 3 bp))) = Inr \<lparr>pg_id = 1, pg_data = replicate PAGE_SIZE 5, pg_dirty = False\<rparr>"
proof -
  define q where "q = \<lparr>pg_id = 1, pg_data = replicate PAGE_SIZE 9, pg_dirty = True\<rparr>"
  define bp where "bp = \<lparr>frames = [(1, q)], lru = [1], capacity = 1, db_file = Some (replicate 16384 5), fates = [Write_error 0], pending = []\<rparr>"
  have l: "load_page i bp = Inr \<lparr>pg_id = i, pg_data = replicate PAGE_SIZE 5, pg_dirty = False\<rparr>" if "i = 1 \<or> i = 3" for i
    using that by (auto simp: bp_def load_page_def page_offset_def PAGE_SIZE_def slice_def)
  have "pool_idle bp" by (simp add: pool_idle_def pool_inv_def bp_def q_def frame_ok_def page_ok_def)
  then have "fst (get_page 1 (snd (get_page 3 bp))) = load_page 1 bp"
    using failed_eviction_loses_page [of bp 3 _ 1 "[]" q, OF _ _ l _ _ _ _ refl] by (simp add: bp_def q_def next_fate_def)
  moreover have "fst (get_page 1 bp) = Inr q" by (simp add: bp_def get_page_def)
  ultimately show ?thesis using l [of 1] by (simp add: bp_def q_def)
qed

end
