(* ===== verification/Storage_BTree.thy ===== *)
theory Storage_BTree
  imports Storage_Pool
begin

section \<open>The storage engine\<close>

text \<open>
  \<^verbatim>\<open>redisdb/src/btree/btree.rs\<close> and \<^verbatim>\<open>storage.rs\<close>: the nodes on their pages, the B-tree over the buffer pool
  and the log, and the storage that opens them. The tree is a graph of page numbers that the file
  decides, so its recursive functions take fuel, a bound on the depth; running out of it is a
  result of its own. An operation under the locks of the tree is one step.
\<close>

subsection \<open>Results\<close>

datatype halt = Panic panic | Failed db_error | No_fuel

type_synonym 'a outcome = "halt + 'a"

subsection \<open>Nodes\<close>

definition ORDER :: nat where "ORDER = 64"
definition HEADER_SIZE :: nat where "HEADER_SIZE = 32"
definition KEY_SIZE :: nat where "KEY_SIZE = 32"
definition VALUE_SIZE :: nat where "VALUE_SIZE = 64"

record btree_node =
  is_leaf :: bool
  num_keys :: u32
  parent_id :: u64
  next_leaf :: u64

definition from_page :: "page \<Rightarrow> btree_node run" where
  "from_page p =
     run_bind (read_u32 0 p) (\<lambda>leaf. run_bind (read_u32 1 p) (\<lambda>n.
     run_bind (read_u64 5 p) (\<lambda>parent. run_bind (read_u64 13 p) (\<lambda>nxt.
       Inr \<lparr>is_leaf = (leaf = 1), num_keys = n, parent_id = parent, next_leaf = nxt\<rparr>))))"

definition save_to_page :: "btree_node \<Rightarrow> page \<Rightarrow> page run" where
  "save_to_page nd p =
     run_bind (write_u32 0 (if is_leaf nd then 1 else 0) p) (\<lambda>p1.
     run_bind (write_u32 1 (num_keys nd) p1) (\<lambda>p2.
     run_bind (write_u64 5 (parent_id nd) p2) (\<lambda>p3. write_u64 13 (next_leaf nd) p3)))"

definition key_offset :: "nat \<Rightarrow> nat" where "key_offset i = HEADER_SIZE + i * (KEY_SIZE + VALUE_SIZE)"
definition value_offset :: "nat \<Rightarrow> nat" where "value_offset i = HEADER_SIZE + i * (KEY_SIZE + VALUE_SIZE) + KEY_SIZE"
definition child_offset :: "nat \<Rightarrow> nat" where "child_offset i = HEADER_SIZE + ORDER * (KEY_SIZE + VALUE_SIZE) + i * 8"

text \<open>Keys and values are cut off or filled with zeros.\<close>

definition fixed :: "nat \<Rightarrow> u8 list \<Rightarrow> u8 list" where
  "fixed n bs = take n bs @ replicate (n - length bs) 0"

definition read_key :: "nat \<Rightarrow> page \<Rightarrow> u8 list run" where "read_key i p = read_slice (key_offset i) KEY_SIZE p"
definition write_key :: "nat \<Rightarrow> u8 list \<Rightarrow> page \<Rightarrow> page run" where "write_key i k p = write_slice (key_offset i) (fixed KEY_SIZE k) p"
definition read_value :: "nat \<Rightarrow> page \<Rightarrow> u8 list run" where "read_value i p = read_slice (value_offset i) VALUE_SIZE p"
definition write_value :: "nat \<Rightarrow> u8 list \<Rightarrow> page \<Rightarrow> page run" where "write_value i v p = write_slice (value_offset i) (fixed VALUE_SIZE v) p"
definition read_child_id :: "nat \<Rightarrow> page \<Rightarrow> u64 run" where "read_child_id i p = read_u64 (child_offset i) p"
definition write_child_id :: "nat \<Rightarrow> u64 \<Rightarrow> page \<Rightarrow> page run" where "write_child_id i c p = write_u64 (child_offset i) c p"

subsection \<open>The tree\<close>

record tree =
  t_pool :: pool
  t_wal :: wal
  t_root :: u64
  t_next :: u64

type_synonym 'a op = "tree \<Rightarrow> 'a outcome \<times> tree"

definition op_return :: "'a \<Rightarrow> 'a op" where
  "op_return x t = (Inr x, t)"

definition op_bind :: "'a op \<Rightarrow> ('a \<Rightarrow> 'b op) \<Rightarrow> 'b op" where
  "op_bind m f t = (case m t of (Inl e, t1) \<Rightarrow> (Inl e, t1) | (Inr x, t1) \<Rightarrow> f x t1)"

definition op_run :: "'a run \<Rightarrow> 'a op" where
  "op_run r t = (case r of Inl p \<Rightarrow> (Inl (Panic p), t) | Inr x \<Rightarrow> (Inr x, t))"

definition op_halt :: "halt \<Rightarrow> 'a op" where
  "op_halt e t = (Inl e, t)"

definition fetch :: "u64 \<Rightarrow> page op" where
  "fetch i t = (case get_page i (t_pool t) of
     (Inl e, bp) \<Rightarrow> (Inl (Failed e), t\<lparr>t_pool := bp\<rparr>) | (Inr p, bp) \<Rightarrow> (Inr p, t\<lparr>t_pool := bp\<rparr>))"

definition keep :: "page \<Rightarrow> unit op" where
  "keep p t = (Inr (), t\<lparr>t_pool := put_page p (t_pool t)\<rparr>)"

definition logged :: "(wal \<Rightarrow> (wal_error + unit) \<times> wal) \<Rightarrow> unit op" where
  "logged f t = (case f (t_wal t) of
     (Inl e, w) \<Rightarrow> (Inl (Failed (Db_wal e)), t\<lparr>t_wal := w\<rparr>) | (Inr _, w) \<Rightarrow> (Inr (), t\<lparr>t_wal := w\<rparr>))"

text \<open>\<^verbatim>\<open>put_page\<close> followed by \<^verbatim>\<open>append_write\<close> of the page.\<close>

definition keep_logged :: "page \<Rightarrow> unit op" where
  "keep_logged p = op_bind (keep p) (\<lambda>_. logged (append_write (pg_id p) (pg_data p)))"

definition alloc_page :: "u64 op" where
  "alloc_page t = (Inr (t_next t), t\<lparr>t_next := t_next t + 1\<rparr>)"

definition set_root :: "u64 \<Rightarrow> unit op" where
  "set_root i t = (Inr (), t\<lparr>t_root := i\<rparr>)"

text \<open>The first index from \<open>is\<close> whose key passes the test, and the child the descent goes to.\<close>

fun first_key :: "(u8 list \<Rightarrow> bool) \<Rightarrow> page \<Rightarrow> nat list \<Rightarrow> nat option run" where
  "first_key t p [] = Inr None"
| "first_key t p (i # is) = run_bind (read_key i p) (\<lambda>k. if t k then Inr (Some i) else first_key t p is)"

definition child_for :: "(u8 list \<Rightarrow> bool) \<Rightarrow> btree_node \<Rightarrow> page \<Rightarrow> u64 run" where
  "child_for t nd p =
     (let n = unat (num_keys nd) in
      run_bind (first_key t p [0..<n]) (\<lambda>r. read_child_id (case r of Some i \<Rightarrow> i | None \<Rightarrow> n) p))"

definition with_node :: "u64 \<Rightarrow> (page \<Rightarrow> btree_node \<Rightarrow> 'a op) \<Rightarrow> 'a op" where
  "with_node i f = op_bind (fetch i) (\<lambda>p. op_bind (op_run (from_page p)) (\<lambda>nd. f p nd))"

fun find_value :: "nat \<Rightarrow> u64 \<Rightarrow> u8 list \<Rightarrow> u8 list option op" where
  "find_value 0 i key = op_halt No_fuel"
| "find_value (Suc fuel) i key =
     with_node i (\<lambda>p nd.
       if is_leaf nd then
         op_bind (op_run (first_key (\<lambda>k. k = key) p [0..<unat (num_keys nd)])) (\<lambda>r.
           case r of
             None \<Rightarrow> op_return None
           | Some j \<Rightarrow> op_bind (op_run (read_value j p)) (\<lambda>v. op_return (Some v)))
       else op_bind (op_run (child_for (\<lambda>k. key < k) nd p)) (\<lambda>c. find_value fuel c key))"

subsection \<open>Insertion\<close>

text \<open>The loop of \<^verbatim>\<open>insert_into_leaf\<close>: the index of the key, or where it belongs.\<close>

fun leaf_position :: "u8 list \<Rightarrow> page \<Rightarrow> nat list \<Rightarrow> nat \<Rightarrow> (nat + nat) run" where
  "leaf_position key p [] pos = Inr (Inr pos)"
| "leaf_position key p (i # is) pos =
     run_bind (read_key i p) (\<lambda>k.
       if k = key then Inr (Inl i) else leaf_position key p is (if k < key then i + 1 else pos))"

fun move_entries :: "(nat \<times> nat) list \<Rightarrow> page \<Rightarrow> page run" where
  "move_entries [] p = Inr p"
| "move_entries ((i, j) # ms) p =
     run_bind (read_key i p) (\<lambda>k. run_bind (read_value i p) (\<lambda>v.
     run_bind (write_key j k p) (\<lambda>p1. run_bind (write_value j v p1) (\<lambda>p2. move_entries ms p2))))"

fun copy_entries :: "(nat \<times> nat) list \<Rightarrow> page \<Rightarrow> page \<Rightarrow> page run" where
  "copy_entries [] src dst = Inr dst"
| "copy_entries ((i, j) # ms) src dst =
     run_bind (read_key i src) (\<lambda>k. run_bind (read_value i src) (\<lambda>v.
     run_bind (write_key j k dst) (\<lambda>d1. run_bind (write_value j v d1) (\<lambda>d2. copy_entries ms src d2))))"

definition new_root :: "u8 list \<Rightarrow> u64 \<Rightarrow> u64 \<Rightarrow> unit op" where
  "new_root key left right =
     op_bind alloc_page (\<lambda>root.
     op_bind (op_run (run_bind (write_key 0 key (new_page root)) (\<lambda>p1.
                      run_bind (write_child_id 0 left p1) (\<lambda>p2.
                      run_bind (write_child_id 1 right p2) (\<lambda>p3.
                        save_to_page \<lparr>is_leaf = False, num_keys = 1, parent_id = 0, next_leaf = 0\<rparr> p3))))) (\<lambda>p.
     op_bind (keep_logged p) (\<lambda>_. set_root root)))"

text \<open>Keys and children of an internal node, moved up by one place.\<close>

fun move_children :: "(nat \<times> nat) list \<Rightarrow> page \<Rightarrow> page run" where
  "move_children [] p = Inr p"
| "move_children ((i, j) # ms) p =
     run_bind (read_key i p) (\<lambda>k. run_bind (read_child_id (i + 1) p) (\<lambda>c.
     run_bind (write_key j k p) (\<lambda>p1. run_bind (write_child_id (j + 1) c p1) (\<lambda>p2. move_children ms p2))))"

fun copy_children :: "(nat \<times> nat) list \<Rightarrow> page \<Rightarrow> page \<Rightarrow> page run" where
  "copy_children [] src dst = Inr dst"
| "copy_children ((i, j) # ms) src dst =
     run_bind (read_key i src) (\<lambda>k. run_bind (read_child_id i src) (\<lambda>c.
     run_bind (write_key j k dst) (\<lambda>d1. run_bind (write_child_id j c d1) (\<lambda>d2. copy_children ms src d2))))"

fun key_position :: "u8 list \<Rightarrow> page \<Rightarrow> nat list \<Rightarrow> nat \<Rightarrow> nat run" where
  "key_position key p [] pos = Inr pos"
| "key_position key p (i # is) pos =
     run_bind (read_key i p) (\<lambda>k. key_position key p is (if k < key then i + 1 else pos))"

fun insert_into_internal :: "nat \<Rightarrow> u64 \<Rightarrow> u8 list \<Rightarrow> u64 \<Rightarrow> u64 \<Rightarrow> unit op"
  and split_internal :: "nat \<Rightarrow> u64 \<Rightarrow> unit op" where
  "insert_into_internal 0 i key left right = op_halt No_fuel"
| "insert_into_internal (Suc fuel) i key left right =
     with_node i (\<lambda>p nd.
       let n = unat (num_keys nd); nd1 = nd\<lparr>num_keys := num_keys nd + 1\<rparr> in
       op_bind (op_run (run_bind (key_position key p [0..<n] 0) (\<lambda>pos.
                        run_bind (move_children (map (\<lambda>j. (j, j + 1)) (rev [pos..<n])) p) (\<lambda>p1.
                        run_bind (write_key pos key p1) (\<lambda>p2.
                        run_bind (write_child_id pos left p2) (\<lambda>p3.
                        run_bind (write_child_id (pos + 1) right p3) (\<lambda>p4. save_to_page nd1 p4))))))) (\<lambda>p5.
       op_bind (keep_logged p5) (\<lambda>_.
         if ORDER \<le> unat (num_keys nd1) then split_internal fuel i else op_return ())))"
| "split_internal 0 i = op_halt No_fuel"
| "split_internal (Suc fuel) i =
     with_node i (\<lambda>p nd.
       let n = unat (num_keys nd); mid = n div 2 in
       op_bind alloc_page (\<lambda>right.
       op_bind (op_run (run_bind (copy_children (map (\<lambda>j. (j, j - (mid + 1))) [mid + 1..<n]) p (new_page right)) (\<lambda>r1.
                        run_bind (read_child_id n p) (\<lambda>c.
                        run_bind (write_child_id (n - (mid + 1)) c r1) (\<lambda>r2.
                          save_to_page \<lparr>is_leaf = False, num_keys = of_nat (n - (mid + 1)), parent_id = parent_id nd, next_leaf = 0\<rparr> r2))))) (\<lambda>r3.
       op_bind (keep_logged r3) (\<lambda>_.
       op_bind (op_run (save_to_page (nd\<lparr>num_keys := of_nat mid\<rparr>) (p\<lparr>pg_dirty := True\<rparr>))) (\<lambda>l.
       op_bind (keep_logged l) (\<lambda>_.
       op_bind (op_run (read_key mid p)) (\<lambda>key.
         if parent_id nd = 0 then new_root key i right else insert_into_internal fuel (parent_id nd) key i right)))))))"

definition split_leaf :: "nat \<Rightarrow> u64 \<Rightarrow> unit op" where
  "split_leaf fuel i =
     with_node i (\<lambda>p nd.
       let n = unat (num_keys nd); mid = n div 2 in
       op_bind alloc_page (\<lambda>right.
       op_bind (op_run (run_bind (copy_entries (map (\<lambda>j. (j, j - mid)) [mid..<n]) p (new_page right)) (\<lambda>r1.
                  save_to_page \<lparr>is_leaf = True, num_keys = of_nat (n - mid), parent_id = parent_id nd, next_leaf = next_leaf nd\<rparr> r1))) (\<lambda>r2.
       op_bind (keep_logged r2) (\<lambda>_.
       op_bind (op_run (save_to_page (nd\<lparr>num_keys := of_nat mid, next_leaf := right\<rparr>) (p\<lparr>pg_dirty := True\<rparr>))) (\<lambda>l.
       op_bind (keep_logged l) (\<lambda>_.
       op_bind (op_run (read_key mid p)) (\<lambda>key.
         if parent_id nd = 0 then new_root key i right else insert_into_internal fuel (parent_id nd) key i right)))))))"

definition insert_into_leaf :: "nat \<Rightarrow> u64 \<Rightarrow> u8 list \<Rightarrow> u8 list \<Rightarrow> unit op" where
  "insert_into_leaf fuel i key val =
     with_node i (\<lambda>p nd.
       let n = unat (num_keys nd); nd1 = nd\<lparr>num_keys := num_keys nd + 1\<rparr> in
       op_bind (op_run (leaf_position key p [0..<n] 0)) (\<lambda>r.
         case r of
           Inl j \<Rightarrow> op_bind (op_run (write_value j val p)) keep_logged
         | Inr pos \<Rightarrow>
             op_bind (op_run (run_bind (move_entries (map (\<lambda>j. (j, j + 1)) (rev [pos..<n])) p) (\<lambda>p1.
                              run_bind (write_key pos key p1) (\<lambda>p2.
                              run_bind (write_value pos val p2) (\<lambda>p3. save_to_page nd1 p3))))) (\<lambda>p4.
             op_bind (keep_logged p4) (\<lambda>_.
               if ORDER \<le> unat (num_keys nd1) then split_leaf fuel i else op_return ()))))"

fun insert_into :: "nat \<Rightarrow> u64 \<Rightarrow> u8 list \<Rightarrow> u8 list \<Rightarrow> unit op" where
  "insert_into 0 i key val = op_halt No_fuel"
| "insert_into (Suc fuel) i key val =
     with_node i (\<lambda>p nd.
       if is_leaf nd then insert_into_leaf fuel i key val
       else op_bind (op_run (child_for (\<lambda>k. key < k) nd p)) (\<lambda>c. insert_into fuel c key val))"

subsection \<open>Deletion, scans and counting\<close>

definition delete_from_leaf :: "u64 \<Rightarrow> u8 list \<Rightarrow> bool op" where
  "delete_from_leaf i key =
     with_node i (\<lambda>p nd.
       let n = unat (num_keys nd) in
       op_bind (op_run (first_key (\<lambda>k. k = key) p [0..<n])) (\<lambda>r.
         case r of
           None \<Rightarrow> op_return False
         | Some pos \<Rightarrow>
             op_bind (op_run (run_bind (move_entries (map (\<lambda>j. (j + 1, j)) [pos..<n - 1]) p) (\<lambda>p1.
                        save_to_page (nd\<lparr>num_keys := num_keys nd - 1\<rparr>) (p1\<lparr>pg_dirty := True\<rparr>)))) (\<lambda>p2.
             op_bind (keep p2) (\<lambda>_. op_return True))))"

fun delete_from :: "nat \<Rightarrow> u64 \<Rightarrow> u8 list \<Rightarrow> bool op" where
  "delete_from 0 i key = op_halt No_fuel"
| "delete_from (Suc fuel) i key =
     with_node i (\<lambda>p nd.
       if is_leaf nd then delete_from_leaf i key
       else op_bind (op_run (child_for (\<lambda>k. key \<le> k) nd p)) (\<lambda>c. delete_from fuel c key))"

fun read_entries :: "u8 list \<Rightarrow> u8 list \<Rightarrow> page \<Rightarrow> nat list \<Rightarrow> (u8 list \<times> u8 list) list run" where
  "read_entries a b p [] = Inr []"
| "read_entries a b p (i # is) =
     run_bind (read_key i p) (\<lambda>k.
     run_bind (if a \<le> k \<and> k \<le> b then run_bind (read_value i p) (\<lambda>v. Inr [(k, v)]) else Inr []) (\<lambda>e.
     run_bind (read_entries a b p is) (\<lambda>es. Inr (e @ es))))"

fun scan_range :: "nat \<Rightarrow> u64 \<Rightarrow> u8 list \<Rightarrow> u8 list \<Rightarrow> (u8 list \<times> u8 list) list op"
  and scan_children :: "nat \<Rightarrow> page \<Rightarrow> nat list \<Rightarrow> u8 list \<Rightarrow> u8 list \<Rightarrow> (u8 list \<times> u8 list) list op" where
  "scan_range 0 i a b = op_halt No_fuel"
| "scan_range (Suc fuel) i a b =
     with_node i (\<lambda>p nd.
       let n = unat (num_keys nd) in
       if is_leaf nd then op_run (read_entries a b p [0..<n])
       else
         op_bind (scan_children fuel p [0..<n] a b) (\<lambda>es.
         op_bind (op_run (read_child_id n p)) (\<lambda>c.
         op_bind (scan_range fuel c a b) (\<lambda>es'. op_return (es @ es')))))"
| "scan_children fuel p [] a b = op_return []"
| "scan_children fuel p (j # js) a b =
     op_bind (op_run (read_key j p)) (\<lambda>k.
     op_bind (if a < k
              then op_bind (op_run (read_child_id j p)) (\<lambda>c. scan_range fuel c a b)
              else op_return []) (\<lambda>es.
     op_bind (scan_children fuel p js a b) (\<lambda>es'. op_return (es @ es'))))"

fun count_keys :: "nat \<Rightarrow> u64 \<Rightarrow> nat op"
  and count_children :: "nat \<Rightarrow> page \<Rightarrow> nat list \<Rightarrow> nat op" where
  "count_keys 0 i = op_halt No_fuel"
| "count_keys (Suc fuel) i =
     with_node i (\<lambda>p nd.
       let n = unat (num_keys nd) in
       if is_leaf nd then op_return n else count_children fuel p [0..<n + 1])"
| "count_children fuel p [] = op_return 0"
| "count_children fuel p (j # js) =
     op_bind (op_run (read_child_id j p)) (\<lambda>c.
     op_bind (count_keys fuel c) (\<lambda>m.
     op_bind (count_children fuel p js) (\<lambda>r. op_return (m + r))))"

subsection \<open>The operations of the tree and of the storage\<close>

definition new_tree :: "pool \<Rightarrow> wal \<Rightarrow> tree" where
  "new_tree bp w = \<lparr>t_pool = bp, t_wal = w, t_root = 0, t_next = 1\<rparr>"

definition replayed_page :: "u64 \<times> u8 list \<Rightarrow> page" where
  "replayed_page e = \<lparr>pg_id = fst e, pg_data = (if length (snd e) = PAGE_SIZE then snd e else replicate PAGE_SIZE 0), pg_dirty = True\<rparr>"

definition init :: "unit op" where
  "init t =
     (if 0 < file_size (t_pool t) then
        (case wal_replay (t_wal t) of
           Inl e \<Rightarrow> (Inl (Failed (Db_wal e)), t)
         | Inr es \<Rightarrow> (Inr (), t\<lparr>t_pool := fold (\<lambda>e. put_page (replayed_page e)) es (t_pool t)\<rparr>))
      else
        op_bind alloc_page (\<lambda>root.
        op_bind (op_run (save_to_page \<lparr>is_leaf = True, num_keys = 0, parent_id = 0, next_leaf = 0\<rparr> (new_page root))) (\<lambda>p.
        op_bind (keep p) (\<lambda>_. set_root root))) t)"

definition tree_get :: "nat \<Rightarrow> u8 list \<Rightarrow> u8 list option op" where
  "tree_get fuel key t = find_value fuel (t_root t) key t"

definition begin_tx :: "u64 op" where
  "begin_tx t = (case next_tx_id (t_wal t) of (tx, w) \<Rightarrow> (Inr tx, t\<lparr>t_wal := w\<rparr>))"

definition tree_put :: "nat \<Rightarrow> u8 list \<Rightarrow> u8 list \<Rightarrow> unit op" where
  "tree_put fuel key val t =
     op_bind begin_tx (\<lambda>tx. op_bind (insert_into fuel (t_root t) key val) (\<lambda>_. logged (append_commit tx))) t"

definition tree_delete :: "nat \<Rightarrow> u8 list \<Rightarrow> bool op" where
  "tree_delete fuel key t =
     op_bind begin_tx (\<lambda>tx. op_bind (delete_from fuel (t_root t) key) (\<lambda>r.
     op_bind (logged (append_commit tx)) (\<lambda>_. op_return r))) t"

definition tree_scan :: "nat \<Rightarrow> u8 list \<Rightarrow> u8 list \<Rightarrow> (u8 list \<times> u8 list) list op" where
  "tree_scan fuel a b t = scan_range fuel (t_root t) a b t"

definition tree_count :: "nat \<Rightarrow> nat op" where
  "tree_count fuel t = count_keys fuel (t_root t) t"

text \<open>\<^verbatim>\<open>Storage::new\<close> on the files as they are, and \<^verbatim>\<open>Storage::init\<close>.\<close>

definition new_storage :: "u8 list option \<Rightarrow> u8 list option \<Rightarrow> tree" where
  "new_storage db log = new_tree (new_pool 1024 db) (new_wal log)"

definition storage_init :: "unit op" where
  "storage_init t = init (t\<lparr>t_wal := wal_open (t_wal t)\<rparr>)"

definition storage_flush :: "unit op" where
  "storage_flush t =
     (case flush_all (t_pool t) of
        (Inl e, bp) \<Rightarrow> (Inl (Failed e), t\<lparr>t_pool := bp\<rparr>) | (Inr _, bp) \<Rightarrow> (Inr (), t\<lparr>t_pool := bp\<rparr>))"

section \<open>Lemmas\<close>

subsection \<open>Slices of a page\<close>

text \<open>A page as the type of the code has it.\<close>

definition full :: "page \<Rightarrow> bool" where
  "full p \<longleftrightarrow> length (pg_data p) = PAGE_SIZE"

lemma full_new_page [simp]: "full (new_page i)"
  by (simp add: full_def new_page_def)

lemma write_slice_full:
  "full p \<Longrightarrow> offset + length bs \<le> PAGE_SIZE \<Longrightarrow>
   \<exists>p'. write_slice offset bs p = Inr p' \<and> full p' \<and> pg_id p' = pg_id p"
  by (simp add: full_def write_slice_def)

lemma u32_bytes_flag: "u32_bytes (if b then 1 else 0) = [if b then 1 else 0, 0, 0, 0]"
  by (simp add: u32_bytes_def le_bytes_4)

text \<open>The four fields of the header, as \<^verbatim>\<open>save_to_page\<close> leaves them: the second overwrites three bytes of the first.\<close>

lemma save_to_page_data:
  assumes "full p"
  shows "save_to_page nd p = Inr (p\<lparr>pg_data := (if is_leaf nd then 1 else 0) # u32_bytes (num_keys nd) @ u64_bytes (parent_id nd) @
    u64_bytes (next_leaf nd) @ drop 21 (pg_data p), pg_dirty := True\<rparr>)"
  using assms
  by (simp add: full_def PAGE_SIZE_def save_to_page_def write_u32_def write_u64_def write_slice_def memcpy_at_def u32_bytes_flag
      numeral_eq_Suc)

lemma of_le_flag: "of_le (b # take 3 (u32_bytes n)) = unat b + 256 * (unat n mod 2 ^ 24)"
proof -
  have "take 3 (u32_bytes n) = le_bytes 3 (unat n)" by (simp add: u32_bytes_def le_bytes_4 numeral_3_eq_3)
  then show ?thesis by (simp add: of_le_le_bytes)
qed

lemma flag_word: "((of_nat (unat (if b then 1 else 0 :: u8) + 256 * (unat n mod 2 ^ 24)) :: u32) = 1) = (b \<and> unat (n :: u32) mod 2 ^ 24 = 0)"
proof -
  let ?m = "unat (if b then 1 else 0 :: u8) + 256 * (unat n mod 2 ^ 24)"
  have small: "unat (of_nat m :: u32) = m" if "m < 2 ^ 32" for m using that by (simp add: unat_of_nat)
  have "?m < 2 ^ 32" by (cases b) simp_all
  then have "unat (of_nat ?m :: u32) = ?m" by (rule small)
  then have "(of_nat ?m :: u32) = 1 \<longleftrightarrow> ?m = 1" by (metis unat_1 word_unat_eq_iff)
  also have "\<dots> \<longleftrightarrow> b \<and> unat n mod 2 ^ 24 = 0" by (cases b) simp_all
  finally show ?thesis .
qed

lemma from_page_header:
  assumes "pg_data p = (if leaf then 1 else 0) # u32_bytes n @ u64_bytes parent @ u64_bytes nxt @ rest"
  shows "from_page p = Inr \<lparr>is_leaf = (leaf \<and> unat n mod 2 ^ 24 = 0), num_keys = n, parent_id = parent, next_leaf = nxt\<rparr>"
proof -
  let ?b = "if leaf then 1 else 0 :: u8"
  have s: "slice (pg_data p) 0 4 = ?b # take 3 (u32_bytes n)" "slice (pg_data p) 1 4 = u32_bytes n"
    "slice (pg_data p) 5 8 = u64_bytes parent" "slice (pg_data p) 13 8 = u64_bytes nxt"
    by (simp_all add: slice_def assms)
  have "((of_nat (of_le (slice (pg_data p) 0 4)) :: u32) = 1) = (leaf \<and> unat n mod 2 ^ 24 = 0)"
    unfolding s(1) of_le_flag by (rule flag_word)
  moreover have "21 \<le> length (pg_data p)" by (simp add: assms)
  ultimately show ?thesis
    using s(2,3,4) by (simp add: from_page_def read_u32_def read_u64_def read_slice_def u32_of_le u64_of_le del: One_nat_def)
qed

subsection \<open>The places of a node\<close>

lemmas sizes = PAGE_SIZE_def HEADER_SIZE_def KEY_SIZE_def VALUE_SIZE_def ORDER_def

lemma length_fixed [simp]: "length (fixed n bs) = n"
  by (simp add: fixed_def min_def)

text \<open>The place of the first child lies behind the end of the page.\<close>

lemma read_child_panics: "full p \<Longrightarrow> read_child_id j p = Inl Index_out_of_range"
  by (simp add: full_def read_child_id_def read_u64_def read_slice_def child_offset_def sizes)

lemma read_key_error: "read_key j p = Inl e \<Longrightarrow> e = Index_out_of_range"
  by (simp add: read_key_def read_slice_def split: if_splits)

lemma first_key_error: "first_key t p js = Inl e \<Longrightarrow> e = Index_out_of_range"
proof (induction js)
  case (Cons j js)
  then show ?case by (cases "read_key j p") (auto dest: read_key_error split: if_splits)
qed simp

lemma child_for_panics: "full p \<Longrightarrow> child_for t nd p = Inl Index_out_of_range"
  by (cases "first_key t p [0..<unat (num_keys nd)]")
    (auto simp: child_for_def Let_def read_child_panics dest: first_key_error)

subsection \<open>Reading a node\<close>

definition panics :: "'a outcome \<times> tree \<Rightarrow> bool" where
  "panics r \<longleftrightarrow> fst r = Inl (Panic Index_out_of_range)"

text \<open>The page \<open>i\<close> of the pool, and a page whose header says that it is an internal node.\<close>

definition holds :: "tree \<Rightarrow> u64 \<Rightarrow> page \<Rightarrow> bool" where
  "holds t i p \<longleftrightarrow> fst (get_page i (t_pool t)) = Inr p"

definition internal :: "tree \<Rightarrow> u64 \<Rightarrow> bool" where
  "internal t i \<longleftrightarrow> (\<exists>p nd. holds t i p \<and> full p \<and> from_page p = Inr nd \<and> \<not> is_leaf nd)"

lemma with_node_holds:
  assumes "holds t i p" "from_page p = Inr nd"
  shows "with_node i f t = f p nd (t\<lparr>t_pool := snd (get_page i (t_pool t))\<rparr>)"
  using assms by (cases "get_page i (t_pool t)")
    (auto simp: holds_def with_node_def op_bind_def fetch_def op_run_def split: sum.split)

lemma panics_bind: "panics (m t) \<Longrightarrow> panics (op_bind m f t)"
  by (cases "m t") (simp add: panics_def op_bind_def)

lemma panics_run: "r = Inl Index_out_of_range \<Longrightarrow> panics (op_run r t)"
  by (simp add: panics_def op_run_def)

lemma panics_with_node:
  assumes "internal t i" "\<And>p nd u. full p \<Longrightarrow> \<not> is_leaf nd \<Longrightarrow> panics (f p nd u)"
  shows "panics (with_node i f t)"
  using assms(1) by (auto simp: internal_def with_node_holds intro!: assms(2))

lemma find_value_panics: "internal t i \<Longrightarrow> panics (find_value (Suc fuel) i key t)"
  by (simp add: panics_with_node panics_bind panics_run child_for_panics)

lemma insert_into_panics: "internal t i \<Longrightarrow> panics (insert_into (Suc fuel) i key val t)"
  by (simp add: panics_with_node panics_bind panics_run child_for_panics)

lemma delete_from_panics: "internal t i \<Longrightarrow> panics (delete_from (Suc fuel) i key t)"
  by (simp add: panics_with_node panics_bind panics_run child_for_panics)

lemma scan_children_ends:
  assumes "full p" shows "panics (scan_children fuel p js a b t) \<or> scan_children fuel p js a b t = (Inr [], t)"
proof (induction js)
  case (Cons j js)
  show ?case
  proof (cases "read_key j p")
    case (Inl e)
    then show ?thesis using read_key_error [OF Inl] by (simp add: panics_bind panics_run)
  next
    case (Inr k)
    with Cons show ?thesis
      by (auto simp: op_bind_def op_run_def op_return_def panics_def read_child_panics [OF assms] split: prod.splits sum.splits)
  qed
qed (simp add: op_return_def)

lemma scan_range_panics: "internal t i \<Longrightarrow> panics (scan_range (Suc fuel) i a b t)"
proof (simp add: Let_def, rule panics_with_node, assumption)
  fix p nd u assume *: "full p" "\<not> is_leaf (nd :: btree_node)"
  let ?m = "scan_children fuel p [0..<unat (num_keys nd)] a b"
  have "panics (op_bind ?m (\<lambda>es. op_bind (op_run (read_child_id (unat (num_keys nd)) p)) (f es)) u)" for f :: "_ \<Rightarrow> _ \<Rightarrow> 'c op"
  proof (cases "panics (?m u)")
    case True
    then show ?thesis by (rule panics_bind)
  next
    case False
    then have "?m u = (Inr [], u)" using scan_children_ends [OF *(1)] by blast
    then show ?thesis by (simp add: op_bind_def op_run_def panics_def read_child_panics [OF *(1)])
  qed
  with * show "panics ((if is_leaf nd then op_run (read_entries a b p [0..<unat (num_keys nd)])
    else op_bind ?m (\<lambda>es. op_bind (op_run (read_child_id (unat (num_keys nd)) p)) (\<lambda>c.
         op_bind (scan_range fuel c a b) (\<lambda>es'. op_return (es @ es'))))) u)"
    by simp
qed

lemma count_keys_panics: "internal t i \<Longrightarrow> panics (count_keys (Suc fuel) i t)"
  by (simp add: panics_with_node panics_bind panics_run read_child_panics upt_conv_Cons del: upt_Suc)

subsection \<open>The first entry\<close>

text \<open>The tree that \<^verbatim>\<open>init\<close> makes without a database file, and the one with the root page \<open>p\<close>.\<close>

definition tree_with :: "page \<Rightarrow> u8 list option \<Rightarrow> u8 list \<Rightarrow> u64 \<Rightarrow> tree" where
  "tree_with p f log tx = \<lparr>t_pool = \<lparr>frames = [(1, p)], lru = [1], capacity = 1024, db_file = f, fates = [], pending = []\<rparr>,
     t_wal = \<lparr>w_file = Some log, w_opened = True, w_next_tx = tx\<rparr>, t_root = 1, t_next = 2\<rparr>"

definition no_file :: "u8 list option \<Rightarrow> bool" where
  "no_file f \<longleftrightarrow> f = None \<or> f = Some []"

definition log_of :: "u8 list option \<Rightarrow> u8 list" where
  "log_of log = (case log of None \<Rightarrow> [] | Some bs \<Rightarrow> bs)"

lemma init_fresh:
  assumes "no_file f"
  obtains p where "storage_init (new_storage f log) = (Inr (), tree_with p f (log_of log) 1)" "full p" "pg_id p = 1"
    "from_page p = Inr \<lparr>is_leaf = True, num_keys = 0, parent_id = 0, next_leaf = 0\<rparr>"
proof -
  let ?nd = "\<lparr>is_leaf = True, num_keys = 0, parent_id = 0, next_leaf = 0\<rparr>"
  obtain p where p: "save_to_page ?nd (new_page 1) = Inr p" "full p" "pg_id p = 1" "from_page p = Inr ?nd"
    using save_to_page_data [of "new_page 1" ?nd] from_page_header [of _ True 0 0 0 "drop 21 (pg_data (new_page 1))"]
    by (fastforce simp: full_def new_page_def PAGE_SIZE_def)
  have "storage_init (new_storage f log) = (Inr (), tree_with p f (log_of log) 1)"
    using assms p(1,3) by (auto simp: storage_init_def new_storage_def new_tree_def new_pool_def new_wal_def wal_open_def init_def
        no_file_def file_size_def alloc_page_def op_bind_def op_run_def keep_def put_page_def touch_lru_def set_root_def tree_with_def
        log_of_def)
  with p show ?thesis by (intro that)
qed

lemma get_root [simp]: "get_page 1 (t_pool (tree_with p f log tx)) = (Inr p, t_pool (tree_with p f log tx))"
  by (simp add: tree_with_def get_page_def touch_lru_def)

lemma tree_with_sel [simp]: "t_root (tree_with p f log tx) = 1"
  "t_wal (tree_with p f log tx) = \<lparr>w_file = Some log, w_opened = True, w_next_tx = tx\<rparr>"
  by (simp_all add: tree_with_def)

lemma holds_root [simp]: "holds (tree_with p f log tx) 1 q = (p = q)"
  by (simp add: holds_def)

lemma with_root: "from_page p = Inr nd \<Longrightarrow> with_node 1 g (tree_with p f log tx) = g p nd (tree_with p f log tx)"
  by (simp add: with_node_holds)

lemma keep_logged_root:
  "pg_id q = 1 \<Longrightarrow> keep_logged q (tree_with p f log tx) = (Inr (), tree_with q f (log @ record_bytes (Rec_write tx 1 (pg_data q))) tx)"
  by (simp add: keep_logged_def keep_def logged_def op_bind_def put_page_def touch_lru_def append_write_def wal_append_def tree_with_def)

lemma insert_first:
  assumes "full p" "pg_id p = 1" "from_page p = Inr \<lparr>is_leaf = True, num_keys = 0, parent_id = 0, next_leaf = 0\<rparr>"
  obtains q where "insert_into (Suc fuel) 1 key val (tree_with p f log tx) =
      (Inr (), tree_with q f (log @ record_bytes (Rec_write tx 1 (pg_data q))) tx)"
    "full q" "pg_id q = 1" "pg_dirty q" "from_page q = Inr \<lparr>is_leaf = False, num_keys = 1, parent_id = 0, next_leaf = 0\<rparr>"
proof -
  let ?nd = "\<lparr>is_leaf = True, num_keys = 1, parent_id = 0, next_leaf = 0\<rparr>"
  obtain p1 where p1: "write_key 0 key p = Inr p1" "full p1" "pg_id p1 = 1"
    using write_slice_full [OF assms(1), of "key_offset 0" "fixed KEY_SIZE key"] assms(2)
    by (auto simp: write_key_def key_offset_def sizes)
  obtain p2 where p2: "write_value 0 val p1 = Inr p2" "full p2" "pg_id p2 = 1"
    using write_slice_full [OF p1(2), of "value_offset 0" "fixed VALUE_SIZE val"] p1(3)
    by (auto simp: write_value_def value_offset_def sizes)
  obtain q where q: "save_to_page ?nd p2 = Inr q" "full q" "pg_id q = 1" "pg_dirty q"
    "from_page q = Inr \<lparr>is_leaf = False, num_keys = 1, parent_id = 0, next_leaf = 0\<rparr>"
    using save_to_page_data [OF p2(2), of ?nd] from_page_header [of _ True 1 0 0 "drop 21 (pg_data p2)"] p2(2,3)
    by (fastforce simp: full_def PAGE_SIZE_def)
  have "insert_into (Suc fuel) 1 key val (tree_with p f log tx) =
      (Inr (), tree_with q f (log @ record_bytes (Rec_write tx 1 (pg_data q))) tx)"
    by (simp add: with_root [OF assms(3)] insert_into_leaf_def op_bind_def op_run_def p1(1) p2(1) q(1) keep_logged_root [OF q(3)]
        op_return_def ORDER_def del: record_bytes.simps)
  with q show ?thesis by (intro that)
qed

lemma begin_tx_with: "op_bind begin_tx g (tree_with p f log tx) = g tx (tree_with p f log (tx + 1))"
  by (simp add: op_bind_def begin_tx_def next_tx_id_def tree_with_def)

lemma commit_with: "logged (append_commit n) (tree_with p f log tx) = (Inr (), tree_with p f (log @ record_bytes (Rec_commit n)) tx)"
  by (simp add: logged_def append_commit_def wal_append_def tree_with_def)

lemma op_bind_done: "m t = (Inr x, u) \<Longrightarrow> op_bind m g t = g x u"
  by (simp add: op_bind_def)

lemma put_first:
  assumes "no_file f" "0 < fuel"
  obtains p where "tree_put fuel key val (snd (storage_init (new_storage f log))) =
      (Inr (), tree_with p f (log_of log @ record_bytes (Rec_write 2 1 (pg_data p)) @ record_bytes (Rec_commit 1)) 2)"
    "full p" "pg_id p = 1" "pg_dirty p" "from_page p = Inr \<lparr>is_leaf = False, num_keys = 1, parent_id = 0, next_leaf = 0\<rparr>"
proof -
  obtain n where n: "fuel = Suc n" using assms(2) gr0_implies_Suc by blast
  obtain p0 where i: "storage_init (new_storage f log) = (Inr (), tree_with p0 f (log_of log) 1)" and p0: "full p0" "pg_id p0 = 1"
    "from_page p0 = Inr \<lparr>is_leaf = True, num_keys = 0, parent_id = 0, next_leaf = 0\<rparr>" using init_fresh [OF assms(1)] .
  obtain p where p: "insert_into (Suc n) 1 key val (tree_with p0 f (log_of log) 2) =
      (Inr (), tree_with p f (log_of log @ record_bytes (Rec_write 2 1 (pg_data p))) 2)"
    "full p" "pg_id p = 1" "pg_dirty p" "from_page p = Inr \<lparr>is_leaf = False, num_keys = 1, parent_id = 0, next_leaf = 0\<rparr>"
    using insert_first [OF p0] .
  have "tree_put fuel key val (tree_with p0 f (log_of log) 1) =
      (Inr (), tree_with p f (log_of log @ record_bytes (Rec_write 2 1 (pg_data p)) @ record_bytes (Rec_commit 1)) 2)"
    by (simp add: tree_put_def n begin_tx_with op_bind_done [of "insert_into (Suc n) 1 key val", OF p(1)] commit_with del: insert_into.simps record_bytes.simps)
  then show ?thesis using p i by (intro that) simp_all
qed

text \<open>Every operation on a tree whose root is an internal node.\<close>

definition all_panic :: "nat \<Rightarrow> tree \<Rightarrow> bool" where
  "all_panic fuel t \<longleftrightarrow> (\<forall>key val a b. panics (tree_get fuel key t) \<and> panics (tree_put fuel key val t) \<and>
     panics (tree_delete fuel key t) \<and> panics (tree_scan fuel a b t) \<and> panics (tree_count fuel t))"

lemma begin_tx_bind: "op_bind begin_tx g t = g (w_next_tx (t_wal t)) (t\<lparr>t_wal := snd (next_tx_id (t_wal t))\<rparr>)"
  by (simp add: op_bind_def begin_tx_def next_tx_id_def)

lemma internal_wal [simp]: "internal (t\<lparr>t_wal := w\<rparr>) i = internal t i"
  by (simp add: internal_def holds_def)

lemma internal_root_panics:
  assumes "internal t (t_root t)" "0 < fuel" shows "all_panic fuel t"
proof -
  obtain n where n: "fuel = Suc n" using assms(2) gr0_implies_Suc by blast
  have g: "panics (tree_get fuel key t)" for key using find_value_panics [OF assms(1)] by (simp add: tree_get_def n del: find_value.simps)
  have p: "panics (tree_put fuel key val t)" for key val
    unfolding tree_put_def n begin_tx_bind by (rule panics_bind, rule insert_into_panics) (simp add: assms(1))
  have d: "panics (tree_delete fuel key t)" for key
    unfolding tree_delete_def n begin_tx_bind by (rule panics_bind, rule delete_from_panics) (simp add: assms(1))
  have s: "panics (tree_scan fuel a b t)" for a b using scan_range_panics [OF assms(1)] by (simp add: tree_scan_def n del: scan_range.simps)
  have c: "panics (tree_count fuel t)" using count_keys_panics [OF assms(1)] by (simp add: tree_count_def n del: count_keys.simps)
  from g p d s c show ?thesis by (simp add: all_panic_def)
qed

subsection \<open>Opening the database again\<close>

lemma flush_root:
  assumes "full p" "pg_id p = 1" "pg_dirty p" "no_file f"
  shows "\<exists>bs t. storage_flush (tree_with p f log tx) = (Inr (), t) \<and> t_wal t = t_wal (tree_with p f log tx) \<and>
    db_file (t_pool t) = Some bs \<and> 2 * PAGE_SIZE \<le> length bs \<and> slice bs 0 PAGE_SIZE = replicate PAGE_SIZE 0"
proof -
  have o: "page_offset 1 = 4096" by (simp add: page_offset_def)
  have "pg_data p \<noteq> []" using assms(1) by (auto simp: full_def PAGE_SIZE_def)
  then obtain t where "storage_flush (tree_with p f log tx) = (Inr (), t)" "t_wal t = t_wal (tree_with p f log tx)"
    "db_file (t_pool t) = Some (memcpy_at (replicate 8192 0) 4096 (pg_data p))"
    using assms by (auto simp: storage_flush_def tree_with_def flush_all_def flush_page_def save_page_def next_fate_def settle_idle
        write_at_def full_def Let_def o no_file_def PAGE_SIZE_def)
  moreover have "slice (memcpy_at (replicate 8192 0) 4096 (pg_data p)) 0 PAGE_SIZE = replicate PAGE_SIZE 0"
    by (subst slice_memcpy_before) (simp_all add: PAGE_SIZE_def slice_def)
  ultimately show ?thesis using assms(1) by (simp add: full_def PAGE_SIZE_def)
qed

lemma zero_page_internal: "\<exists>nd. from_page \<lparr>pg_id = i, pg_data = replicate PAGE_SIZE 0, pg_dirty = b\<rparr> = Inr nd \<and> \<not> is_leaf nd"
proof -
  have z: "of_le (replicate n 0) = 0" for n by (induction n) simp_all
  show ?thesis
    by (simp add: from_page_def read_u32_def read_u64_def read_slice_def slice_def PAGE_SIZE_def min_def z)
qed

lemma reopen_internal:
  assumes "2 * PAGE_SIZE \<le> length bs" "slice bs 0 PAGE_SIZE = replicate PAGE_SIZE 0" "wal_replay (new_wal (Some log)) = Inr []"
  shows "\<exists>t. storage_init (new_storage (Some bs) (Some log)) = (Inr (), t) \<and> t_root t = 0 \<and> internal t 0"
proof -
  let ?t = "new_tree (new_pool 1024 (Some bs)) (wal_open (new_wal (Some log)))"
  have "wal_replay (wal_open (new_wal (Some log))) = Inr []"
    using assms(3) by (simp add: wal_replay_def wal_open_def new_wal_def)
  then have "storage_init (new_storage (Some bs) (Some log)) = (Inr (), ?t)"
    using assms(1) by (simp add: storage_init_def new_storage_def init_def file_size_def new_tree_def new_pool_def PAGE_SIZE_def)
      (use assms(1) in \<open>auto simp: PAGE_SIZE_def\<close>)
  moreover have "holds ?t 0 \<lparr>pg_id = 0, pg_data = replicate PAGE_SIZE 0, pg_dirty = False\<rparr>"
    using assms(1,2) by (simp add: holds_def new_tree_def new_pool_def get_page_def load_page_def page_offset_def Let_def)
  then have "internal ?t 0" using zero_page_internal [of 0 False] by (auto simp: internal_def full_def)
  ultimately show ?thesis by (simp add: new_tree_def)
qed

text \<open>The log after the first entry, and a database with one entry that is flushed and opened again.\<close>

definition first_log :: "page \<Rightarrow> u8 list" where
  "first_log p = record_bytes (Rec_write 2 1 (pg_data p)) @ record_bytes (Rec_commit 1)"

lemma restart_internal:
  assumes "full p" "pg_id p = 1" "pg_dirty p"
  shows "\<exists>t t2. storage_flush (tree_with p None (first_log p) tx) = (Inr (), t) \<and>
    storage_init (new_storage (db_file (t_pool t)) (w_file (t_wal t))) = (Inr (), t2) \<and> t_root t2 = 0 \<and> internal t2 0"
proof -
  have f: "no_file None" by (simp add: no_file_def)
  obtain bs t where bs: "storage_flush (tree_with p None (first_log p) tx) = (Inr (), t)" "t_wal t = t_wal (tree_with p None (first_log p) tx)"
    "db_file (t_pool t) = Some bs" "2 * PAGE_SIZE \<le> length bs" "slice bs 0 PAGE_SIZE = replicate PAGE_SIZE 0"
    using flush_root [OF assms f] by blast
  have ok: "list_all record_ok [Rec_write 2 1 (pg_data p), Rec_commit 1]" using assms(1) by (simp add: full_def PAGE_SIZE_def)
  have "wal_replay (new_wal (Some (first_log p))) = Inr []"
    using replay_records [OF ok, of "[]" "[]" "[]"] by (simp add: wal_replay_def new_wal_def replay_end first_log_def)
  from reopen_internal [OF bs(4,5) this] bs(1-3) show ?thesis by simp
qed

text \<open>Opened without a database file, the tree is empty, whatever the log holds.\<close>

lemma fresh_scan_empty:
  assumes "no_file f" "0 < fuel"
  shows "\<exists>t. storage_init (new_storage f log) = (Inr (), t) \<and> tree_scan fuel a b t = (Inr [], t)"
proof -
  obtain p where p: "storage_init (new_storage f log) = (Inr (), tree_with p f (log_of log) 1)"
    "from_page p = Inr \<lparr>is_leaf = True, num_keys = 0, parent_id = 0, next_leaf = 0\<rparr>" using init_fresh [OF assms(1)] .
  obtain n where "fuel = Suc n" using assms(2) by (cases fuel) auto
  then show ?thesis using p by (simp add: tree_scan_def with_root op_run_def)
qed

text \<open>A further entry: only the number of the next transaction is changed.\<close>

lemma put_again:
  assumes "full p" "from_page p = Inr nd" "\<not> is_leaf nd" "0 < fuel"
  shows "tree_put fuel key val (tree_with p f log tx) = (Inl (Panic Index_out_of_range), tree_with p f log (tx + 1))"
proof -
  obtain n where n: "fuel = Suc n" using assms(4) gr0_implies_Suc by blast
  have "insert_into fuel 1 key val (tree_with p f log (tx + 1)) = (Inl (Panic Index_out_of_range), tree_with p f log (tx + 1))"
    using assms(1-3) by (simp add: n with_root op_bind_def op_run_def child_for_panics)
  then show ?thesis by (simp add: tree_put_def begin_tx_with) (simp add: op_bind_def)
qed

section \<open>Properties\<close>

text \<open>
  Two fields of a node's header overlap: the leaf mark is written to the bytes 0 to 3 of the page and the number
  of keys to the bytes 1 to 4. Any node saved to a page and read back keeps its number of keys,
  its parent and its next leaf, but is a leaf only if it was one and its number of keys is a
  multiple of \<open>2 ^ 24\<close>: every leaf with an entry comes back as an internal node.
\<close>

theorem node_header_overlap:
  assumes "length (pg_data p) = PAGE_SIZE"
  shows "run_bind (save_to_page nd p) from_page =
    Inr \<lparr>is_leaf = (is_leaf nd \<and> unat (num_keys nd) mod 2 ^ 24 = 0), num_keys = num_keys nd, parent_id = parent_id nd, next_leaf = next_leaf nd\<rparr>"
  using assms from_page_header [of _ "is_leaf nd" "num_keys nd" "parent_id nd" "next_leaf nd" "drop 21 (pg_data p)"]
  by (simp add: save_to_page_data full_def)

theorem node_header_overlap_witness:
  "run_bind (save_to_page \<lparr>is_leaf = True, num_keys = 3, parent_id = 7, next_leaf = 2\<rparr> (new_page 1)) from_page =
     Inr \<lparr>is_leaf = False, num_keys = 3, parent_id = 7, next_leaf = 2\<rparr>"
  using node_header_overlap [of "new_page 1" "\<lparr>is_leaf = True, num_keys = 3, parent_id = 7, next_leaf = 2\<rparr>"]
  by (simp add: new_page_def)

text \<open>
  C23. The storage holds no entry at all. Without a database file, opening it and storing one key succeed; the leaf is
  then read as an internal node, whose children would lie behind the end of the page, and every
  further operation, reading, storing, deleting, scanning or counting, panics.
\<close>

theorem first_put_breaks_tree:
  assumes "f = None \<or> f = Some []" "0 < fuel"
  shows "fst (storage_init (new_storage f log)) = Inr () \<and>
    (case tree_put fuel key val (snd (storage_init (new_storage f log))) of (r, t) \<Rightarrow>
       r = Inr () \<and> (\<forall>depth > 0. all_panic depth t))"
proof -
  have f: "no_file f" using assms(1) by (simp add: no_file_def)
  obtain p where p: "tree_put fuel key val (snd (storage_init (new_storage f log))) =
      (Inr (), tree_with p f (log_of log @ record_bytes (Rec_write 2 1 (pg_data p)) @ record_bytes (Rec_commit 1)) 2)"
    "full p" "from_page p = Inr \<lparr>is_leaf = False, num_keys = 1, parent_id = 0, next_leaf = 0\<rparr>"
    using put_first [OF f assms(2)] .
  then have "internal (tree_with p f l 2) 1" for l by (simp add: internal_def)
  then have "all_panic depth (tree_with p f l 2)" if "depth > 0" for depth l
    using that by (intro internal_root_panics) simp_all
  moreover obtain q where "storage_init (new_storage f log) = (Inr (), tree_with q f (log_of log) 1)" using init_fresh [OF f] .
  ultimately show ?thesis using p(1) by (simp del: record_bytes.simps)
qed

theorem first_put_breaks_tree_witness:
  "case tree_put 9 [107] [118] (snd (storage_init (new_storage None None))) of (r, t) \<Rightarrow>
     r = Inr () \<and> fst (tree_get 9 [107] t) = Inl (Panic Index_out_of_range)"
proof -
  obtain r t where e: "tree_put 9 [107] [118] (snd (storage_init (new_storage None None))) = (r, t)" by (rule prod.exhaust)
  have "r = Inr ()" "all_panic 9 t" using first_put_breaks_tree [of None 9 None "[107]" "[118]"] by (simp_all add: e)
  then show ?thesis by (simp add: e all_panic_def panics_def)
qed

text \<open>
  Nothing survives a restart. Open a storage without files, store a key, flush (to a disk that does every write), and open what is on the disk
  again: that succeeds, the log gives nothing back, the root is page 0, which no tree ever used,
  and every operation panics.
\<close>

theorem reopened_database_unusable:
  assumes "0 < fuel"
  shows "case tree_put fuel key val (snd (storage_init (new_storage None None))) of (r, t) \<Rightarrow>
    (case storage_flush t of (r1, t1) \<Rightarrow>
       (case storage_init (new_storage (db_file (t_pool t1)) (w_file (t_wal t1))) of (r2, t2) \<Rightarrow>
          r2 = Inr () \<and> t_root t2 = 0 \<and> (\<forall>depth > 0. all_panic depth t2)))"
proof -
  have f: "no_file None" by (simp add: no_file_def)
  obtain p where p: "tree_put fuel key val (snd (storage_init (new_storage None None))) =
      (Inr (), tree_with p None (log_of None @ record_bytes (Rec_write 2 1 (pg_data p)) @ record_bytes (Rec_commit 1)) 2)"
    "full p" "pg_id p = 1" "pg_dirty p" using put_first [OF f assms] .
  from restart_internal [OF p(2,3,4), of 2] obtain t t2 where t2: "storage_flush (tree_with p None (first_log p) 2) = (Inr (), t)"
    "storage_init (new_storage (db_file (t_pool t)) (w_file (t_wal t))) = (Inr (), t2)" "t_root t2 = 0" "internal t2 0" by blast
  then have "all_panic depth t2" if "depth > 0" for depth using internal_root_panics [OF _ that, of t2] by simp
  with t2 show ?thesis by (simp add: p(1) log_of_def first_log_def del: record_bytes.simps)
qed

theorem reopened_database_unusable_witness:
  "case storage_flush (snd (tree_put 9 [107] [118] (snd (storage_init (new_storage None None))))) of (r, t) \<Rightarrow>
     fst (tree_get 9 [107] (snd (storage_init (new_storage (db_file (t_pool t)) (w_file (t_wal t)))))) = Inl (Panic Index_out_of_range)"
proof -
  obtain r t where e: "tree_put 9 [107] [118] (snd (storage_init (new_storage None None))) = (r, t)" by (rule prod.exhaust)
  obtain r1 t1 where e1: "storage_flush t = (r1, t1)" by (rule prod.exhaust)
  obtain r2 t2 where e2: "storage_init (new_storage (db_file (t_pool t1)) (w_file (t_wal t1))) = (r2, t2)" by (rule prod.exhaust)
  have "all_panic 9 t2" using reopened_database_unusable [of 9 "[107]" "[118]"] by (simp add: e e1 e2)
  then show ?thesis by (simp add: e e1 e2 all_panic_def panics_def)
qed

end
