(* ===== verification/Server_TSDB.thy ===== *)
theory Server_TSDB
  imports Storage_BTree "HOL-Library.Multiset"
begin

section \<open>The time-series database\<close>

text \<open>
  \<^verbatim>\<open>redisdb/src/tsdb\<close>: series of data points in memory, sorted by time and cut off by a retention policy, each written as a
  whole to the storage engine under one key. The numbers are an abstract type with the operations of \<^verbatim>\<open>f64\<close> the code uses, and
  the encoding of \<^verbatim>\<open>serde_json\<close> and the decoding of a key as text are arguments too (\<open>ts_tools\<close>). An operation holds the lock of
  the map to its end; a panic or an error in the storage leaves what was done to the map before it.
\<close>

record 'f point =
  timestamp :: u64
  point_value :: 'f
  labels :: "(string \<times> string) list"

record retention_policy =
  max_age_secs :: u64
  max_points :: nat

record 'f series =
  series_name :: string
  points :: "'f point list"
  retention :: "retention_policy option"

record 'f tsdb =
  storage :: tree
  series_map :: "(string \<times> 'f series) list"

record 'f ts_tools =
  to_vec :: "'f point list \<Rightarrow> u8 list option"
  from_slice :: "u8 list \<Rightarrow> 'f point list option"
  lossy :: "u8 list \<Rightarrow> string"
  f_zero :: 'f
  f_sum_start :: 'f
  f_infinity :: 'f
  f_neg_infinity :: 'f
  f_plus :: "'f \<Rightarrow> 'f \<Rightarrow> 'f"
  f_divide :: "'f \<Rightarrow> 'f \<Rightarrow> 'f"
  f_min :: "'f \<Rightarrow> 'f \<Rightarrow> 'f"
  f_max :: "'f \<Rightarrow> 'f \<Rightarrow> 'f"
  f_of_usize :: "nat \<Rightarrow> 'f"
  overflow_checks :: bool
  depth :: nat

definition new_tsdb :: "tree \<Rightarrow> 'f tsdb" where
  "new_tsdb t = \<lparr>storage = t, series_map = []\<rparr>"

definition meta_key :: "string \<Rightarrow> u8 list" where
  "meta_key nm = bytes_of_string (''ts:meta:'' @ nm)"

fun load_series :: "'f ts_tools \<Rightarrow> (u8 list \<times> u8 list) list \<Rightarrow> (string \<times> 'f series) list \<Rightarrow> (string \<times> 'f series) list run" where
  "load_series tk [] m = Inr m"
| "load_series tk ((k, v) # es) m =
     (if length k < 9 then Inl Index_out_of_range
      else
        let nm = lossy tk (drop 9 k) in
        load_series tk es (AList.update nm
          \<lparr>series_name = nm, points = (case from_slice tk v of Some ps \<Rightarrow> ps | None \<Rightarrow> []), retention = None\<rparr> m))"

definition ts_init :: "'f ts_tools \<Rightarrow> 'f tsdb \<Rightarrow> unit outcome \<times> 'f tsdb" where
  "ts_init tk db =
     (case tree_scan (depth tk) (meta_key []) (meta_key [] @ [255]) (storage db) of
        (Inl e, t) \<Rightarrow> (Inl e, db\<lparr>storage := t\<rparr>)
      | (Inr es, t) \<Rightarrow>
          (case load_series tk es (series_map db) of
             Inl p \<Rightarrow> (Inl (Panic p), db\<lparr>storage := t\<rparr>)
           | Inr m \<Rightarrow> (Inr (), db\<lparr>storage := t, series_map := m\<rparr>)))"

text \<open>\<^verbatim>\<open>saturating_sub\<close>, and the product of two \<^verbatim>\<open>u64\<close> with and without overflow checks.\<close>

definition saturating_sub :: "u64 \<Rightarrow> u64 \<Rightarrow> u64" where
  "saturating_sub a b = (if b \<le> a then a - b else 0)"

definition cutoff :: "bool \<Rightarrow> retention_policy \<Rightarrow> u64 \<Rightarrow> u64 run" where
  "cutoff checked pol ts =
     (if checked \<and> 2 ^ 64 \<le> unat (max_age_secs pol) * 1000 then Inl Overflow
      else Inr (saturating_sub ts (max_age_secs pol * 1000)))"

definition add_point :: "'f point \<Rightarrow> 'f series \<Rightarrow> 'f series" where
  "add_point p s = s\<lparr>points := sort_key timestamp (points s @ [p])\<rparr>"

definition apply_retention :: "bool \<Rightarrow> u64 \<Rightarrow> 'f series \<Rightarrow> 'f series run" where
  "apply_retention checked ts s =
     (case retention s of
        None \<Rightarrow> Inr s
      | Some pol \<Rightarrow> run_bind (cutoff checked pol ts) (\<lambda>c. Inr (s\<lparr>points := filter (\<lambda>p. c \<le> timestamp p) (points s)\<rparr>)))"

definition add :: "'f ts_tools \<Rightarrow> string \<Rightarrow> 'f point \<Rightarrow> 'f tsdb \<Rightarrow> unit outcome \<times> 'f tsdb" where
  "add tk nm p db =
     (let s = add_point p (case map_of (series_map db) nm of
                Some s \<Rightarrow> s | None \<Rightarrow> \<lparr>series_name = nm, points = [], retention = None\<rparr>) in
      case apply_retention (overflow_checks tk) (timestamp p) s of
        Inl e \<Rightarrow> (Inl (Panic e), db\<lparr>series_map := AList.update nm s (series_map db)\<rparr>)
      | Inr s' \<Rightarrow>
          (case tree_put (depth tk) (meta_key nm) (case to_vec tk (points s') of Some bs \<Rightarrow> bs | None \<Rightarrow> []) (storage db) of
             (r, t) \<Rightarrow> (r, db\<lparr>series_map := AList.update nm s' (series_map db), storage := t\<rparr>)))"

datatype aggregation = Sum | Avg | Min | Max | Count | Last

record time_range =
  range_start :: u64
  range_end :: u64

record 'f query_result =
  qr_name :: string
  qr_range :: time_range
  qr_aggregation :: aggregation
  qr_value :: 'f
  qr_points :: "'f point list"

definition not_found :: "string \<Rightarrow> string" where
  "not_found nm = ''series '' @ [CHR 0x27] @ nm @ [CHR 0x27] @ '' not found''"

fun aggregate :: "'f ts_tools \<Rightarrow> aggregation \<Rightarrow> 'f list \<Rightarrow> 'f" where
  "aggregate tk Sum vs = foldl (f_plus tk) (f_sum_start tk) vs"
| "aggregate tk Avg vs =
     (if vs = [] then f_zero tk else f_divide tk (foldl (f_plus tk) (f_sum_start tk) vs) (f_of_usize tk (length vs)))"
| "aggregate tk Min vs = foldl (f_min tk) (f_infinity tk) vs"
| "aggregate tk Max vs = foldl (f_max tk) (f_neg_infinity tk) vs"
| "aggregate tk Count vs = f_of_usize tk (length vs)"
| "aggregate tk Last vs = (if vs = [] then f_zero tk else last vs)"

definition query :: "'f ts_tools \<Rightarrow> string \<Rightarrow> time_range \<Rightarrow> aggregation \<Rightarrow> 'f tsdb \<Rightarrow> string + 'f query_result" where
  "query tk nm rg agg db =
     (case map_of (series_map db) nm of
        None \<Rightarrow> Inl (not_found nm)
      | Some s \<Rightarrow>
          let ps = filter (\<lambda>p. range_start rg \<le> timestamp p \<and> timestamp p \<le> range_end rg) (points s) in
          Inr \<lparr>qr_name = nm, qr_range = rg, qr_aggregation = agg, qr_value = aggregate tk agg (map point_value ps), qr_points = ps\<rparr>)"

definition set_retention :: "string \<Rightarrow> retention_policy \<Rightarrow> 'f tsdb \<Rightarrow> (string + unit) \<times> 'f tsdb" where
  "set_retention nm pol db =
     (case map_of (series_map db) nm of
        None \<Rightarrow> (Inl (not_found nm), db)
      | Some s \<Rightarrow> (Inr (), db\<lparr>series_map := AList.update nm (s\<lparr>retention := Some pol\<rparr>) (series_map db)\<rparr>))"

definition list_series :: "'f tsdb \<Rightarrow> string list" where
  "list_series db = map fst (series_map db)"

definition point_count :: "string \<Rightarrow> 'f tsdb \<Rightarrow> nat" where
  "point_count nm db = (case map_of (series_map db) nm of Some s \<Rightarrow> length (points s) | None \<Rightarrow> 0)"

definition total_points :: "'f tsdb \<Rightarrow> nat" where
  "total_points db = sum_list (map (\<lambda>(nm, s). length (points s)) (series_map db))"

subsection \<open>Specification vocabulary\<close>

text \<open>A sequence of additions with their outcomes; the points of one series; and those a cutoff leaves.\<close>

fun add_all :: "'f ts_tools \<Rightarrow> (string \<times> 'f point) list \<Rightarrow> 'f tsdb \<Rightarrow> unit outcome list \<times> 'f tsdb" where
  "add_all tk [] db = ([], db)"
| "add_all tk ((nm, p) # adds) db =
     (case add tk nm p db of (r, db1) \<Rightarrow> (case add_all tk adds db1 of (rs, db2) \<Rightarrow> (r # rs, db2)))"

definition added :: "string \<Rightarrow> (string \<times> 'f point) list \<Rightarrow> 'f point list" where
  "added nm adds = map snd (filter (\<lambda>a. fst a = nm) adds)"

definition oldest :: "retention_policy option \<Rightarrow> 'f point \<Rightarrow> u64" where
  "oldest r p = (case r of None \<Rightarrow> 0 | Some pol \<Rightarrow> saturating_sub (timestamp p) (max_age_secs pol * 1000))"

text \<open>An earlier point stays unless some later addition, or its own, finds it too old.\<close>

fun fresh :: "('f point \<Rightarrow> u64) \<Rightarrow> 'f point list \<Rightarrow> 'f point list" where
  "fresh old [] = []"
| "fresh old (p # ps) = (if \<forall>p' \<in> set (p # ps). old p' \<le> timestamp p then [p] else []) @ fresh old ps"

section \<open>Lemmas\<close>

subsection \<open>The points of a series\<close>

lemma sort_key_sorted_prefix: "sort_key f (sort_key f xs @ ys) = sort_key f (xs @ ys)"
proof (rule properties_for_sort_key)
  have "filter (\<lambda>x. f k = f x) (sort_key f zs) = filter (\<lambda>x. f k = f x) zs" for k zs
    using sort_key_stable [of f "f k" zs] by (simp add: eq_commute)
  then show "filter (\<lambda>x. f k = f x) (sort_key f (xs @ ys)) = filter (\<lambda>x. f k = f x) (sort_key f xs @ ys)" for k by simp
qed simp_all

lemma oldest_cutoff:
  assumes "\<And>pol. r = Some pol \<Longrightarrow> \<not> checked \<or> unat (max_age_secs pol) * 1000 < 2 ^ 64"
  shows "r = Some pol \<Longrightarrow> cutoff checked pol (timestamp p) = Inr (oldest r p)"
  using assms by (auto simp: cutoff_def oldest_def)

lemma retained:
  assumes "\<And>pol. retention s = Some pol \<Longrightarrow> \<not> checked \<or> unat (max_age_secs pol) * 1000 < 2 ^ 64"
  shows "apply_retention checked (timestamp p) (add_point p s) =
    Inr (s\<lparr>points := sort_key timestamp (filter (\<lambda>p'. oldest (retention s) p \<le> timestamp p') (points s @ [p]))\<rparr>)"
proof (cases "retention s")
  case None
  then show ?thesis by (simp add: apply_retention_def add_point_def oldest_def)
next
  case (Some pol)
  have "cutoff checked pol (timestamp p) = Inr (oldest (retention s) p)" using assms Some by (intro oldest_cutoff)
  then show ?thesis by (simp add: apply_retention_def add_point_def filter_sort Some del: filter_append)
qed

lemma add_own:
  assumes "map_of (series_map db) nm = Some s" "\<And>pol. retention s = Some pol \<Longrightarrow> \<not> overflow_checks tk \<or> unat (max_age_secs pol) * 1000 < 2 ^ 64"
  shows "map_of (series_map (snd (add tk nm p db))) nm =
    Some (s\<lparr>points := sort_key timestamp (filter (\<lambda>p'. oldest (retention s) p \<le> timestamp p') (points s @ [p]))\<rparr>)"
  by (simp add: add_def assms(1) Let_def retained [OF assms(2)] update_conv' split: prod.split)

lemma add_other: "nm' \<noteq> nm \<Longrightarrow> map_of (series_map (snd (add tk nm' p db))) nm = map_of (series_map db) nm"
  by (simp add: add_def Let_def update_conv' split: prod.split sum.split)

lemma add_all_snd: "snd (add_all tk ((nm, p) # adds) db) = snd (add_all tk adds (snd (add tk nm p db)))"
  by (simp split: prod.split)

lemma added_Cons: "added nm ((nm', p) # adds) = (if nm' = nm then [p] else []) @ added nm adds"
  by (simp add: added_def)

lemma fresh_Cons:
  "filter (\<lambda>p'. \<forall>x \<in> set (p # ps). old x \<le> timestamp p') kept @ fresh old (p # ps) =
   filter (\<lambda>p'. \<forall>x \<in> set ps. old x \<le> timestamp p') (filter (\<lambda>p'. old p \<le> timestamp p') (kept @ [p])) @ fresh old ps"
  by (auto simp: conj_commute)

lemma series_after_adds:
  assumes "\<And>pol. retention s = Some pol \<Longrightarrow> \<not> overflow_checks tk \<or> unat (max_age_secs pol) * 1000 < 2 ^ 64"
  shows "map_of (series_map db) nm = Some (s\<lparr>points := sort_key timestamp kept\<rparr>) \<Longrightarrow>
    map_of (series_map (snd (add_all tk adds db))) nm = Some (s\<lparr>points := sort_key timestamp
      (filter (\<lambda>p'. \<forall>x \<in> set (added nm adds). oldest (retention s) x \<le> timestamp p') kept @ fresh (oldest (retention s)) (added nm adds))\<rparr>)"
proof (induction adds arbitrary: db kept)
  case Nil
  then show ?case by (simp add: added_def)
next
  case (Cons a adds)
  obtain nm' p where a: "a = (nm', p)" by (cases a)
  show ?case
  proof (cases "nm' = nm")
    case True
    let ?kept = "filter (\<lambda>p'. oldest (retention s) p \<le> timestamp p') (kept @ [p])"
    have e: "sort_key timestamp (filter P (sort_key timestamp kept @ [p])) = sort_key timestamp (filter P (kept @ [p]))" for P
      by (simp only: filter_sort [symmetric] sort_key_sorted_prefix)
    have "map_of (series_map (snd (add tk nm p db))) nm = Some (s\<lparr>points := sort_key timestamp ?kept\<rparr>)"
      using add_own [OF Cons.prems, of tk p] assms by (simp add: e del: filter_append)
    from Cons.IH [OF this] show ?thesis
      using fresh_Cons [of p "added nm adds" "oldest (retention s)" kept]
      by (simp only: a True add_all_snd added_Cons if_True append.simps refl)
  next
    case False
    with Cons.prems have "map_of (series_map (snd (add tk nm' p db))) nm = Some (s\<lparr>points := sort_key timestamp kept\<rparr>)"
      by (simp add: add_other)
    from Cons.IH [OF this] False show ?thesis by (simp add: a add_all_snd added_Cons del: add_all.simps)
  qed
qed

subsection \<open>The storage under the series\<close>

lemma storage_add:
  assumes "apply_retention (overflow_checks tk) (timestamp p) (add_point p (case map_of (series_map db) nm of
      Some s \<Rightarrow> s | None \<Rightarrow> \<lparr>series_name = nm, points = [], retention = None\<rparr>)) = Inr s'"
  shows "\<exists>v. fst (add tk nm p db) = fst (tree_put (depth tk) (meta_key nm) v (storage db)) \<and>
    storage (snd (add tk nm p db)) = snd (tree_put (depth tk) (meta_key nm) v (storage db))"
  by (rule exI [of _ "case to_vec tk (points s') of Some bs \<Rightarrow> bs | None \<Rightarrow> []"])
    (simp add: add_def Let_def assms split: prod.split)

definition no_retention :: "'f tsdb \<Rightarrow> bool" where
  "no_retention db = (\<forall>nm s. map_of (series_map db) nm = Some s \<longrightarrow> retention s = None)"

lemma no_retention_applied:
  assumes "no_retention db"
  shows "\<exists>s'. apply_retention c ts (add_point p (case map_of (series_map db) nm of
      Some s \<Rightarrow> s | None \<Rightarrow> \<lparr>series_name = nm, points = [], retention = None\<rparr>)) = Inr s' \<and> retention s' = None"
  using assms by (auto simp: no_retention_def apply_retention_def add_point_def split: option.split)

lemma no_retention_add:
  assumes "no_retention db" shows "no_retention (snd (add tk nm p db))"
proof -
  obtain s' where "apply_retention (overflow_checks tk) (timestamp p) (add_point p (case map_of (series_map db) nm of
      Some s \<Rightarrow> s | None \<Rightarrow> \<lparr>series_name = nm, points = [], retention = None\<rparr>)) = Inr s'" "retention s' = None"
    using no_retention_applied [OF assms] by blast
  then show ?thesis using assms by (auto simp: no_retention_def add_def Let_def update_conv' split: prod.splits if_splits)
qed

lemma later_adds:
  assumes "full q" "from_page q = Inr nd" "\<not> is_leaf nd" "0 < depth tk"
  shows "storage db = tree_with q f log tx \<Longrightarrow> no_retention db \<Longrightarrow>
    fst (add_all tk adds db) = replicate (length adds) (Inl (Panic Index_out_of_range)) \<and>
    (\<exists>tx'. storage (snd (add_all tk adds db)) = tree_with q f log tx')"
proof (induction adds arbitrary: db tx)
  case (Cons a adds)
  obtain nm p where a: "a = (nm, p)" by (cases a)
  obtain s' where "apply_retention (overflow_checks tk) (timestamp p) (add_point p (case map_of (series_map db) nm of
      Some s \<Rightarrow> s | None \<Rightarrow> \<lparr>series_name = nm, points = [], retention = None\<rparr>)) = Inr s'"
    using no_retention_applied [OF Cons.prems(2)] by blast
  from storage_add [OF this] Cons.prems(1)
  have "fst (add tk nm p db) = Inl (Panic Index_out_of_range)" "storage (snd (add tk nm p db)) = tree_with q f log (tx + 1)"
    by (auto simp: put_again [OF assms])
  moreover from Cons.IH [OF this(2) no_retention_add [OF Cons.prems(2)]]
  have "fst (add_all tk adds (snd (add tk nm p db))) = replicate (length adds) (Inl (Panic Index_out_of_range))"
    "\<exists>tx'. storage (snd (add_all tk adds (snd (add tk nm p db)))) = tree_with q f log tx'" by auto
  ultimately show ?case by (auto simp: a split: prod.splits)
qed auto

section \<open>Properties\<close>

text \<open>
  C27. A series holds what the retention policy leaves. After any additions to any series, and whatever the storage answered to them, a
  series has exactly the points it had and those added to it, in the order of their time and, at the same time,
  of their addition, less every point that was older than the policy allows at its own or some later addition
  to the series; and a query returns exactly those of them within its bounds.
\<close>

theorem series_exact:
  assumes "map_of (series_map db) nm = Some s" "sorted (map timestamp (points s))"
    and "\<And>pol. retention s = Some pol \<Longrightarrow> \<not> overflow_checks tk \<or> unat (max_age_secs pol) * 1000 < 2 ^ 64"
  shows "let db' = snd (add_all tk adds db); old = oldest (retention s); new = added nm adds;
             all = sort_key timestamp (filter (\<lambda>p. \<forall>x \<in> set new. old x \<le> timestamp p) (points s) @ fresh old new) in
    map_of (series_map db') nm = Some (s\<lparr>points := all\<rparr>) \<and> point_count nm db' = length all \<and>
    (\<exists>r. query tk nm rg agg db' = Inr r \<and> qr_points r = filter (\<lambda>p. timestamp p \<in> {range_start rg..range_end rg}) all \<and>
         qr_value r = aggregate tk agg (map point_value (qr_points r)))"
proof -
  have "map_of (series_map db) nm = Some (s\<lparr>points := sort_key timestamp (points s)\<rparr>)"
    using assms(1,2) by (simp add: sort_key_id_if_sorted)
  from series_after_adds [OF assms(3) this] show ?thesis by (simp add: Let_def point_count_def query_def)
qed

definition demo_tools :: "int ts_tools" where
  "demo_tools = \<lparr>to_vec = (\<lambda>ps. None), from_slice = (\<lambda>bs. None), lossy = string_of_bytes, f_zero = 0, f_sum_start = 0, f_infinity = 9,
     f_neg_infinity = - 9, f_plus = (+), f_divide = (div), f_min = min, f_max = max, f_of_usize = int, overflow_checks = True, depth = 8\<rparr>"

definition demo_point :: "u64 \<Rightarrow> int \<Rightarrow> int point" where
  "demo_point ts v = \<lparr>timestamp = ts, point_value = v, labels = []\<rparr>"

definition demo_series :: "int series" where
  "demo_series = \<lparr>series_name = ''cpu'', points = [demo_point 2000 5], retention = Some \<lparr>max_age_secs = 1, max_points = 1\<rparr>\<rparr>"

theorem series_exact_witness:
  "let db = \<lparr>storage = new_storage None None, series_map = [(''cpu'', demo_series)]\<rparr>;
       db' = snd (add_all demo_tools [(''cpu'', demo_point 2900 6), (''mem'', demo_point 1 1), (''cpu'', demo_point 2500 7)] db) in
   point_count ''cpu'' db' = 3 \<and>
   (\<exists>r. query demo_tools ''cpu'' \<lparr>range_start = 2500, range_end = 2900\<rparr> Sum db' = Inr r \<and> qr_value r = 13)"
proof -
  let ?db = "\<lparr>storage = new_storage None None, series_map = [(''cpu'', demo_series)]\<rparr>"
    and ?adds = "[(''cpu'', demo_point 2900 6), (''mem'', demo_point 1 1), (''cpu'', demo_point 2500 7)]"
  have "map_of (series_map ?db) ''cpu'' = Some demo_series" "sorted (map timestamp (points demo_series))"
    "\<And>pol. retention demo_series = Some pol \<Longrightarrow> \<not> overflow_checks demo_tools \<or> unat (max_age_secs pol) * 1000 < 2 ^ 64"
    by (auto simp: demo_series_def)
  note s = series_exact [OF this, of ?adds "\<lparr>range_start = 2500, range_end = 2900\<rparr>" Sum]
  have o: "oldest (retention demo_series) (demo_point ts v) = saturating_sub ts 1000" for ts v
    by (simp add: oldest_def demo_series_def demo_point_def)
  have f: "sort_key timestamp (filter (\<lambda>p. \<forall>x \<in> set (added ''cpu'' ?adds). oldest (retention demo_series) x \<le> timestamp p) (points demo_series) @
      fresh (oldest (retention demo_series)) (added ''cpu'' ?adds)) = [demo_point 2000 5, demo_point 2500 7, demo_point 2900 6]"
    by (simp add: o added_def saturating_sub_def) (simp add: demo_series_def demo_point_def)
  from s show ?thesis
    unfolding Let_def f by (auto simp: demo_point_def demo_tools_def simp del: add_all.simps)
qed

text \<open>
  C28. Nothing of the series is durable. On a new database the first addition succeeds, every further one, to any series, ends in a
  panic of the storage engine, though its point is in memory. After a restart without a flush (no code calls it)
  there is still no database file: the loading succeeds and there are no series. After a flush, to a disk that does every write, and a restart the loading of
  the series panics.
\<close>

theorem series_not_durable:
  assumes "adds \<noteq> []" "0 < depth tk"
  shows "case add_all tk adds (new_tsdb (snd (storage_init (new_storage None None)))) of (rs, db) \<Rightarrow>
    rs = Inr () # replicate (length adds - 1) (Inl (Panic Index_out_of_range)) \<and>
    (case storage_init (new_storage (db_file (t_pool (storage db))) (w_file (t_wal (storage db)))) of (r, t2) \<Rightarrow>
       r = Inr () \<and> ts_init tk (new_tsdb t2) = (Inr (), new_tsdb t2)) \<and>
    (case storage_flush (storage db) of (r1, t) \<Rightarrow> r1 = Inr () \<and>
      (case storage_init (new_storage (db_file (t_pool t)) (w_file (t_wal t))) of (r, t2) \<Rightarrow>
         r = Inr () \<and> fst (ts_init tk (new_tsdb t2)) = Inl (Panic Index_out_of_range)))"
proof -
  let ?db0 = "new_tsdb (snd (storage_init (new_storage None None))) :: 'a tsdb"
  obtain nm p rest where a: "adds = (nm, p) # rest" using assms(1) by (cases adds) auto
  have f: "no_file None" by (simp add: no_file_def)
  have n0: "no_retention ?db0" by (simp add: no_retention_def new_tsdb_def)
  then obtain s' where "apply_retention (overflow_checks tk) (timestamp p) (add_point p (case map_of (series_map ?db0) nm of
      Some s \<Rightarrow> s | None \<Rightarrow> \<lparr>series_name = nm, points = [], retention = None\<rparr>)) = Inr s'"
    using no_retention_applied by blast
  from storage_add [OF this] obtain v where v: "fst (add tk nm p ?db0) = fst (tree_put (depth tk) (meta_key nm) v (storage ?db0))"
    "storage (snd (add tk nm p ?db0)) = snd (tree_put (depth tk) (meta_key nm) v (storage ?db0))" by blast
  obtain q where q: "tree_put (depth tk) (meta_key nm) v (snd (storage_init (new_storage None None))) =
      (Inr (), tree_with q None (first_log q) 2)" "full q" "pg_id q = 1" "pg_dirty q"
    "from_page q = Inr \<lparr>is_leaf = False, num_keys = 1, parent_id = 0, next_leaf = 0\<rparr>"
    using put_first [OF f assms(2), of "meta_key nm" v None] by (metis first_log_def log_of_def append_Nil option.case(1))
  have s1: "storage (snd (add tk nm p ?db0)) = tree_with q None (first_log q) 2" and r1: "fst (add tk nm p ?db0) = Inr ()"
    using v q(1) by (simp_all add: new_tsdb_def)
  from later_adds [OF q(2,5) _ assms(2) s1 no_retention_add [OF n0], of rest] obtain tx
    where l: "fst (add_all tk rest (snd (add tk nm p ?db0))) = replicate (length rest) (Inl (Panic Index_out_of_range))"
      "storage (snd (add_all tk rest (snd (add tk nm p ?db0)))) = tree_with q None (first_log q) tx" by auto
  obtain t t2 where t2: "storage_flush (tree_with q None (first_log q) tx) = (Inr (), t)"
    "storage_init (new_storage (db_file (t_pool t)) (w_file (t_wal t))) = (Inr (), t2)" "t_root t2 = 0" "internal t2 0"
    using restart_internal [OF q(2,3,4)] by blast
  have "all_panic (depth tk) t2" using internal_root_panics [of t2 "depth tk"] t2 assms(2) by simp
  then have "fst (tree_scan (depth tk) (meta_key []) (meta_key [] @ [255]) t2) = Inl (Panic Index_out_of_range)"
    unfolding all_panic_def panics_def by blast
  then have "fst (ts_init tk (new_tsdb t2)) = Inl (Panic Index_out_of_range)"
    by (auto simp: ts_init_def new_tsdb_def split: prod.split)
  moreover have "add_all tk adds ?db0 = (Inr () # replicate (length rest) (Inl (Panic Index_out_of_range)),
      snd (add_all tk rest (snd (add tk nm p ?db0))))"
    using l(1) r1 by (auto simp: a split: prod.split)
  moreover obtain t3 where "storage_init (new_storage None (Some (first_log q))) = (Inr (), t3)"
    "tree_scan (depth tk) (meta_key []) (meta_key [] @ [255]) t3 = (Inr [], t3)"
    using fresh_scan_empty [OF f assms(2)] by blast
  then have "storage_init (new_storage None (Some (first_log q))) = (Inr (), t3)" "ts_init tk (new_tsdb t3) = (Inr (), new_tsdb t3)"
    by (simp_all add: ts_init_def new_tsdb_def)
  moreover have "db_file (t_pool (tree_with q None (first_log q) tx)) = None" by (simp add: tree_with_def)
  ultimately show ?thesis using t2(1,2) by (simp only: l(2) prod.case tree_with_sel) (simp add: a)
qed

theorem series_not_durable_witness:
  "case add_all demo_tools [(''cpu'', demo_point 1 1), (''mem'', demo_point 2 2)] (new_tsdb (snd (storage_init (new_storage None None)))) of (rs, db) \<Rightarrow>
     rs = [Inr (), Inl (Panic Index_out_of_range)]"
proof -
  have d: "0 < depth demo_tools" "[(''cpu'', demo_point 1 1), (''mem'', demo_point 2 2)] \<noteq> []" by (simp_all add: demo_tools_def)
  show ?thesis using series_not_durable [OF d(2,1)] by (auto split: prod.splits simp del: add_all.simps)
qed

end
