(* ===== verification/Spec2Isabelle.thy ===== *)
theory Spec2Isabelle
  imports Cluster Snapshot Worker_Main Server_Tasks Server_Http Server_TSDB
begin

text \<open>
  \<^bold>\<open>The program.\<close> The repository holds a worker in C++20 (\<^verbatim>\<open>src/sandbox\<close>), the main subject of this
  development, and the Redis-like server in Rust it works for (\<^verbatim>\<open>src/redisdb\<close>). The server keeps keys with
  strings, lists, sorted sets and bit fields, and on top of them a queue of jobs. A worker connects to the server,
  registers, and polls for jobs; a job is a shell command that is checked against a security
  profile and run in a sandbox (a child in new namespaces, with a control group and a
  system call filter), its output and exit code being reported back. Around this loop the worker
  keeps a log, metrics with an HTTP endpoint, health checks, a file watcher, resource
  monitors, a process supervisor, network namespaces, snapshots, and message channels between
  sandboxes.

  \<^bold>\<open>The theories.\<close>

  \<^item> \<open>Prelude\<close>: machine integers, the faults a C++ call can end in and the result type \<open>'a res\<close>,
    the part of \<^verbatim>\<open>std::string\<close> and of number parsing and printing that the code uses.
  \<^item> \<open>Bytes\<close>: little-endian encodings, reads at a position of a buffer, and what a codec promises
    (locales \<open>slice_codec\<close> and \<open>cursor_codec\<close>, interpreted for the integers here, for the fields
    of a datagram in \<open>Ipc\<close> and for kernel events in \<open>File_Watcher\<close>).
  \<^item> \<open>Containers\<close>: \<^verbatim>\<open>std::unordered_map\<close> and \<^verbatim>\<open>std::map\<close> as association lists, and the contracts
    that several components offer: \<open>registry\<close> (interpreted for the profiles, channels, processes,
    monitors, namespaces and the store of the server), \<open>bounded_log\<close> (the log, the audit log, the
    usage history), \<open>recent_view\<close> (their queries) and \<open>fifo\<close> (the lists of the server as queues).
  \<^item> \<open>Doubles\<close>: conversion, division and comparison of IEEE doubles on rationals, with the
    theorem that comparing a quotient with a fraction is exact for moderate denominators.
    \<open>Wait_Status\<close>: the macros on wait status words.
  \<^item> \<open>Redis_Proto\<close> (\<^verbatim>\<open>redisdb/src/proto/mod.rs\<close>) and \<open>Redis_Client\<close> (\<^verbatim>\<open>redis_client.cpp\<close>): both
    ends of the wire. The client runs on a kernel record that may split a stream anywhere; the
    parser runs on a host record with a number of stack frames and an allocator. Shown: a call
    is end-to-end correct, the parser stays in bounds and ends, and what hostile input does.
  \<^item> \<open>Security\<close> (\<^verbatim>\<open>security.cpp\<close>): the six profiles, their application as a list of effects, the command
    check and the audit log. Shown: what the check decides, how the profiles compare, what applying
    one does.
  \<^item> \<open>Log_Aggregator\<close> (\<^verbatim>\<open>log_aggregator.cpp\<close>), \<open>Metrics\<close> (\<^verbatim>\<open>metrics.cpp\<close>), \<open>Health_Monitor\<close>
    (\<^verbatim>\<open>health_monitor.cpp\<close>), \<open>File_Watcher\<close> (\<^verbatim>\<open>file_watcher.cpp\<close>): each service's state and all its
    operations. Shown: what a search returns after any pushes, that the page of metrics is one
    block per name, what a round of checks publishes and that it unlocks its mutex twice, and
    that every kernel event reaches the callback.
  \<^item> \<open>Ipc\<close> (\<^verbatim>\<open>ipc.cpp\<close>): channels and their manager over a record of the socket calls whose contract
    is \<open>ux_contract\<close>. Shown: that the receive thread of a connected channel ends at once while its address is in use, what
    it makes of a stream of datagrams when the address is free, and the order of delivery.
  \<^item> \<open>Process_Supervisor\<close> (\<^verbatim>\<open>process_supervisor.cpp\<close>): the process table, the monitor threads and the
    watchdog. \<open>race_step\<close> is the interleaving of \<^verbatim>\<open>stop\<close> with a monitor thread, \<open>sup_step\<close> any
    sequence of operations; the theorems about them are by rule induction over an invariant. Shown of \<^verbatim>\<open>stop\<close>: that it waits out its timeout, unless
    the monitor thread was in the middle of a turn.
  \<^item> \<open>Resource_Monitor\<close> (\<^verbatim>\<open>resource_monitor.cpp\<close>), \<open>Netns\<close> (\<^verbatim>\<open>netns.cpp\<close>), \<open>Snapshot\<close>
    (\<^verbatim>\<open>snapshot.cpp\<close>): sampling of \<^verbatim>\<open>/proc\<close>, namespaces as sequences of shell commands, and
    snapshots over a file system of paths with the metadata text and its reader, and the memory of a process that can be read in parts.
  \<^item> \<open>Sandbox_Exec\<close> (\<^verbatim>\<open>sandbox.cpp\<close>, \<^verbatim>\<open>cgroup.cpp\<close>, \<^verbatim>\<open>seccomp.cpp\<close>): a run as the calls of parent and child. Shown: the code a run reports for every
    end of the child (\<open>child_end\<close>), and what the child may still do.
  \<^item> \<open>Job_Loop\<close> and \<open>Worker_Main\<close> (\<^verbatim>\<open>main.cpp\<close>): options, callbacks and the loop, composed of the other
    components' operations; and around it the whole \<^verbatim>\<open>main\<close>, with its early returns, the services, the
    shutdown and the destructors in their order; there every request goes over the network, and an exception or \<^verbatim>\<open>SIGPIPE\<close>
    at any of them ends the program (\<open>death\<close>). The protocol of a worker is the automaton
    \<open>protocol_step\<close>; the theorem below is the refinement of it by the loop. Shown of \<^verbatim>\<open>main\<close>: how it ends,
    and that its threads are joined and outlived by the objects they refer to, with one exception.
  \<^item> \<open>Rust_Prims\<close>: what the server uses of its standard library: checked arithmetic and panics,
    number parsing, splitting and joining, the binary search. \<open>Server_ZSet\<close> (\<^verbatim>\<open>redisdb/src/zset/mod.rs\<close>),
    \<open>Server_Store\<close> (\<^verbatim>\<open>store/mod.rs\<close>), \<open>Server_Handler\<close> (\<^verbatim>\<open>handler.rs\<close>, \<^verbatim>\<open>handle_conn\<close> of \<^verbatim>\<open>server.rs\<close>,
    \<^verbatim>\<open>stats.rs\<close>): the data of the server, all its commands and a turn of a connection. Shown: bit
    fields and ranges are exact, a sorted set never loses an entry of its sorted half, the queue of
    jobs is first in first out, and what the commands get wrong. \<open>Server_Invariant\<close>: what every command keeps,
    by rule induction over the turns of all connections (\<open>server_step\<close>). \<open>Server_Tasks\<close>: the job commands as trees
    of calls of the store and a pool of them running at once (\<open>pool_step\<close>). Shown: uninterrupted they are the
    commands, the queue is linear under every interleaving, and two races.
  \<^item> \<open>Storage_Wal\<close> (\<^verbatim>\<open>btree/wal.rs\<close>), \<open>Storage_Pool\<close> (\<^verbatim>\<open>page.rs\<close>, \<^verbatim>\<open>buffer_pool.rs\<close>), \<open>Storage_BTree\<close> (\<^verbatim>\<open>btree.rs\<close>,
    \<^verbatim>\<open>storage.rs\<close>): the storage engine of the time series, from the bytes of the log and the file to the tree.
    What becomes of a write of a page is an argument (\<open>fate\<close>: done, failed after some bytes, or done only after the call returned).
    Shown: what a replay of any log gives, that the buffer pool keeps its invariant on any disk (locale \<open>page_store\<close>) and implements a map of pages on one that fails no
    write (locale \<open>page_cache\<close>), that a flush that reports success is durable once its writes are done, that a write that fails during an eviction loses the page,
    and that the tree over them breaks with its first entry and is
    not found again after a restart. \<open>Server_TSDB\<close> (\<^verbatim>\<open>tsdb\<close>): the time series on top of it. Shown: a series holds what its
    retention leaves and a query is exact, and nothing of it survives a restart, with or without a flush.
  \<^item> \<open>Server_Accept\<close> (\<^verbatim>\<open>server.rs\<close>, \<^verbatim>\<open>stats.rs\<close>): the accept loop with its permits and the tasks it starts (\<open>front_step\<close>).
    Shown: permits and counters agree with the connections, except that a panic leaves a connection counted.
    \<open>Server_Streams\<close> (\<^verbatim>\<open>streams.rs\<close>), \<open>Server_PubSub\<close> (\<^verbatim>\<open>pubsub.rs\<close>, over a record of the runtime's broadcast channel with the contract
    \<open>broadcast_ok\<close>), \<open>Server_Http\<close> (\<^verbatim>\<open>http.rs\<close>, \<^verbatim>\<open>plugins.rs\<close>): the other modules of the server. Shown: what a stream holds after any appends
    and trims, that a subscriber gets what is published, that every page of the two HTTP servers can be read by a
    client (\<open>Http_Text\<close>), and which page a request gets, and the built-in plugins in any order of registration.
  \<^item> \<open>System\<close>: worker and server composed over a connection. Shown: a queue of jobs is served,
    each job ending with its own result; a request the server refuses ends the connection and
    loses the job; and the client reads back every answer. \<open>Cluster\<close>: any number of workers on one server,
    exchange by exchange in any order, by an invariant over a ledger of the jobs taken and reported. Shown, for exchanges that are in time: each job is
    taken once and reported with its own result, and the workers can always finish.

  \<^bold>\<open>Conventions.\<close> Code outside the repository is an argument: system calls, the shell, the clock,
  \<^verbatim>\<open>/proc\<close>, regular expressions, the text of a double, libseccomp. Every exception, misuse of a
  mutex or a thread, and access outside an array is a value of \<open>fault\<close>; a panic of the server is a
  value of \<open>panic\<close>. A thread is one turn of its
  loop or, where it carries a buffer from turn to turn, the loop over the sequence of what the kernel delivers
  (\<open>receive_loop\<close>, \<open>poll_loop\<close>), and a loop that reads a stream is a total function of what the stream delivers. Fuel
  occurs as the number of stack frames of the response parser, where it is a resource
  of the host and enough frames give a result for every input (\<open>parser_total\<close>), and as the depth of the
  recursion over the pages of a tree, where the file decides whether it ends; the theorems hold for
  every depth above zero. Maps with unspecified
  iteration order are lists, and every theorem about an iteration holds for each order.

  \<^bold>\<open>Not modelled.\<close> The console output of the components (that of \<^verbatim>\<open>main\<close> is a trace), sleeping and signal handlers; the stubs for other platforms; the
  memory of the child's stack; of the server TLS, the terminal client (\<^verbatim>\<open>bin/redis-tui.rs\<close>, a user interface of a library) and its
  \<^verbatim>\<open>main\<close>, which starts the modelled loop and waits for it or for a signal; the test framework (\<^verbatim>\<open>sandbox/tests/test.hpp\<close>). Concurrent access is
  modelled where a theorem depends on it (\<^verbatim>\<open>stop\<close> and the monitor thread, the health monitor's mutex, the job commands of
  the server, the threads of \<^verbatim>\<open>main\<close>, the workers on one server, the tasks of the accept loop); elsewhere an operation, under its
  lock or under several one after another (as \<^verbatim>\<open>get_page\<close> of the buffer pool), or a command, is one step, and the theorems are about
  operations that do not overlap.

  \<^bold>\<open>Plan.\<close> Next: the remaining commands as tasks, the loops of the other service threads, and the cluster of workers at the
  grain of the calls of the store.
\<close>

section \<open>Properties of the whole worker\<close>

text \<open>
  C1. The worker keeps its protocol and its policy. Over any sequence of turns of the main loop,
  whatever Redis, the kernel and the shell answer, the requests it sends are accepted by the
  protocol automaton and leave it idle: every job that is claimed gets log lines, exactly one
  result, and then the worker is released, before anything else is claimed or polled. And a
  child process is created only for a command the security profile allows, with the
  system call filter that the options ask for.
\<close>

theorem worker_protocol:
  "case main_loop opts sh ts st h of (reqs, calls, st', h') \<Rightarrow>
     protocol_run (opt_id opts) Idle reqs = Some Idle \<and>
     list_all (respects_policy opts (security_manager st)) calls"
  using main_loop_correct [of opts sh ts st h] by (auto split: prod.splits)

end
